(* ===== verification/NFS_Prelude.thy ===== *)
theory NFS_Prelude
  imports Main "HOL-Library.Word"
begin

text \<open>
  Shared material of the networkfs development: the names of the machine types the
  C sources use on an LP64 platform, the collections of facts the component proofs
  draw on, and generic lemmas on words.
\<close>

unbundle bit_operations_syntax

subsection \<open>Machine types\<close>

text \<open>
  \<open>size_t\<close>, \<open>off_t\<close>, \<open>ssize_t\<close> and \<open>long\<close> are 64-bit words, \<open>int\<close>,
  \<open>unsigned\<close>, \<open>mode_t\<close>, \<open>uid_t\<close> and \<open>gid_t\<close> 32-bit words; whether a
  word is read signed (\<^const>\<open>sint\<close>) or unsigned (\<^const>\<open>unat\<close>) is written out
  where it is used. Bytes of raw memory are \<open>byte\<close>; text and file contents are
  \<^typ>\<open>string\<close>, a list of 8-bit characters.
\<close>

type_synonym byte = "8 word"
type_synonym u32 = "32 word"
type_synonym u64 = "64 word"

subsection \<open>Collections of facts\<close>

named_theorems flow_simps \<open>equations of the control-flow macros of with.h and try.h\<close>
named_theorems ex_simps \<open>equations of the operations on the thread's exception\<close>
named_theorems keeps_intros \<open>which statements keep a predicate on the state\<close>

subsection \<open>Words\<close>

lemma unat_of_nat_u64: "n < 2 ^ 64 \<Longrightarrow> unat (of_nat n :: u64) = n"
  by (simp add: unat_of_nat)

lemma unat_add_no_wrap:
  fixes a b :: "'a::len word"
  assumes "unat a + unat b < 2 ^ LENGTH('a)"
  shows "unat (a + b) = unat a + unat b"
  using assms by (simp add: unat_word_ariths)

lemma unat_diff_no_wrap:
  fixes a b :: "'a::len word"
  assumes "unat b \<le> unat a"
  shows "unat (a - b) = unat a - unat b"
  using assms by (metis unat_sub word_le_nat_alt)

end
