(* ===== verification/Macros.thy ===== *)
theory Macros
  imports NFS_Prelude
begin

text \<open>
  The preprocessor macros of grammar/macro.h and the macros that choose a variant by the number of
  their arguments. An argument is the list of its tokens. \<open>None\<close> stands for an expansion the
  preprocessor rejects or that leaves a name no macro has.
\<close>

type_synonym toks = "string list"

subsection \<open>Arguments\<close>

text \<open>Arguments end at commas outside parentheses; braces do not protect a comma.\<close>

fun args_from :: "nat \<Rightarrow> toks \<Rightarrow> toks \<Rightarrow> toks list" where
  "args_from d a [] = [a]"
| "args_from d a (t # ts) =
     (if t = '','' \<and> d = 0 then a # args_from 0 [] ts
      else args_from (if t = ''('' then Suc d else if t = '')'' then d - 1 else d) (a @ [t]) ts)"

definition args_of :: "toks \<Rightarrow> toks list" where
  "args_of ts = args_from 0 [] ts"

definition GET_ARG :: "nat \<Rightarrow> toks list \<Rightarrow> toks option" where
  "GET_ARG n as = (if n < length as then Some (as ! n) else None)"

definition numerals :: "toks list" where
  "numerals = map (\<lambda>s. [s]) [''10'', ''9'', ''8'', ''7'', ''6'', ''5'', ''4'', ''3'', ''2'', ''1'']"

definition VA_NARGS :: "toks list \<Rightarrow> toks option" where
  "VA_NARGS as = GET_ARG 10 (as @ numerals)"

subsection \<open>Conditions\<close>

fun va_args :: "toks list \<Rightarrow> toks" where
  "va_args [] = []"
| "va_args [a] = a"
| "va_args (a # as) = a @ '','' # va_args as"

definition IIF :: "toks \<Rightarrow> toks list \<Rightarrow> toks option" where
  "IIF c as = (if as = [] then None else if c = [''0''] then Some (va_args (tl as))
     else if c = [''1''] then Some (hd as) else None)"

definition COMPL :: "toks \<Rightarrow> toks option" where
  "COMPL b = (if b = [''0''] then Some [''1''] else if b = [''1''] then Some [''0''] else None)"

definition BITAND :: "toks \<Rightarrow> toks \<Rightarrow> toks option" where
  "BITAND x y = (if x = [''0''] then Some [''0''] else if x = [''1''] then Some y else None)"

definition CHECK :: "toks list \<Rightarrow> toks option" where
  "CHECK as = GET_ARG 1 (as @ [[''0''], []])"

text \<open>The tokens of the parenthesis at the start, and those behind it.\<close>

fun upto_close :: "nat \<Rightarrow> toks \<Rightarrow> (toks \<times> toks) option" where
  "upto_close d [] = None"
| "upto_close d (t # ts) =
     (if t = '')'' \<and> d = 0 then Some ([], ts)
      else map_option (\<lambda>(a, r). (t # a, r))
        (upto_close (if t = ''('' then Suc d else if t = '')'' then d - 1 else d) ts))"

fun paren_group :: "toks \<Rightarrow> (toks \<times> toks) option" where
  "paren_group [] = None"
| "paren_group (t # ts) = (if t = ''('' then upto_close 0 ts else None)"

definition IS_PAREN :: "toks \<Rightarrow> toks option" where
  "IS_PAREN x = CHECK (args_of (case paren_group x of
     None \<Rightarrow> ''IS_PAREN_PROBE'' # x
   | Some (_, r) \<Rightarrow> [''~'', '','', ''1'', '',''] @ r))"

subsection \<open>Comparing names\<close>

text \<open>\<open>COMPARE_\<close> and \<open>COMPARE_x\<close> give their argument. Of their own expansion they are not expanded again: such
  a token is painted, here with a mark in front.\<close>

definition paint :: "string \<Rightarrow> string" where
  "paint t = CHR ''!'' # t"

definition compare_macros :: "string list" where
  "compare_macros = [''COMPARE_'', ''COMPARE_x'']"

fun macro_expand :: "nat \<Rightarrow> toks \<Rightarrow> toks" where
  "macro_expand 0 ts = ts"
| "macro_expand (Suc n) [] = []"
| "macro_expand (Suc n) (t # ts) =
     (case (if t \<in> set compare_macros then paren_group ts else None) of
        None \<Rightarrow> t # macro_expand n ts
      | Some (arg, rest) \<Rightarrow> macro_expand n (map (\<lambda>u. if u = t then paint u else u) (macro_expand n arg) @ rest))"

text \<open>\<open>COMPARE_ ## a\<close>: pasting takes the first token of the argument.\<close>

definition paste :: "toks \<Rightarrow> toks" where
  "paste a = (case a of [] \<Rightarrow> [''COMPARE_''] | t # ts \<Rightarrow> (''COMPARE_'' @ t) # ts)"

definition expanded :: "toks \<Rightarrow> toks" where
  "expanded ts = macro_expand (2 * length ts) ts"

definition COMPARE :: "toks \<Rightarrow> toks \<Rightarrow> toks option" where
  "COMPARE a b =
     Option.bind (IS_PAREN (expanded (paste a @ [''('', ''('', '')'', '')'']))) (\<lambda>x.
     Option.bind (IS_PAREN (expanded (paste b @ [''('', ''('', '')'', '')'']))) (\<lambda>y.
     Option.bind (BITAND x y) (\<lambda>c.
     Option.bind (IS_PAREN (expanded (paste a @ [''(''] @ paste b @ ['')'', ''('', ''('', '')'', '')'']))) (\<lambda>z.
     Option.bind (COMPL z) (\<lambda>e. IIF c [e, [''0'']])))))"

text \<open>\<open>VTABLE\<close>: with one argument the name of a member, with a second its declaration.\<close>

definition VTABLE :: "toks list \<Rightarrow> toks option" where
  "VTABLE as =
     Option.bind (GET_ARG 1 (as @ [[]])) (\<lambda>second.
     Option.bind (COMPARE [''x''] (''x'' # second)) (\<lambda>c. IIF c [[''VTABLE_FIELDNAME''], [''VTABLE_DECL'']]))"

subsection \<open>Overloading by the number of arguments\<close>

text \<open>The name that stands at a fixed place behind the arguments. With \<open>arg0, ## __VA_ARGS__\<close> there may be
  no argument at all.\<close>

definition with_generic :: "toks list \<Rightarrow> toks option" where
  "with_generic as = GET_ARG 4 (as @ [[''with_test''], [''with_seperated''], [''with_assign''], [''with_decl''], []])"

definition catch_generic :: "toks list \<Rightarrow> toks option" where
  "catch_generic as = GET_ARG 2 (as @ [[''catch_type''], [''catch_default''], []])"

definition onerror_generic :: "toks list \<Rightarrow> toks option" where
  "onerror_generic as = GET_ARG 2 (as @ [[''onerror_type''], [''onerror_default''], []])"

definition foreach_range_generic :: "toks list \<Rightarrow> toks option" where
  "foreach_range_generic as = GET_ARG 4 (as @ [[''foreach_range_3''], [''foreach_range_2''], [''foreach_range_1''], []])"

definition malloc_e_generic :: "toks list \<Rightarrow> toks option" where
  "malloc_e_generic as = GET_ARG 2 (as @ [[''malloc_e_sn''], [''malloc_e_s''], []])"

definition Buffer_generic :: "toks list \<Rightarrow> toks option" where
  "Buffer_generic as = GET_ARG 4 (as @ [[''Buffer_init_exist''], [''arg4''], [''Buffer_init_new''], [''Buffer_init_quick''], []])"

definition Buffer_new_generic :: "toks list \<Rightarrow> toks option" where
  "Buffer_new_generic as = GET_ARG 4 ([''arg0''] # as @ [[''Buffer_new_exist''], [''arg4''], [''Buffer_new_new''], [''Buffer_new_quick''], []])"

definition curl_slist_generic :: "toks list \<Rightarrow> toks option" where
  "curl_slist_generic as = GET_ARG 3 ([''arg0''] # as @
     [[''curl_slist_append_e'', ''(''] @ va_args as @ ['')''],
      [''curl_slist_append_e'', ''('', ''NULL'', '',''] @ va_args as @ ['')''], [''NULL'']])"

definition CURLU_new_generic :: "toks list \<Rightarrow> toks option" where
  "CURLU_new_generic as = GET_ARG 2 ([''arg0''] # as @ [[''curl_url_dup_e''], [''curl_url_e''], []])"

text \<open>The variants: macro, number of arguments, and the variant with so many parameters.\<close>

definition overloads :: "((toks list \<Rightarrow> toks option) \<times> nat \<times> string) list" where
  "overloads = [
     (with_generic, 1, ''with_decl''), (with_generic, 2, ''with_assign''), (with_generic, 3, ''with_seperated''),
     (with_generic, 4, ''with_test''),
     (catch_generic, 1, ''catch_default''), (catch_generic, 2, ''catch_type''),
     (onerror_generic, 1, ''onerror_default''), (onerror_generic, 2, ''onerror_type''),
     (foreach_range_generic, 2, ''foreach_range_1''), (foreach_range_generic, 3, ''foreach_range_2''),
     (foreach_range_generic, 4, ''foreach_range_3''),
     (malloc_e_generic, 1, ''malloc_e_s''), (malloc_e_generic, 2, ''malloc_e_sn''),
     (Buffer_generic, 1, ''Buffer_init_quick''), (Buffer_generic, 2, ''Buffer_init_new''), (Buffer_generic, 4, ''Buffer_init_exist''),
     (Buffer_new_generic, 0, ''Buffer_new_quick''), (Buffer_new_generic, 1, ''Buffer_new_new''), (Buffer_new_generic, 3, ''Buffer_new_exist''),
     (CURLU_new_generic, 0, ''curl_url_e''), (CURLU_new_generic, 1, ''curl_url_dup_e'')]"

subsection \<open>Properties\<close>

lemma GET_ARG_append: "GET_ARG n (as @ bs) = (if n < length as then Some (as ! n) else GET_ARG (n - length as) bs)"
  by (auto simp: GET_ARG_def nth_append)

lemma GET_ARG_Cons: "GET_ARG n (a # as) = (if n = 0 then Some a else GET_ARG (n - 1) as)"
  by (cases n) (auto simp: GET_ARG_def)

lemmas choice_defs = with_generic_def catch_generic_def onerror_generic_def foreach_range_generic_def malloc_e_generic_def
  Buffer_generic_def Buffer_new_generic_def CURLU_new_generic_def

text \<open>Every overloaded macro chooses the variant that has as many parameters as it is given arguments.\<close>

theorem overload_choice:
  assumes "(f, n, v) \<in> set overloads" "length as = n"
  shows "f as = Some [v]"
  using assms by (auto simp: overloads_def choice_defs GET_ARG_append GET_ARG_Cons)

theorem overload_choice_witness:
  "with_generic [[''CURL'', ''*'', ''curl''], [''curl_easy_cleanup_common'']] = Some [''with_assign'']"
  by (rule overload_choice [of _ 2]) (simp_all add: overloads_def)

text \<open>\<open>VA_NARGS\<close> counts up to ten arguments; without any it gives 1, as for one empty argument.\<close>

lemma VA_NARGS_counts:
  assumes "1 \<le> length as" "length as \<le> 10"
  shows "VA_NARGS as = Some (numerals ! (10 - length as))"
  using assms by (auto simp: VA_NARGS_def GET_ARG_def nth_append numerals_def)

lemma curl_slist_choice:
  "curl_slist_generic [] = Some [''NULL'']"
  "curl_slist_generic [a] = Some ([''curl_slist_append_e'', ''('', ''NULL'', '',''] @ a @ ['')''])"
  "curl_slist_generic [a, b] = Some ([''curl_slist_append_e'', ''(''] @ a @ '','' # b @ ['')''])"
  by (simp_all add: curl_slist_generic_def GET_ARG_Cons)

text \<open>One argument whose parentheses match.\<close>

fun plain :: "nat \<Rightarrow> toks \<Rightarrow> bool" where
  "plain d [] \<longleftrightarrow> d = 0"
| "plain d (t # ts) \<longleftrightarrow> (t = '','' \<longrightarrow> d \<noteq> 0) \<and> (t = '')'' \<longrightarrow> d \<noteq> 0) \<and>
     plain (if t = ''('' then Suc d else if t = '')'' then d - 1 else d) ts"

lemma args_plain: "plain d ts \<Longrightarrow> args_from d a (ts @ us) = args_from 0 (a @ ts) us"
  by (induction ts arbitrary: d a) auto

lemma close_plain: "plain d ts \<Longrightarrow> upto_close d (ts @ '')'' # us) = Some (ts, us)"
  by (induction ts arbitrary: d) auto

lemma expand_none: "set ts \<inter> set compare_macros = {} \<Longrightarrow> macro_expand n ts = ts"
proof (induction ts arbitrary: n)
  case Nil
  then show ?case by (cases n) simp_all
next
  case (Cons t ts)
  then show ?case by (cases n) simp_all
qed

lemma IS_PAREN_name:
  assumes "plain 0 x" "x \<noteq> []" "hd x \<noteq> ''(''"
  shows "IS_PAREN (x @ us) = CHECK (args_from 0 (''IS_PAREN_PROBE'' # x) us)"
proof -
  obtain t ts where x: "x = t # ts" using assms(2) by (cases x) auto
  have "plain 0 (''IS_PAREN_PROBE'' # x)" using assms(1) by simp
  from args_plain [OF this, of "[]" us] show ?thesis using assms(3) by (simp add: IS_PAREN_def args_of_def x)
qed

lemma plain_append: "plain d ts \<Longrightarrow> plain 0 us \<Longrightarrow> plain d (ts @ us)"
  by (induction ts arbitrary: d) auto

lemma IS_PAREN_name0: "plain 0 x \<Longrightarrow> x \<noteq> [] \<Longrightarrow> hd x \<noteq> ''('' \<Longrightarrow> IS_PAREN x = Some [''0'']"
  using IS_PAREN_name [of x "[]"] by (simp add: CHECK_def GET_ARG_def)

lemma expand_name:
  assumes "set body \<inter> set compare_macros = {}" "body \<noteq> []" "hd body \<noteq> ''(''"
  shows "macro_expand (Suc n) (''COMPARE_x'' # body) = ''COMPARE_x'' # body"
  using assms expand_none [OF assms(1), of n] by (cases body) simp_all

text \<open>\<open>VTABLE(Class)\<close> is the name of a member; with a body behind it, one argument with matching parentheses
  that does not start with one, it is the declaration.\<close>

theorem VTABLE_choice:
  assumes b: "plain 0 body" "body \<noteq> []" "hd body \<noteq> ''(''" "set body \<inter> set compare_macros = {}"
  shows "VTABLE [c] = Some [''VTABLE_FIELDNAME''] \<and> VTABLE (c # body # rest) = Some [''VTABLE_DECL'']"
proof
  have "COMPARE [''x''] [''x''] = Some [''1'']" by code_simp
  then show "VTABLE [c] = Some [''VTABLE_FIELDNAME'']" by (simp add: VTABLE_def GET_ARG_def IIF_def)
  let ?u = "[''('', ''('', '')'', '')'']" and ?C = "''COMPARE_x''"
  have p: "plain 0 (?C # body @ ?u)" "plain 0 (paint ?C # body @ ?u)"
    using plain_append [OF b(1), of ?u] by (simp_all add: paint_def)
  have n: "set (body @ ?u) \<inter> set compare_macros = {}" "hd (body @ ?u) \<noteq> ''(''" using b by (auto simp: compare_macros_def)
  have "expanded (?C # body @ ?u) = ?C # body @ ?u"
    using expand_name [OF n(1) _ n(2)] b(2) by (simp add: expanded_def)
  then have y: "IS_PAREN (expanded (paste (''x'' # body) @ ?u)) = Some [''0'']" using IS_PAREN_name0 [OF p(1)] by (simp add: paste_def)
  have x: "IS_PAREN (expanded (paste [''x''] @ ?u)) = Some [''1'']" by code_simp
  have g: "paren_group (''('' # ?C # body @ '')'' # ?u) = Some (?C # body, ?u)"
    using close_plain [of 0 "?C # body" ?u] b(1) by simp
  have q: "set (paint ?C # body @ ?u) \<inter> set compare_macros = {}" using n(1) by (auto simp: paint_def compare_macros_def)
  have m: "map (\<lambda>u. if u = ?C then paint u else u) (?C # body) = paint ?C # body"
    using b(4) by (auto simp: compare_macros_def intro!: map_idI)
  have "macro_expand (Suc (Suc k)) (?C # ''('' # ?C # body @ '')'' # ?u) = paint ?C # body @ ?u" for k
  proof -
    have "macro_expand (Suc (Suc k)) (?C # ''('' # ?C # body @ '')'' # ?u) =
        macro_expand (Suc k) (map (\<lambda>u. if u = ?C then paint u else u) (macro_expand (Suc k) (?C # body)) @ ?u)"
      using g by (simp add: macro_expand.simps(3) [of "Suc k"] compare_macros_def del: macro_expand.simps paren_group.simps)
    then show ?thesis using m expand_none [OF q, of "Suc k"] by (simp add: expand_name [OF b(4,2,3)] del: macro_expand.simps list.map)
  qed
  from this [of "2 * length (?C # ''('' # ?C # body @ '')'' # ?u) - 2"]
  have "expanded (?C # ''('' # ?C # body @ '')'' # ?u) = paint ?C # body @ ?u" by (simp add: expanded_def)
  then have z: "IS_PAREN (expanded (paste [''x''] @ [''(''] @ paste (''x'' # body) @ ['')'', ''('', ''('', '')'', '')''])) = Some [''0'']"
    using IS_PAREN_name0 [OF p(2)] by (simp add: paste_def paint_def)
  show "VTABLE (c # body # rest) = Some [''VTABLE_DECL'']"
    using x y z by (simp add: VTABLE_def GET_ARG_def COMPARE_def BITAND_def COMPL_def IIF_def)
qed

theorem VTABLE_choice_witness:
  "VTABLE [[''Exception'']] = Some [''VTABLE_FIELDNAME''] \<and>
   VTABLE [[''Exception''], [''{'', ''int'', ''('', ''*'', ''f'', '')'', ''('', ''int'', '','', ''int'', '')'', '';'', ''}'']] = Some [''VTABLE_DECL'']"
  using VTABLE_choice [of "[''{'', ''int'', ''('', ''*'', ''f'', '')'', ''('', ''int'', '','', ''int'', '')'', '';'', ''}'']" "[''Exception'']" "[]"]
  by (simp add: compare_macros_def)

end
