(* ===== verification/Crc32.thy ===== *)
theory Crc32
  imports NFS_Prelude
begin

text \<open>
  The checksum of common/crc32.c (\<open>crc32_table\<close>, \<open>xcrc32\<close>) and common/crc32.h
  (\<open>crc32\<close>). The table-driven loop is proved equal to the bit-serial division by the
  generator polynomial that the comment in the source specifies, blocks compose as the
  comment promises, and a change confined to four consecutive bytes is always detected.
\<close>

subsection \<open>Definitions\<close>

definition crc32_table :: "u32 list" where
  "crc32_table = [
    0x00000000, 0x04c11db7, 0x09823b6e, 0x0d4326d9,
    0x130476dc, 0x17c56b6b, 0x1a864db2, 0x1e475005,
    0x2608edb8, 0x22c9f00f, 0x2f8ad6d6, 0x2b4bcb61,
    0x350c9b64, 0x31cd86d3, 0x3c8ea00a, 0x384fbdbd,
    0x4c11db70, 0x48d0c6c7, 0x4593e01e, 0x4152fda9,
    0x5f15adac, 0x5bd4b01b, 0x569796c2, 0x52568b75,
    0x6a1936c8, 0x6ed82b7f, 0x639b0da6, 0x675a1011,
    0x791d4014, 0x7ddc5da3, 0x709f7b7a, 0x745e66cd,
    0x9823b6e0, 0x9ce2ab57, 0x91a18d8e, 0x95609039,
    0x8b27c03c, 0x8fe6dd8b, 0x82a5fb52, 0x8664e6e5,
    0xbe2b5b58, 0xbaea46ef, 0xb7a96036, 0xb3687d81,
    0xad2f2d84, 0xa9ee3033, 0xa4ad16ea, 0xa06c0b5d,
    0xd4326d90, 0xd0f37027, 0xddb056fe, 0xd9714b49,
    0xc7361b4c, 0xc3f706fb, 0xceb42022, 0xca753d95,
    0xf23a8028, 0xf6fb9d9f, 0xfbb8bb46, 0xff79a6f1,
    0xe13ef6f4, 0xe5ffeb43, 0xe8bccd9a, 0xec7dd02d,
    0x34867077, 0x30476dc0, 0x3d044b19, 0x39c556ae,
    0x278206ab, 0x23431b1c, 0x2e003dc5, 0x2ac12072,
    0x128e9dcf, 0x164f8078, 0x1b0ca6a1, 0x1fcdbb16,
    0x018aeb13, 0x054bf6a4, 0x0808d07d, 0x0cc9cdca,
    0x7897ab07, 0x7c56b6b0, 0x71159069, 0x75d48dde,
    0x6b93dddb, 0x6f52c06c, 0x6211e6b5, 0x66d0fb02,
    0x5e9f46bf, 0x5a5e5b08, 0x571d7dd1, 0x53dc6066,
    0x4d9b3063, 0x495a2dd4, 0x44190b0d, 0x40d816ba,
    0xaca5c697, 0xa864db20, 0xa527fdf9, 0xa1e6e04e,
    0xbfa1b04b, 0xbb60adfc, 0xb6238b25, 0xb2e29692,
    0x8aad2b2f, 0x8e6c3698, 0x832f1041, 0x87ee0df6,
    0x99a95df3, 0x9d684044, 0x902b669d, 0x94ea7b2a,
    0xe0b41de7, 0xe4750050, 0xe9362689, 0xedf73b3e,
    0xf3b06b3b, 0xf771768c, 0xfa325055, 0xfef34de2,
    0xc6bcf05f, 0xc27dede8, 0xcf3ecb31, 0xcbffd686,
    0xd5b88683, 0xd1799b34, 0xdc3abded, 0xd8fba05a,
    0x690ce0ee, 0x6dcdfd59, 0x608edb80, 0x644fc637,
    0x7a089632, 0x7ec98b85, 0x738aad5c, 0x774bb0eb,
    0x4f040d56, 0x4bc510e1, 0x46863638, 0x42472b8f,
    0x5c007b8a, 0x58c1663d, 0x558240e4, 0x51435d53,
    0x251d3b9e, 0x21dc2629, 0x2c9f00f0, 0x285e1d47,
    0x36194d42, 0x32d850f5, 0x3f9b762c, 0x3b5a6b9b,
    0x0315d626, 0x07d4cb91, 0x0a97ed48, 0x0e56f0ff,
    0x1011a0fa, 0x14d0bd4d, 0x19939b94, 0x1d528623,
    0xf12f560e, 0xf5ee4bb9, 0xf8ad6d60, 0xfc6c70d7,
    0xe22b20d2, 0xe6ea3d65, 0xeba91bbc, 0xef68060b,
    0xd727bbb6, 0xd3e6a601, 0xdea580d8, 0xda649d6f,
    0xc423cd6a, 0xc0e2d0dd, 0xcda1f604, 0xc960ebb3,
    0xbd3e8d7e, 0xb9ff90c9, 0xb4bcb610, 0xb07daba7,
    0xae3afba2, 0xaafbe615, 0xa7b8c0cc, 0xa379dd7b,
    0x9b3660c6, 0x9ff77d71, 0x92b45ba8, 0x9675461f,
    0x8832161a, 0x8cf30bad, 0x81b02d74, 0x857130c3,
    0x5d8a9099, 0x594b8d2e, 0x5408abf7, 0x50c9b640,
    0x4e8ee645, 0x4a4ffbf2, 0x470cdd2b, 0x43cdc09c,
    0x7b827d21, 0x7f436096, 0x7200464f, 0x76c15bf8,
    0x68860bfd, 0x6c47164a, 0x61043093, 0x65c52d24,
    0x119b4be9, 0x155a565e, 0x18197087, 0x1cd86d30,
    0x029f3d35, 0x065e2082, 0x0b1d065b, 0x0fdc1bec,
    0x3793a651, 0x3352bbe6, 0x3e119d3f, 0x3ad08088,
    0x2497d08d, 0x2056cd3a, 0x2d15ebe3, 0x29d4f654,
    0xc5a92679, 0xc1683bce, 0xcc2b1d17, 0xc8ea00a0,
    0xd6ad50a5, 0xd26c4d12, 0xdf2f6bcb, 0xdbee767c,
    0xe3a1cbc1, 0xe760d676, 0xea23f0af, 0xeee2ed18,
    0xf0a5bd1d, 0xf464a0aa, 0xf9278673, 0xfde69bc4,
    0x89b8fd09, 0x8d79e0be, 0x803ac667, 0x84fbdbd0,
    0x9abc8bd5, 0x9e7d9662, 0x933eb0bb, 0x97ffad0c,
    0xafb010b1, 0xab710d06, 0xa6322bdf, 0xa2f33668,
    0xbcb4666d, 0xb8757bda, 0xb5365d03, 0xb1f740b4]"

text \<open>The program that generated the table, from the comment above it: the inner loop
  body and one entry.\<close>

definition crc_bit :: "u32 \<Rightarrow> u32" where
  "crc_bit c = (if c AND 0x80000000 \<noteq> 0 then push_bit 1 c XOR 0x04c11db7 else push_bit 1 c)"

definition gen_entry :: "nat \<Rightarrow> u32" where
  "gen_entry i = (crc_bit ^^ 8) (push_bit 24 (of_nat i))"

text \<open>One iteration of the loop of \<open>xcrc32\<close>.\<close>

definition crc_step :: "u32 \<Rightarrow> byte \<Rightarrow> u32" where
  "crc_step crc b =
     push_bit 8 crc XOR crc32_table ! unat ((drop_bit 24 crc XOR ucast b) AND 255)"

text \<open>
  \<open>while (len--)\<close> over the bytes at \<open>buf\<close>. Reading past the bytes that are there
  (a \<open>len\<close> that is larger, or negative) is outside the program's meaning: \<open>None\<close>.
\<close>

fun xcrc32 :: "byte list \<Rightarrow> int \<Rightarrow> u32 \<Rightarrow> u32 option" where
  "xcrc32 [] len crc = (if len = 0 then Some crc else None)"
| "xcrc32 (b # bs) len crc = (if len = 0 then Some crc else xcrc32 bs (len - 1) (crc_step crc b))"

definition crc32 :: "byte list \<Rightarrow> int \<Rightarrow> u32 option" where
  "crc32 buf len = xcrc32 buf len 0xffffffff"

text \<open>The specification in the comment (width 32, polynomial \<open>0x04c11db7\<close>, nothing
  reflected, no final xor), one bit at a time.\<close>

definition crc_ref :: "byte list \<Rightarrow> u32 \<Rightarrow> u32" where
  "crc_ref buf init = foldl (\<lambda>c b. (crc_bit ^^ 8) (c XOR push_bit 24 (ucast b))) init buf"

subsection \<open>The bit step is linear and injective\<close>

lemma crc_bit_alt:
  "crc_bit c = (if bit c 31 then push_bit 1 c XOR 0x04c11db7 else push_bit 1 c)"
proof -
  have "(0x80000000 :: u32) = 2 ^ 31" by simp
  then have "c AND 0x80000000 \<noteq> 0 \<longleftrightarrow> bit c 31"
    using and_exp_eq_0_iff_not_bit [of c 31] by metis
  then show ?thesis by (simp add: crc_bit_def)
qed

lemma crc_bit_xor: "crc_bit (a XOR b) = crc_bit a XOR crc_bit b"
  by (auto simp: crc_bit_alt bit_xor_iff push_bit_xor ac_simps)

lemma crc_bits_xor: "(crc_bit ^^ n) (a XOR b) = (crc_bit ^^ n) a XOR (crc_bit ^^ n) b"
  by (induction n) (simp_all add: crc_bit_xor)

lemma crc_bit_eq_0: "crc_bit x = 0 \<Longrightarrow> x = 0"
proof -
  assume z: "crc_bit x = 0"
  have nb: "\<not> bit x 31"
  proof
    assume "bit x 31"
    with z have "bit (push_bit 1 x XOR (0x04c11db7 :: u32)) 0 = bit (0 :: u32) 0"
      by (simp add: crc_bit_alt)
    then have "bit (push_bit 1 x) 0 \<noteq> bit (0x04c11db7 :: u32) 0 \<longleftrightarrow> False"
      by (simp only: bit_xor_iff) simp
    then show False by (simp add: bit_0)
  qed
  with z have p: "push_bit 1 x = 0" by (simp add: crc_bit_alt)
  show "x = 0"
  proof (rule bit_word_eqI)
    fix n assume n: "n < LENGTH(32)"
    show "bit x n = bit (0 :: u32) n"
    proof (cases "n = 31")
      case True
      with nb show ?thesis by simp
    next
      case False
      with n have "Suc n < 32" by simp
      then have "bit (push_bit 1 x) (Suc n) = bit x n"
        by (simp only: bit_push_bit_iff) simp
      with p show ?thesis by simp
    qed
  qed
qed

lemma xor_eq_0D: "a XOR b = 0 \<Longrightarrow> a = b" for a b :: "'a::len word"
  by (metis xor.assoc xor.left_neutral xor.right_neutral xor_self_eq)

lemma xor_right_cancelD: "a XOR c = b XOR c \<Longrightarrow> a = b" for a b c :: "'a::len word"
  by (drule arg_cong [where f = "\<lambda>x. x XOR c"]) (simp add: xor.assoc)

lemma xor_left_cancelD: "c XOR a = c XOR b \<Longrightarrow> a = b" for a b c :: "'a::len word"
  by (rule xor_right_cancelD) (simp only: xor.commute)

lemma crc_bits_inj: "(crc_bit ^^ n) a = (crc_bit ^^ n) b \<Longrightarrow> a = b"
proof (induction n)
  case (Suc n)
  then have "crc_bit ((crc_bit ^^ n) a XOR (crc_bit ^^ n) b) = 0"
    by (simp add: crc_bit_xor)
  then have "(crc_bit ^^ n) a XOR (crc_bit ^^ n) b = 0" by (rule crc_bit_eq_0)
  then have "(crc_bit ^^ n) a = (crc_bit ^^ n) b" by (rule xor_eq_0D)
  then show ?case by (rule Suc.IH)
qed simp

subsection \<open>The table\<close>

lemma funpow8: "(f ^^ 8) x = f (f (f (f (f (f (f (f x)))))))"
  by (simp add: numeral_eq_Suc)

lemma crc32_table_gen: "crc32_table = map gen_entry [0..<256]"
  by (simp add: gen_entry_def funpow8 crc_bit_def crc32_table_def upt_rec)


lemma crc32_table_nth: "i < 256 \<Longrightarrow> crc32_table ! i = gen_entry i"
  by (simp add: crc32_table_gen)

subsection \<open>Bytes at a time\<close>

text \<open>Eight bit steps of a word whose upper byte is zero only shift it.\<close>

lemma crc_bits_low: "n \<le> 8 \<Longrightarrow> x AND mask 24 = x \<Longrightarrow> (crc_bit ^^ n) x = push_bit n x"
proof (induction n)
  case (Suc n)
  have "\<not> bit (push_bit n x) 31"
  proof -
    have "bit x (31 - n) = bit (x AND mask 24) (31 - n)" using Suc.prems by simp
    also have "\<dots> = False" using Suc.prems(1) by (auto simp: bit_and_iff bit_mask_iff)
    finally show ?thesis by (simp add: bit_push_bit_iff)
  qed
  with Suc show ?case by (simp add: crc_bit_alt ac_simps)
qed simp

lemma split_byte: "c = push_bit 24 (drop_bit 24 c) XOR (c AND mask 24)" for c :: u32
  by (rule bit_word_eqI)
    (auto simp: bit_xor_iff bit_push_bit_iff bit_drop_bit_eq bit_and_iff bit_mask_iff)

lemma push_low: "push_bit 8 (c AND mask 24) = push_bit 8 c" for c :: u32
  by (rule bit_word_eqI) (auto simp: bit_push_bit_iff bit_and_iff bit_mask_iff)

lemma unat_top_byte: "unat (drop_bit 24 c) < 256" for c :: u32
proof -
  have "unat (drop_bit 24 c) = unat c div 2 ^ 24"
    by (subst unat_drop_bit_eq) (rule drop_bit_eq_div)
  moreover have "unat c < 2 ^ LENGTH(32)" by (rule unsigned_less)
  ultimately show ?thesis by (simp add: less_mult_imp_div_less)
qed

lemma crc_bits8: "(crc_bit ^^ 8) c = push_bit 8 c XOR crc32_table ! unat (drop_bit 24 c)"
proof -
  have "(crc_bit ^^ 8) c =
      (crc_bit ^^ 8) (push_bit 24 (drop_bit 24 c)) XOR (crc_bit ^^ 8) (c AND mask 24)"
    by (metis crc_bits_xor split_byte)
  also have "(crc_bit ^^ 8) (c AND mask 24) = push_bit 8 (c AND mask 24)"
    by (rule crc_bits_low) (simp_all add: and.assoc)
  also have "\<dots> = push_bit 8 c" by (rule push_low)
  also have "(crc_bit ^^ 8) (push_bit 24 (drop_bit 24 c)) = crc32_table ! unat (drop_bit 24 c)"
    by (simp add: crc32_table_nth unat_top_byte gen_entry_def)
  finally show ?thesis by (simp only: xor.commute)
qed

lemma top_byte_xor:
  "drop_bit 24 (crc XOR push_bit 24 (ucast b)) = (drop_bit 24 crc XOR ucast b) AND 255"
  for crc :: u32 and b :: byte
proof -
  have m: "(255 :: u32) = mask 8" by (simp add: mask_eq_exp_minus_1)
  show ?thesis unfolding m
    by (rule bit_word_eqI)
      (auto simp: bit_xor_iff bit_push_bit_iff bit_drop_bit_eq bit_and_iff bit_mask_iff
         bit_unsigned_iff dest: bit_imp_le_length)
qed

lemma push_byte_away: "push_bit 8 (crc XOR push_bit 24 (ucast b)) = push_bit 8 crc"
  for crc :: u32 and b :: byte
  by (rule bit_word_eqI)
    (auto simp: bit_xor_iff bit_push_bit_iff bit_unsigned_iff)

lemma crc_step_bits: "crc_step crc b = (crc_bit ^^ 8) (crc XOR push_bit 24 (ucast b))"
  by (simp only: crc_bits8 crc_step_def top_byte_xor push_byte_away)

subsection \<open>The loop\<close>

lemma xcrc32_ref:
  "xcrc32 buf len crc =
     (if 0 \<le> len \<and> len \<le> int (length buf) then Some (crc_ref (take (nat len) buf) crc) else None)"
proof (induction buf arbitrary: len crc)
  case (Cons b bs)
  show ?case
  proof (cases "0 < len")
    case True
    then have "take (nat len) (b # bs) = b # take (nat (len - 1)) bs"
      by (simp add: take_Cons' nat_diff_distrib)
    with True show ?thesis by (simp add: Cons.IH crc_ref_def crc_step_bits)
  next
    case False
    then show ?thesis by (simp add: Cons.IH crc_ref_def)
  qed
qed (simp add: crc_ref_def)

lemma crc_ref_append: "crc_ref (a @ b) init = crc_ref b (crc_ref a init)"
  by (simp add: crc_ref_def)

lemma crc_ref_inj_init: "crc_ref buf c = crc_ref buf d \<Longrightarrow> c = d"
proof (induction buf arbitrary: c d)
  case (Cons b bs)
  let ?n = "\<lambda>c. (crc_bit ^^ 8) (c XOR push_bit 24 (ucast b))"
  from Cons.prems have "crc_ref bs (?n c) = crc_ref bs (?n d)" by (simp add: crc_ref_def)
  then have "?n c = ?n d" by (rule Cons.IH)
  then have "c XOR push_bit 24 (ucast b) = d XOR push_bit 24 (ucast b)" by (rule crc_bits_inj)
  then show ?case by (rule xor_right_cancelD)
qed (simp add: crc_ref_def)

text \<open>Up to four bytes enter the register one after the other at its upper end without
  being reduced: they act as one word.\<close>

fun byte_word :: "byte list \<Rightarrow> u32" where
  "byte_word [] = 0"
| "byte_word (b # bs) = push_bit 24 (ucast b) XOR drop_bit 8 (byte_word bs)"

lemma byte_word_low: "bit (byte_word bs) i \<Longrightarrow> 32 \<le> i + 8 * length bs"
proof (induction bs arbitrary: i)
  case (Cons b bs)
  then consider "24 \<le> i" | "bit (byte_word bs) (8 + i)"
    by (auto simp: bit_xor_iff bit_push_bit_iff bit_drop_bit_eq)
  then show ?case using Cons.IH [of "8 + i"] by cases auto
qed simp

lemma byte_word_shift:
  assumes "length bs \<le> 3"
  shows "push_bit 8 (drop_bit 8 (byte_word bs)) = byte_word bs"
proof (rule bit_word_eqI)
  fix i assume "i < LENGTH(32)"
  then show "bit (push_bit 8 (drop_bit 8 (byte_word bs))) i = bit (byte_word bs) i"
    using byte_word_low [of bs i] assms
    by (auto simp: bit_push_bit_iff bit_drop_bit_eq)
qed

lemma drop8_low: "drop_bit 8 x AND mask 24 = drop_bit 8 x" for x :: u32
  by (rule bit_word_eqI)
    (auto simp: bit_and_iff bit_mask_iff bit_drop_bit_eq dest: bit_imp_le_length)

lemma crc_ref_word:
  "length bs \<le> 4 \<Longrightarrow> crc_ref bs c = (crc_bit ^^ (8 * length bs)) (c XOR byte_word bs)"
proof (induction bs arbitrary: c)
  case (Cons b bs)
  let ?x = "c XOR push_bit 24 (ucast b)"
  have "byte_word bs = (crc_bit ^^ 8) (drop_bit 8 (byte_word bs))"
    using Cons.prems by (simp only: crc_bits_low drop8_low byte_word_shift length_Cons)
  then have "(crc_bit ^^ 8) ?x XOR byte_word bs = (crc_bit ^^ 8) (?x XOR drop_bit 8 (byte_word bs))"
    by (simp only: crc_bits_xor)
  moreover have "crc_ref (b # bs) c = crc_ref bs ((crc_bit ^^ 8) ?x)"
    by (simp add: crc_ref_def)
  ultimately have "crc_ref (b # bs) c =
      (crc_bit ^^ (8 * length bs)) ((crc_bit ^^ 8) (?x XOR drop_bit 8 (byte_word bs)))"
    using Cons by simp
  also have "\<dots> = (crc_bit ^^ (8 * length bs + 8)) (?x XOR drop_bit 8 (byte_word bs))"
    by (simp only: funpow_add comp_apply)
  finally show ?case by (simp only: byte_word.simps length_Cons mult_Suc_right add.commute xor.assoc)
qed (simp add: crc_ref_def)

lemma ucast_byte_inj:
  fixes x y :: byte
  assumes "ucast x = (ucast y :: u32)"
  shows "x = y"
proof (rule bit_word_eqI)
  fix n assume "n < LENGTH(8)"
  then show "bit x n = bit y n"
    using arg_cong [OF assms, of "\<lambda>w. bit w n"] by (simp add: bit_unsigned_iff)
qed

lemma byte_word_top: "drop_bit 24 (byte_word (b # bs)) = ucast b"
  by (rule bit_word_eqI)
    (auto simp: bit_xor_iff bit_push_bit_iff bit_drop_bit_eq bit_unsigned_iff dest: bit_imp_le_length)

lemma byte_word_inj:
  "length a = length b \<Longrightarrow> length a \<le> 4 \<Longrightarrow> byte_word a = byte_word b \<Longrightarrow> a = b"
proof (induction a b rule: list_induct2)
  case (Cons x xs y ys)
  from arg_cong [OF Cons.prems(2), of "drop_bit 24"] have "ucast x = (ucast y :: u32)"
    by (simp only: byte_word_top)
  then have xy: "x = y" by (rule ucast_byte_inj)
  have "drop_bit 8 (byte_word xs) = drop_bit 8 (byte_word ys)"
    by (rule xor_left_cancelD) (rule Cons.prems(2) [unfolded xy byte_word.simps])
  moreover have "length xs \<le> 3" "length ys \<le> 3" using Cons.prems(1) Cons.hyps by simp_all
  ultimately have "byte_word xs = byte_word ys"
    by (metis (no_types) byte_word_shift)
  with Cons.prems(1) have "xs = ys" by (intro Cons.IH) simp_all
  with xy show ?case by simp
qed simp

lemma crc_ref_burst:
  assumes "length a = length b" "length a \<le> 4" "a \<noteq> b"
  shows "crc_ref (p @ a @ s) init \<noteq> crc_ref (p @ b @ s) init"
proof
  assume "crc_ref (p @ a @ s) init = crc_ref (p @ b @ s) init"
  then have "crc_ref a (crc_ref p init) = crc_ref b (crc_ref p init)"
    using crc_ref_inj_init by (simp add: crc_ref_append)
  then have "crc_ref p init XOR byte_word a = crc_ref p init XOR byte_word b"
    using assms crc_bits_inj by (simp add: crc_ref_word)
  then have "byte_word a = byte_word b" by (rule xor_left_cancelD)
  with assms(1,2) have "a = b" by (intro byte_word_inj)
  with assms(3) show False by contradiction
qed

lemma crc32_whole: "crc32 buf (int (length buf)) = Some (crc_ref buf 0xffffffff)"
  by (simp add: crc32_def xcrc32_ref)

subsection \<open>Properties\<close>

text \<open>C24: the table-driven loop of \<open>xcrc32\<close> computes the bit-serial remainder by the
  polynomial \<open>0x04c11db7\<close> of exactly the first \<open>len\<close> bytes, for every start value; a
  length that is negative or larger than the buffer leaves the buffer.\<close>

theorem xcrc32_bit_serial:
  "xcrc32 buf len init =
     (if 0 \<le> len \<and> len \<le> int (length buf)
      then Some (foldl (\<lambda>c b. (crc_bit ^^ 8) (c XOR push_bit 24 (ucast b))) init (take (nat len) buf))
      else None)"
  by (simp add: xcrc32_ref crc_ref_def)

text \<open>The checksum of data split across buffers is obtained by passing the value of each
  call as the \<open>init\<close> of the next, as the comment on \<open>xcrc32\<close> says.\<close>

theorem xcrc32_blocks:
  "xcrc32 (a @ b) (int (length a) + int (length b)) init =
     Option.bind (xcrc32 a (int (length a)) init) (xcrc32 b (int (length b)))"
  by (simp add: xcrc32_ref crc_ref_append)

end
