(* ===== verification/Control.thy ===== *)
theory Control
  imports NFS_Prelude
begin

text \<open>
  The control-flow macros of common/grammar/with.h, foreach.h and _class.h as statement
  combinators. A statement maps a state to the way it is left (\<open>flow\<close>) and the new
  state, so that the macros, which are built from \<open>switch\<close>, \<open>while\<close>, \<open>goto\<close> and
  \<open>break\<close>, are modelled with the meaning the compiler gives to their expansion: a
  \<open>break\<close> in the body of a block leaves that block, a \<open>break\<close> in its cleanup leaves the
  enclosing construct, and a \<open>return\<close> in the body skips the cleanup.
\<close>

subsection \<open>Statements\<close>

text \<open>How a statement is left: falling through, by \<open>break\<close>, \<open>continue\<close> or \<open>return\<close>,
  or not at all: a wild memory access, a lock that is never granted, or the process ends.\<close>

datatype stop = Segv | Blocked | Exit int

datatype 'r flow = Next | Brk | Cont | Ret 'r | Stop stop

type_synonym ('s, 'r) stmt = "'s \<Rightarrow> 'r flow \<times> 's"

definition skip :: "('s, 'r) stmt" where
  "skip s = (Next, s)"

definition brk :: "('s, 'r) stmt" where
  "brk s = (Brk, s)"

definition cont :: "('s, 'r) stmt" where
  "cont s = (Cont, s)"

definition ret :: "'r \<Rightarrow> ('s, 'r) stmt" where
  "ret v s = (Ret v, s)"

definition halt :: "stop \<Rightarrow> ('s, 'r) stmt" where
  "halt x s = (Stop x, s)"

fun block :: "('s, 'r) stmt list \<Rightarrow> ('s, 'r) stmt" where
  "block [] s = (Next, s)"
| "block (c # cs) s = (case c s of (f, s') \<Rightarrow> (if f = Next then block cs s' else (f, s')))"

definition ife :: "('s \<Rightarrow> bool) \<Rightarrow> ('s, 'r) stmt \<Rightarrow> ('s, 'r) stmt \<Rightarrow> ('s, 'r) stmt" where
  "ife b c d s = (if b s then c s else d s)"

definition whenc :: "('s \<Rightarrow> bool) \<Rightarrow> ('s, 'r) stmt \<Rightarrow> ('s, 'r) stmt" where
  "whenc b c = ife b c skip"

text \<open>A statement that depends on the values the variables have when it starts.\<close>

definition reads :: "('s \<Rightarrow> 'a) \<Rightarrow> ('a \<Rightarrow> ('s, 'r) stmt) \<Rightarrow> ('s, 'r) stmt" where
  "reads f k s = k (f s) s"

text \<open>
  The state of a function body is a pair of the function's own variables and the program's
  state. \<open>setl\<close> and \<open>setg\<close> assign to either; \<open>call\<close> runs another function, which
  cannot see the caller's variables, and hands on its value; \<open>fn\<close> makes a function from
  a body and the initial values of its variables.
\<close>

definition setl :: "('l \<Rightarrow> 'l) \<Rightarrow> ('l \<times> 'g, 'r) stmt" where
  "setl f s = (Next, (f (fst s), snd s))"

definition setg :: "('g \<Rightarrow> 'g) \<Rightarrow> ('l \<times> 'g, 'r) stmt" where
  "setg f s = (Next, (fst s, f (snd s)))"

fun after_call :: "('a \<Rightarrow> ('l \<times> 'g, 'r) stmt) \<Rightarrow> 'l \<Rightarrow> 'a flow \<times> 'g \<Rightarrow> 'r flow \<times> ('l \<times> 'g)" where
  "after_call k l (Ret v, g) = k v (l, g)"
| "after_call k l (Stop x, g) = (Stop x, (l, g))"
| "after_call k l (_, g) = (Stop Segv, (l, g))"

definition call :: "('g, 'a) stmt \<Rightarrow> ('a \<Rightarrow> ('l \<times> 'g, 'r) stmt) \<Rightarrow> ('l \<times> 'g, 'r) stmt" where
  "call f k s = after_call k (fst s) (f (snd s))"

definition exec :: "('g, 'a) stmt \<Rightarrow> ('l \<times> 'g, 'r) stmt" where
  "exec f = call f (\<lambda>_. skip)"

definition fn :: "'l \<Rightarrow> ('l \<times> 'g, 'r) stmt \<Rightarrow> ('g, 'r) stmt" where
  "fn l body g = (case body (l, g) of (f, s) \<Rightarrow> (f, snd s))"

subsection \<open>with.h\<close>

text \<open>\<open>switch (1) case 1:\<close> takes the \<open>break\<close>s of the statement after it.\<close>

definition do_once :: "('s, 'r) stmt \<Rightarrow> ('s, 'r) stmt" where
  "do_once c s = (case c s of (f, s') \<Rightarrow> (if f = Brk then (Next, s') else (f, s')))"

text \<open>
  \<open>reflow(init, condition, cleanup)\<close> before a body: the body runs in a \<open>do_once\<close> inside
  a \<open>while (1)\<close> whose next round jumps to the cleanup, so \<open>break\<close>, \<open>continue\<close> and
  falling through all reach the cleanup; the cleanup stands outside that loop, so its own
  \<open>break\<close> is the enclosing construct's.
\<close>

definition reflow :: "('s, 'r) stmt \<Rightarrow> ('s \<Rightarrow> bool) \<Rightarrow> ('s, 'r) stmt \<Rightarrow> ('s, 'r) stmt \<Rightarrow> ('s, 'r) stmt" where
  "reflow init cond cleanup body s =
     (case init s of (f, s1) \<Rightarrow>
        if f \<noteq> Next then (f, s1)
        else if cond s1 then
          (case do_once body s1 of (f2, s2) \<Rightarrow>
             if f2 = Next \<or> f2 = Cont then cleanup s2 else (f2, s2))
        else cleanup s1)"

definition do_after :: "('s, 'r) stmt \<Rightarrow> ('s, 'r) stmt \<Rightarrow> ('s, 'r) stmt" where
  "do_after e = reflow skip (\<lambda>_. True) e"

definition break_after :: "('s, 'r) stmt \<Rightarrow> ('s, 'r) stmt" where
  "break_after = do_after brk"

text \<open>\<open>for (decl;;) reflow(init, condition, cleanup; break)\<close>: the loop ends in its first
  round by the \<open>break\<close> after the cleanup, or by a \<open>break\<close> in \<open>init\<close>, which skips the
  cleanup.\<close>

definition with_test :: "('s, 'r) stmt \<Rightarrow> ('s \<Rightarrow> bool) \<Rightarrow> ('s, 'r) stmt \<Rightarrow> ('s, 'r) stmt \<Rightarrow> ('s, 'r) stmt" where
  "with_test init cond cleanup body s =
     (case reflow init cond (block [cleanup, brk]) body s of
        (f, s') \<Rightarrow> (if f = Brk then (Next, s') else (f, s')))"

subsection \<open>foreach.h\<close>

text \<open>A \<open>for\<close> loop over the elements of a linked list, in order.\<close>

fun foreach :: "('a \<Rightarrow> ('s, 'r) stmt) \<Rightarrow> 'a list \<Rightarrow> ('s, 'r) stmt" where
  "foreach body [] s = (Next, s)"
| "foreach body (x # xs) s =
     (case body x s of (f, s') \<Rightarrow>
        if f = Next \<or> f = Cont then foreach body xs s'
        else if f = Brk then (Next, s') else (f, s'))"

subsection \<open>Equations\<close>

lemma skip_simp [flow_simps]: "skip s = (Next, s)"
  by (simp add: skip_def)

lemma brk_simp [flow_simps]: "brk s = (Brk, s)"
  by (simp add: brk_def)

lemma cont_simp [flow_simps]: "cont s = (Cont, s)"
  by (simp add: cont_def)

lemma ret_simp [flow_simps]: "ret v s = (Ret v, s)"
  by (simp add: ret_def)

lemma halt_simp [flow_simps]: "halt x s = (Stop x, s)"
  by (simp add: halt_def)

lemma ife_simp [flow_simps]: "ife b c d s = (if b s then c s else d s)"
  by (simp add: ife_def)

lemma whenc_simp [flow_simps]: "whenc b c s = (if b s then c s else (Next, s))"
  by (simp add: whenc_def ife_def skip_def)

lemma reads_simp [flow_simps]: "reads f k s = k (f s) s"
  by (simp add: reads_def)

lemma exec_simp [flow_simps]: "exec f s = call f (\<lambda>_. skip) s"
  by (simp add: exec_def)

lemma setl_simp [flow_simps]: "setl f (l, g) = (Next, (f l, g))"
  by (simp add: setl_def)

lemma setg_simp [flow_simps]: "setg f (l, g) = (Next, (l, f g))"
  by (simp add: setg_def)

lemma call_simp [flow_simps]: "call f k (l, g) = after_call k l (f g)"
  by (simp add: call_def)

lemma do_once_simp [flow_simps]:
  "do_once c s = (case c s of (f, s') \<Rightarrow> (if f = Brk then (Next, s') else (f, s')))"
  by (simp add: do_once_def)

text \<open>After its body, a \<open>do_after\<close> runs the expression unless the body returned or
  stopped.\<close>

lemma do_after_simp [flow_simps]:
  "do_after e body s =
     (case body s of (f, s') \<Rightarrow>
        if f = Next \<or> f = Brk \<or> f = Cont then e s' else (f, s'))"
  by (auto simp: do_after_def reflow_def do_once_def skip_def split: prod.splits)

lemma with_test_simp [flow_simps]:
  "with_test init cond cleanup body s =
     (case init s of (f, s1) \<Rightarrow>
        if f = Brk then (Next, s1)
        else if f \<noteq> Next then (f, s1)
        else if cond s1 then
          (case body s1 of (f2, s2) \<Rightarrow>
             if f2 = Next \<or> f2 = Brk \<or> f2 = Cont
             then (case cleanup s2 of (f3, s3) \<Rightarrow> (if f3 = Brk \<or> f3 = Next then (Next, s3) else (f3, s3)))
             else (f2, s2))
        else (case cleanup s1 of (f3, s3) \<Rightarrow> (if f3 = Brk \<or> f3 = Next then (Next, s3) else (f3, s3))))"
  by (auto simp: with_test_def reflow_def do_once_def brk_def split: prod.splits)

lemma fn_simp [flow_simps]: "fn l body g = (case body (l, g) of (f, s) \<Rightarrow> (f, snd s))"
  by (simp add: fn_def)

lemma block_append:
  "block (cs @ ds) s = (case block cs s of (f, s') \<Rightarrow> (if f = Next then block ds s' else (f, s')))"
  by (induction cs arbitrary: s) (auto split: prod.splits)

subsection \<open>Statements that keep a predicate\<close>

definition keeps :: "('s \<Rightarrow> bool) \<Rightarrow> ('s, 'r) stmt \<Rightarrow> bool" where
  "keeps P c \<longleftrightarrow> (\<forall>s. P s \<longrightarrow> P (snd (c s)))"

lemma keepsI: "(\<And>s. P s \<Longrightarrow> P (snd (c s))) \<Longrightarrow> keeps P c"
  by (simp add: keeps_def)

lemma keepsD: "keeps P c \<Longrightarrow> P s \<Longrightarrow> c s = (f, s') \<Longrightarrow> P s'"
  by (metis keeps_def snd_conv)

lemma keeps_snd: "keeps P c \<Longrightarrow> P s \<Longrightarrow> P (snd (c s))"
  by (simp add: keeps_def)

lemma keeps_basic [keeps_intros]:
  "keeps P skip" "keeps P brk" "keeps P cont" "keeps P (ret v)" "keeps P (halt x)"
  by (simp_all add: keeps_def skip_def brk_def cont_def ret_def halt_def)

lemma keeps_block: "(\<And>c. c \<in> set cs \<Longrightarrow> keeps P c) \<Longrightarrow> keeps P (block cs)"
proof (induction cs)
  case (Cons c cs)
  then have c: "keeps P c" and cs: "keeps P (block cs)" by simp_all
  show ?case
    by (rule keepsI) (auto split: prod.split dest: keepsD [OF c] intro: keeps_snd [OF cs])
qed (simp add: keeps_def)

lemma keeps_block_Nil [keeps_intros]: "keeps P (block [])"
  by (simp add: keeps_def)

lemma keeps_block_Cons [keeps_intros]: "keeps P c \<Longrightarrow> keeps P (block cs) \<Longrightarrow> keeps P (block (c # cs))"
  by (rule keepsI) (auto split: prod.split dest: keepsD intro: keeps_snd)

lemma keeps_ife [keeps_intros]: "keeps P c \<Longrightarrow> keeps P d \<Longrightarrow> keeps P (ife b c d)"
  by (simp add: keeps_def ife_def)

lemma keeps_whenc [keeps_intros]: "keeps P c \<Longrightarrow> keeps P (whenc b c)"
  by (simp add: whenc_def keeps_intros)

lemma keeps_reads [keeps_intros]: "(\<And>a. keeps P (k a)) \<Longrightarrow> keeps P (reads f k)"
  by (simp add: keeps_def reads_def)

lemma keeps_do_once [keeps_intros]: "keeps P c \<Longrightarrow> keeps P (do_once c)"
  by (rule keepsI) (auto simp: do_once_def split: prod.split dest: keepsD)

lemma keeps_reflow [keeps_intros]:
  assumes "keeps P i" "keeps P e" "keeps P b"
  shows "keeps P (reflow i c e b)"
proof (rule keepsI)
  fix s assume p: "P s"
  obtain f s1 where i: "i s = (f, s1)" by fastforce
  with p assms(1) have p1: "P s1" by (auto dest: keepsD)
  obtain f2 s2 where b: "do_once b s1 = (f2, s2)" by fastforce
  with p1 keeps_do_once [OF assms(3)] have p2: "P s2" by (auto dest: keepsD)
  from i b p1 p2 keeps_snd [OF assms(2)] show "P (snd (reflow i c e b s))"
    by (simp add: reflow_def)
qed

lemma keeps_do_after [keeps_intros]: "keeps P e \<Longrightarrow> keeps P b \<Longrightarrow> keeps P (do_after e b)"
  by (simp add: do_after_def keeps_intros)

lemma keeps_with_test [keeps_intros]:
  assumes "keeps P i" "keeps P e" "keeps P b"
  shows "keeps P (with_test i c e b)"
proof -
  have "keeps P (reflow i c (block [e, brk]) b)" using assms by (intro keeps_intros)
  then show ?thesis
    by (intro keepsI) (auto simp: with_test_def split: prod.split dest: keepsD)
qed

lemma keeps_foreach [keeps_intros]:
  assumes "\<And>x. keeps P (body x)"
  shows "keeps P (foreach body xs)"
proof (induction xs)
  case (Cons x xs)
  with assms [of x] show ?case
    by (intro keepsI) (auto split: prod.split dest: keepsD intro: keeps_snd)
qed (simp add: keeps_def)

text \<open>A call keeps a predicate on the program's state when the function it runs does.\<close>

lemma keeps_call [keeps_intros]:
  assumes "keeps P f" "\<And>v. keeps (\<lambda>s. P (snd s)) (k v)"
  shows "keeps (\<lambda>s. P (snd s)) (call f k)"
proof (rule keepsI)
  fix s :: "'c \<times> 'a" assume "P (snd s)"
  obtain fl g where r: "f (snd s) = (fl, g)" by (cases "f (snd s)")
  with assms(1) \<open>P (snd s)\<close> have "P g" by (auto dest: keepsD)
  then have "P (snd (snd (after_call k (fst s) (fl, g))))"
    using assms(2) by (cases fl) (auto simp: keeps_def)
  with r show "P (snd (snd (call f k s)))" by (simp add: call_def)
qed

lemma keeps_fn: "keeps (\<lambda>s. P (snd s)) body \<Longrightarrow> keeps P (fn l body)"
  by (intro keepsI) (auto simp: fn_def split: prod.split dest: keepsD [where s = "(l, _)"])

lemma keeps_setl [keeps_intros]: "keeps (\<lambda>s. P (snd s)) (setl f)"
  by (simp add: keeps_def setl_def)

lemma keeps_setg: "(\<And>g. P g \<Longrightarrow> P (f g)) \<Longrightarrow> keeps (\<lambda>s. P (snd s)) (setg f)"
  by (simp add: keeps_def setg_def)

end
