(* ===== verification/VTables.thy ===== *)
theory VTables
  imports Crc32 Control
begin

text \<open>
  common/grammar/vtable.h and vtable.c: virtual tables carry a checksum of their bytes,
  xor-ed with a random word chosen once per process, and every use of a table verifies it;
  a table whose bytes were changed ends the process.
\<close>

subsection \<open>Definitions\<close>

text \<open>A table in memory: the word \<open>__vtable_checksum\<close> of \<open>struct VTable\<close> and the bytes
  behind it.\<close>

record VTable =
  vt_checksum :: u32
  vt_body :: "byte list"

text \<open>\<open>sizeof(struct VTable)\<close>.\<close>

abbreviation (input) vtable_header :: int where "vtable_header \<equiv> 4"

definition VTable_size :: "VTable \<Rightarrow> int" where
  "VTable_size v = vtable_header + int (length (vt_body v))"

definition VTable_checksum :: "u32 \<Rightarrow> VTable \<Rightarrow> int \<Rightarrow> u32 option" where
  "VTable_checksum rnd this sz =
     map_option (\<lambda>c. c XOR rnd) (crc32 (vt_body this) (sz - vtable_header))"

definition VTable_vaild :: "u32 \<Rightarrow> VTable option \<Rightarrow> int \<Rightarrow> ('g, bool) stmt" where
  "VTable_vaild rnd this sz =
     (case this of
        None \<Rightarrow> ret False
      | Some v \<Rightarrow> (case VTable_checksum rnd v sz of
          None \<Rightarrow> halt Segv
        | Some c \<Rightarrow> if vt_checksum v \<noteq> c then halt (Exit 255) else ret True))"

text \<open>\<open>VTable_rand_init\<close>: the successive results of \<open>rand()\<close> are drawn until one is not
  zero; \<open>None\<close> when all the results given are zero.\<close>

fun first_nonzero :: "u32 list \<Rightarrow> u32 option" where
  "first_nonzero [] = None"
| "first_nonzero (r # rs) = (if r = 0 then first_nonzero rs else Some r)"

definition VTable_rand_init :: "u32 list \<Rightarrow> u32 \<Rightarrow> u32 option" where
  "VTable_rand_init rands vtable_rand =
     (if vtable_rand = 0 then first_nonzero rands else Some vtable_rand)"

text \<open>\<open>VTable_init\<close>: the new value of \<open>VTable_rand\<close> and the table with its checksum.\<close>

definition VTable_init :: "u32 list \<Rightarrow> u32 \<Rightarrow> VTable \<Rightarrow> int \<Rightarrow> (u32 \<times> VTable) option" where
  "VTable_init rands vtable_rand this sz =
     Option.bind (VTable_rand_init rands vtable_rand) (\<lambda>rnd.
       map_option (\<lambda>c. (rnd, this\<lparr>vt_checksum := c\<rparr>)) (VTable_checksum rnd this sz))"

text \<open>\<open>virtual_method\<close>: the method of a table, none when the table or the method is missing.\<close>

definition virtual_method :: "u32 \<Rightarrow> VTable option \<Rightarrow> int \<Rightarrow> 'm option \<Rightarrow> ('g, 'm option) stmt" where
  "virtual_method rnd this sz method =
     (if this = None \<or> method = None then ret None
      else fn () (call (VTable_vaild rnd this sz) (\<lambda>ok. ret (if ok then method else None))))"

subsection \<open>What the tables need of the checksum\<close>

text \<open>A checksum that notices every change confined to four neighbouring bytes.\<close>

locale burst_checksum =
  fixes sum :: "byte list \<Rightarrow> u32"
  assumes sum_burst: "length a = length b \<Longrightarrow> length a \<le> 4 \<Longrightarrow> a \<noteq> b \<Longrightarrow>
    sum (p @ a @ s) \<noteq> sum (p @ b @ s)"
begin

lemma masked_burst:
  assumes "length a = length b" "length a \<le> 4" "a \<noteq> b"
  shows "sum (p @ a @ s) XOR r \<noteq> sum (p @ b @ s) XOR r"
  using sum_burst [OF assms, of p s] xor_right_cancelD [of "sum (p @ a @ s)" r "sum (p @ b @ s)"] by blast

end

interpretation vtable_crc: burst_checksum "\<lambda>bs. crc_ref bs 0xffffffff"
  by unfold_locales (rule crc_ref_burst)

subsection \<open>Properties\<close>

lemma VTable_checksum_whole:
  "VTable_checksum rnd v (VTable_size v) = Some (crc_ref (vt_body v) 0xffffffff XOR rnd)"
  by (simp add: VTable_checksum_def VTable_size_def crc32_whole)

text \<open>C36: a table that \<open>VTable_init\<close> has set up is accepted by \<open>VTable_vaild\<close> as long as its
  bytes are unchanged, so that a method of it can be called; a change confined to four neighbouring
  bytes of it (half a method pointer) ends the process with status 255 before any method is called,
  whatever the random word.\<close>

theorem VTable_guard:
  assumes "VTable_init rands r0 v (VTable_size v) = Some (rnd, v')"
    and "vt_body v = p @ a @ s" and "length b = length a" and "length a \<le> 4"
  shows "VTable_vaild rnd (Some (v'\<lparr>vt_body := p @ b @ s\<rparr>)) (VTable_size v) g = ((if b = a then Ret True else Stop (Exit 255)), g) \<and>
    virtual_method rnd (Some (v'\<lparr>vt_body := p @ b @ s\<rparr>)) (VTable_size v) (Some f) g =
      ((if b = a then Ret (Some f) else Stop (Exit 255)), g)"
proof -
  let ?w = "v'\<lparr>vt_body := p @ b @ s\<rparr>"
  have v': "vt_checksum v' = crc_ref (p @ a @ s) 0xffffffff XOR rnd" "vt_body v' = vt_body v"
    using assms(1,2) by (auto simp: VTable_init_def VTable_checksum_whole split: bind_splits)
  have "VTable_size v = VTable_size ?w" using assms(2,3) by (simp add: VTable_size_def)
  then have c: "VTable_checksum rnd ?w (VTable_size v) = Some (crc_ref (p @ b @ s) 0xffffffff XOR rnd)"
    by (simp only: VTable_checksum_whole) simp
  have "b \<noteq> a \<Longrightarrow> vt_checksum ?w \<noteq> crc_ref (p @ b @ s) 0xffffffff XOR rnd"
    using vtable_crc.masked_burst [of a b p s rnd] assms(3,4) v' by auto
  then show ?thesis using c v' by (auto simp: VTable_vaild_def virtual_method_def flow_simps)
qed

theorem VTable_guard_witness:
  "\<exists>rnd v'. VTable_init [0, 9] 0 \<lparr>vt_checksum = 0, vt_body = [1, 2, 3]\<rparr> 7 = Some (rnd, v') \<and>
     VTable_vaild rnd (Some (v'\<lparr>vt_body := [1, 7, 3]\<rparr>)) 7 () = (Stop (Exit 255), ())"
proof -
  let ?v = "\<lparr>vt_checksum = 0, vt_body = [1, 2, 3]\<rparr> :: VTable"
  have s: "VTable_size ?v = 7" by (simp add: VTable_size_def)
  obtain v' where i: "VTable_init [0, 9] 0 ?v (VTable_size ?v) = Some (9, v')"
    by (simp add: VTable_init_def VTable_rand_init_def VTable_checksum_whole)
  have "VTable_vaild 9 (Some (v'\<lparr>vt_body := [1] @ [7] @ [3]\<rparr>)) (VTable_size ?v) () =
      ((if [7 :: byte] = [2] then Ret True else Stop (Exit 255)), ())"
    using VTable_guard [OF i, where p = "[1]" and a = "[2]" and s = "[3]" and b = "[7]" and g = "()" and f = "()"] by simp
  with i s show ?thesis by auto
qed

end
