(* ===== verification/Curl_Types.thy ===== *)
theory Curl_Types
  imports Main
begin

text \<open>
  The enumerations of libcurl's interface that the sources use, with the values curl.h
  documents where the sources compute with them, and the enumerations of
  common/wrapper/curl.h. \<open>CURLcode\<close> is an integer; the codes the sources name are
  abbreviations.
\<close>

abbreviation (input) CURLE_OK :: int where "CURLE_OK \<equiv> 0"
abbreviation (input) CURLE_HTTP_RETURNED_ERROR :: int where "CURLE_HTTP_RETURNED_ERROR \<equiv> 22"
abbreviation (input) CURLE_OUT_OF_MEMORY :: int where "CURLE_OUT_OF_MEMORY \<equiv> 27"

abbreviation (input) CURLU_DEFAULT_SCHEME :: nat where "CURLU_DEFAULT_SCHEME \<equiv> 4"
abbreviation (input) CURLU_NON_SUPPORT_SCHEME :: nat where "CURLU_NON_SUPPORT_SCHEME \<equiv> 8"
abbreviation (input) CURLU_URLENCODE :: nat where "CURLU_URLENCODE \<equiv> 128"

datatype CURLaction =
  CURL_INIT | CURL_SETOPT | CURL_PERFORM | CURL_INFO | CURL_SLIST_APPEND | CURL_UNESCAPE

datatype CURLUaction = CURLU_INIT | CURLU_DUP | CURLU_SET | CURLU_GET

datatype CURLUcode =
  CURLUE_OK | CURLUE_BAD_HANDLE | CURLUE_BAD_PARTPOINTER | CURLUE_MALFORMED_INPUT
| CURLUE_BAD_PORT_NUMBER | CURLUE_UNSUPPORTED_SCHEME | CURLUE_URLDECODE
| CURLUE_OUT_OF_MEMORY | CURLUE_USER_NOT_ALLOWED | CURLUE_UNKNOWN_PART
| CURLUE_NO_SCHEME | CURLUE_NO_USER | CURLUE_NO_PASSWORD | CURLUE_NO_OPTIONS
| CURLUE_NO_HOST | CURLUE_NO_PORT | CURLUE_NO_QUERY | CURLUE_NO_FRAGMENT
| CURLUE_other nat

datatype CURLUPart =
  CURLUPART_URL | CURLUPART_SCHEME | CURLUPART_USER | CURLUPART_PASSWORD
| CURLUPART_OPTIONS | CURLUPART_HOST | CURLUPART_PORT | CURLUPART_PATH
| CURLUPART_QUERY | CURLUPART_FRAGMENT | CURLUPART_other nat

datatype CURLoption =
  CURLOPT_URL | CURLOPT_USERNAME | CURLOPT_PASSWORD | CURLOPT_INTERFACE
| CURLOPT_IPRESOLVE | CURLOPT_PROXY | CURLOPT_PROXYTYPE | CURLOPT_PROXYAUTH
| CURLOPT_HTTPPROXYTUNNEL | CURLOPT_PROXYUSERPWD | CURLOPT_USE_SSL | CURLOPT_SSLVERSION
| CURLOPT_SSL_VERIFYHOST | CURLOPT_SSL_VERIFYPEER | CURLOPT_CAINFO | CURLOPT_CAPATH
| CURLOPT_SSL_CIPHER_LIST | CURLOPT_SSLCERT | CURLOPT_SSLCERTTYPE | CURLOPT_SSLKEY
| CURLOPT_SSLKEYTYPE | CURLOPT_SSLKEYPASSWD | CURLOPT_TIMEOUT | CURLOPT_CONNECTTIMEOUT
| CURLOPT_USERAGENT | CURLOPT_FAILONERROR | CURLOPT_FOLLOWLOCATION | CURLOPT_NETRC
| CURLOPT_ERRORBUFFER | CURLOPT_CUSTOMREQUEST | CURLOPT_NOBODY | CURLOPT_HTTPHEADER
| CURLOPT_HEADERDATA | CURLOPT_HEADERFUNCTION | CURLOPT_RANGE | CURLOPT_WRITEDATA
| CURLOPT_WRITEFUNCTION | CURLOPT_UPLOAD | CURLOPT_READDATA | CURLOPT_READFUNCTION
| CURLOPT_INFILESIZE

end
