(* ===== verification/Exceptions.thy ===== *)
theory Exceptions
  imports Control Curl_Types
begin

text \<open>
  The exceptions of common/grammar/exception.h, exception.c and malloc.h and the macros
  of try.h. The thread's exception object \<open>ex\<close> is one block of storage that every
  exception class lays its own fields over; the record holds the fields of all classes of
  the program. The place of the throw (\<open>file\<close>, \<open>func\<close>, \<open>line\<close>, the backtrace) and
  the text printed on standard error are left out: no code path depends on them.
\<close>

subsection \<open>exception.h and exception.c\<close>

text \<open>A class is known by the address of its virtual table.\<close>

datatype vtable =
  UnspecifiedException_vt | MallocException_vt | NetworkFSException_vt
| CurlException_vt | CurlUrlException_vt

abbreviation (input) EXCEPTION_CATCHED :: nat where "EXCEPTION_CATCHED \<equiv> 2"

record exception =
  ex_set :: nat
  ex_vtable :: "vtable option"
  ex_what :: "string option"
  ex_code :: int
  ex_response_code :: int
  ex_action :: CURLaction
  ex_option :: CURLoption
  ex_ucode :: CURLUcode
  ex_uaction :: CURLUaction
  ex_part :: CURLUPart

definition ex_initial :: exception where
  "ex_initial = \<lparr>ex_set = 0, ex_vtable = None, ex_what = None, ex_code = 0, ex_response_code = 0,
     ex_action = CURL_INIT, ex_option = CURLOPT_URL, ex_ucode = CURLUE_OK,
     ex_uaction = CURLU_INIT, ex_part = CURLUPART_URL\<rparr>"

definition Exception_has :: "exception \<Rightarrow> bool" where
  "Exception_has e \<longleftrightarrow> ex_set e = 1"

definition issubtype :: "exception \<Rightarrow> vtable \<Rightarrow> bool" where
  "issubtype e t \<longleftrightarrow> ex_vtable e = Some t"

text \<open>The \<open>destory\<close> entry of the virtual tables: \<open>Exception_destory_dynamic\<close> for the
  classes that own their message, empty for the others.\<close>

definition Exception_destory_dynamic :: "exception \<Rightarrow> exception" where
  "Exception_destory_dynamic e = e\<lparr>ex_what := None\<rparr>"

fun vtable_destory :: "vtable option \<Rightarrow> (exception \<Rightarrow> exception) option" where
  "vtable_destory (Some UnspecifiedException_vt) = Some Exception_destory_dynamic"
| "vtable_destory (Some NetworkFSException_vt) = Some Exception_destory_dynamic"
| "vtable_destory _ = None"

definition Exception_destory :: "exception \<Rightarrow> exception" where
  "Exception_destory e =
     (case vtable_destory (ex_vtable e) of None \<Rightarrow> e | Some d \<Rightarrow> d e)\<lparr>ex_set := 0, ex_vtable := None\<rparr>"

definition Exception_dirtydestory :: "exception \<Rightarrow> exception" where
  "Exception_dirtydestory e = Exception_destory e"

definition Exception_init :: "exception \<Rightarrow> exception" where
  "Exception_init e = (if ex_set e \<noteq> 0 then Exception_dirtydestory e else e)\<lparr>ex_set := 1\<rparr>"

definition Exception_init_what :: "exception \<Rightarrow> string \<Rightarrow> exception" where
  "Exception_init_what e what = (Exception_init e)\<lparr>ex_what := Some what\<rparr>"

definition UnspecifiedException_init :: "exception \<Rightarrow> string \<Rightarrow> exception" where
  "UnspecifiedException_init e what =
     (Exception_init_what e what)\<lparr>ex_vtable := Some UnspecifiedException_vt\<rparr>"

definition Exception_copy :: "exception \<Rightarrow> exception \<Rightarrow> exception" where
  "Exception_copy dst src = (if ex_set src \<noteq> 0 then src else dst\<lparr>ex_set := 0\<rparr>)"

text \<open>malloc.h and networkfs.h.\<close>

definition MallocException_init :: "exception \<Rightarrow> string option \<Rightarrow> exception" where
  "MallocException_init e what =
     (Exception_init e)\<lparr>ex_what := what, ex_vtable := Some MallocException_vt\<rparr>"

definition NetworkFSException_init :: "exception \<Rightarrow> string \<Rightarrow> exception" where
  "NetworkFSException_init e what =
     (Exception_init_what e what)\<lparr>ex_vtable := Some NetworkFSException_vt\<rparr>"

subsection \<open>try.h\<close>

text \<open>The program's state holds the thread's exception; \<open>TEST_SUCCESS\<close> is 1 when an
  exception is set.\<close>

record exw =
  ex :: exception

definition has_ex :: "'l \<times> 'a exw_scheme \<Rightarrow> bool" where
  "has_ex s \<longleftrightarrow> Exception_has (ex (snd s))"

definition TEST_SUCCESS :: "'a exw_scheme \<Rightarrow> int" where
  "TEST_SUCCESS g = of_bool (Exception_has (ex g))"

definition set_ex :: "(exception \<Rightarrow> exception) \<Rightarrow> ('l \<times> 'a exw_scheme, 'r) stmt" where
  "set_ex f = setg (\<lambda>g. g\<lparr>ex := f (ex g)\<rparr>)"

definition check :: "('l \<times> 'a exw_scheme, 'r) stmt" where
  "check = whenc has_ex brk"

definition throwable :: "('l \<times> 'a exw_scheme, 'r) stmt \<Rightarrow> ('l \<times> 'a exw_scheme, 'r) stmt" where
  "throwable = do_after check"

text \<open>\<open>throw\<close> evaluates what follows it, marks the exception as set and breaks.\<close>

definition throw :: "('l \<times> 'a exw_scheme, 'r) stmt \<Rightarrow> ('l \<times> 'a exw_scheme, 'r) stmt" where
  "throw = reflow skip (\<lambda>_. True) (block [set_ex (\<lambda>e. e\<lparr>ex_set := 1\<rparr>), brk])"

definition condition_throw ::
  "('l \<times> 'a exw_scheme \<Rightarrow> bool) \<Rightarrow> ('l \<times> 'a exw_scheme, 'r) stmt \<Rightarrow> ('l \<times> 'a exw_scheme, 'r) stmt" where
  "condition_throw test c = ife test skip (throw c)"

definition with_seperated ::
  "('l \<times> 'a exw_scheme, 'r) stmt \<Rightarrow> ('l \<times> 'a exw_scheme, 'r) stmt \<Rightarrow>
   ('l \<times> 'a exw_scheme, 'r) stmt \<Rightarrow> ('l \<times> 'a exw_scheme, 'r) stmt" where
  "with_seperated init cleanup = with_test init (\<lambda>s. \<not> has_ex s) cleanup"

text \<open>A handler is the condition it stands under in the \<open>else if\<close> chain after the body of
  a \<open>try\<close> and its statement.\<close>

type_synonym ('l, 'a, 'r) handler =
  "('l \<times> 'a exw_scheme \<Rightarrow> bool) \<times> ('l \<times> 'a exw_scheme, 'r) stmt"

definition destroy_unless_set :: "('l \<times> 'a exw_scheme, 'r) stmt" where
  "destroy_unless_set = whenc (\<lambda>s. ex_set (ex (snd s)) \<noteq> 1) (set_ex Exception_destory)"

definition catch_type :: "vtable \<Rightarrow> ('l \<times> 'a exw_scheme, 'r) stmt \<Rightarrow> ('l, 'a, 'r) handler" where
  "catch_type t h =
     (\<lambda>s. issubtype (ex (snd s)) t,
      with_test (set_ex (\<lambda>e. e\<lparr>ex_set := EXCEPTION_CATCHED\<rparr>)) (\<lambda>_. True) destroy_unless_set h)"

definition catch_default :: "('l \<times> 'a exw_scheme, 'r) stmt \<Rightarrow> ('l, 'a, 'r) handler" where
  "catch_default h =
     (\<lambda>_. True,
      with_test (set_ex (\<lambda>e. e\<lparr>ex_set := EXCEPTION_CATCHED\<rparr>)) (\<lambda>_. True) destroy_unless_set h)"

definition onerror :: "('l \<times> 'a exw_scheme, 'r) stmt \<Rightarrow> ('l, 'a, 'r) handler" where
  "onerror h = (\<lambda>_. True, with_test skip (\<lambda>_. True) skip h)"

fun handlers :: "('l, 'a, 'r) handler list \<Rightarrow> ('l \<times> 'a exw_scheme, 'r) stmt" where
  "handlers [] s = (Next, s)"
| "handlers (h # hs) s = (if fst h s then snd h s else handlers hs s)"

text \<open>\<open>try\<close>: after the body, however it ends short of a \<open>return\<close>, the chain of handlers
  is entered only when an exception is set.\<close>

definition try_catch ::
  "('l \<times> 'a exw_scheme, 'r) stmt \<Rightarrow> ('l, 'a, 'r) handler list \<Rightarrow> ('l \<times> 'a exw_scheme, 'r) stmt" where
  "try_catch body hs s =
     (case do_once body s of (f, s') \<Rightarrow>
        if f = Next \<or> f = Cont then (if has_ex s' then handlers hs s' else (Next, s')) else (f, s'))"

subsection \<open>Equations of the exception operations\<close>

lemma has_ex_simp [flow_simps]: "has_ex (l, g) = Exception_has (ex g)"
  by (simp add: has_ex_def)

lemma set_ex_simp [flow_simps]: "set_ex f (l, g) = (Next, (l, g\<lparr>ex := f (ex g)\<rparr>))"
  by (simp add: set_ex_def setg_def)

lemma check_simp [flow_simps]: "check s = (if has_ex s then (Brk, s) else (Next, s))"
  by (simp add: check_def flow_simps)

lemma throwable_simp [flow_simps]:
  "throwable body s =
     (case body s of (f, s') \<Rightarrow>
        if f = Next \<or> f = Brk \<or> f = Cont then (if has_ex s' then (Brk, s') else (Next, s'))
        else (f, s'))"
  by (simp add: throwable_def flow_simps split: prod.split)

lemma throw_simp [flow_simps]:
  "throw c s =
     (case c s of (f, s') \<Rightarrow>
        if f = Next \<or> f = Brk \<or> f = Cont
        then (Brk, (fst s', (snd s')\<lparr>ex := (ex (snd s'))\<lparr>ex_set := 1\<rparr>\<rparr>)) else (f, s'))"
  by (auto simp: throw_def reflow_def do_once_def set_ex_def setg_def skip_def brk_def split: prod.split)

lemma condition_throw_simp [flow_simps]:
  "condition_throw test c s = (if test s then (Next, s) else throw c s)"
  by (simp add: condition_throw_def flow_simps)

lemmas with_seperated_simp [flow_simps] = with_test_simp [where cond = "\<lambda>s. \<not> has_ex s", folded with_seperated_def]

lemma try_catch_simp [flow_simps]:
  "try_catch body hs s =
     (case body s of (f, s') \<Rightarrow>
        if f = Next \<or> f = Brk \<or> f = Cont then (if has_ex s' then handlers hs s' else (Next, s'))
        else (f, s'))"
  by (auto simp: try_catch_def do_once_def split: prod.split)

lemma destroy_unless_set_simp [flow_simps]:
  "destroy_unless_set (l, g) =
     (if ex_set (ex g) \<noteq> 1 then (Next, (l, g\<lparr>ex := Exception_destory (ex g)\<rparr>)) else (Next, (l, g)))"
  by (simp add: destroy_unless_set_def flow_simps)

lemma ex_set_destory [simp]: "ex_set (Exception_destory e) = 0"
  by (simp add: Exception_destory_def)

lemma ex_vtable_destory [simp]: "ex_vtable (Exception_destory e) = None"
  by (simp add: Exception_destory_def)

lemma has_destory [simp]: "\<not> Exception_has (Exception_destory e)"
  by (simp add: Exception_has_def)

lemma Exception_has_initial [simp]: "\<not> Exception_has ex_initial"
  by (simp add: Exception_has_def ex_initial_def)

lemma ex_set_init [ex_simps]: "ex_set (Exception_init e) = 1"
  by (simp add: Exception_init_def)

lemma has_init [simp]:
  "Exception_has (UnspecifiedException_init e w)"
  "Exception_has (MallocException_init e v)"
  "Exception_has (NetworkFSException_init e w)"
  by (simp_all add: Exception_has_def UnspecifiedException_init_def Exception_init_what_def
      MallocException_init_def NetworkFSException_init_def ex_set_init)

lemma vtable_init [simp]:
  "ex_vtable (UnspecifiedException_init e w) = Some UnspecifiedException_vt"
  "ex_vtable (MallocException_init e v) = Some MallocException_vt"
  "ex_vtable (NetworkFSException_init e w) = Some NetworkFSException_vt"
  by (simp_all add: UnspecifiedException_init_def MallocException_init_def NetworkFSException_init_def)

lemma has_set_1 [simp]: "Exception_has (e\<lparr>ex_set := 1\<rparr>)"
  by (simp add: Exception_has_def)

lemma keeps_throwable [keeps_intros]: "keeps P c \<Longrightarrow> keeps P (throwable c)"
  by (simp add: throwable_def check_def keeps_intros)

subsection \<open>The catch-or-rethrow idiom\<close>

text \<open>
  \<open>try { body } catch (T, e) { if (!handled(e)) throw; } onerror (e) { }\<close>: the shape the
  program uses wherever an expected server answer is not an error.
\<close>

definition try_ignoring ::
  "vtable \<Rightarrow> (exception \<Rightarrow> bool) \<Rightarrow> ('l \<times> 'a exw_scheme, 'r) stmt \<Rightarrow> ('l \<times> 'a exw_scheme, 'r) stmt" where
  "try_ignoring t handled body =
     try_catch body
       [catch_type t (whenc (\<lambda>s. \<not> handled (ex (snd s))) (throw skip)), onerror skip]"

text \<open>After the idiom, no exception is set when none was raised or when the raised one has
  class \<open>t\<close> and is one of the handled ones; every other exception survives unchanged,
  set, for the caller, and nothing but the exception object is touched by the handlers.
  (\<open>handled\<close> looks at the fields of the exception, not at its state.)\<close>

theorem try_ignoring_spec:
  assumes h: "\<And>e n. handled (e\<lparr>ex_set := n\<rparr>) = handled e"
    and b: "body (l, g) = (f, (l', g'))" and f: "f = Next \<or> f = Brk"
  shows "try_ignoring t handled body (l, g) =
    (Next, (l', if Exception_has (ex g') \<and> issubtype (ex g') t \<and> handled (ex g')
                then g'\<lparr>ex := Exception_destory ((ex g')\<lparr>ex_set := EXCEPTION_CATCHED\<rparr>)\<rparr> else g'))"
proof -
  have e: "Exception_has (ex g') \<Longrightarrow> g'\<lparr>ex := (ex g')\<lparr>ex_set := Suc 0\<rparr>\<rparr> = g'"
    by (simp add: Exception_has_def)
  from f b show ?thesis
    by (cases "Exception_has (ex g')"; cases "issubtype (ex g') t"; cases "handled (ex g')")
      (auto simp: try_ignoring_def catch_type_def onerror_def flow_simps h e Exception_has_def)
qed

theorem try_ignoring_spec_witness:
  "try_ignoring CurlException_vt (\<lambda>e. ex_response_code e = 404)
     (set_ex (\<lambda>e. e\<lparr>ex_set := 1, ex_vtable := Some CurlException_vt, ex_response_code := 404\<rparr>))
     ((), \<lparr>ex = ex_initial\<rparr>) =
   (Next, ((), \<lparr>ex = ex_initial\<lparr>ex_response_code := 404\<rparr>\<rparr>))"
proof -
  let ?e = "ex_initial\<lparr>ex_set := 1, ex_vtable := Some CurlException_vt, ex_response_code := 404\<rparr>"
  have "try_ignoring CurlException_vt (\<lambda>e. ex_response_code e = 404)
     (set_ex (\<lambda>e. e\<lparr>ex_set := 1, ex_vtable := Some CurlException_vt, ex_response_code := 404\<rparr>))
     ((), \<lparr>ex = ex_initial\<rparr>) =
     (Next, ((), if Exception_has (ex \<lparr>ex = ?e\<rparr>) \<and> issubtype (ex \<lparr>ex = ?e\<rparr>) CurlException_vt
                   \<and> ex_response_code (ex \<lparr>ex = ?e\<rparr>) = 404
                 then \<lparr>ex = ?e\<rparr>\<lparr>ex := Exception_destory ((ex \<lparr>ex = ?e\<rparr>)\<lparr>ex_set := EXCEPTION_CATCHED\<rparr>)\<rparr>
                 else \<lparr>ex = ?e\<rparr>))"
    by (rule try_ignoring_spec [where f = Next]) (simp_all add: flow_simps)
  then show ?thesis
    by (simp add: Exception_has_def issubtype_def Exception_destory_def ex_initial_def)
qed

end
