(* ===== verification/Stacks.thy ===== *)
theory Stacks
  imports Control
begin

text \<open>
  common/template/stack.h and stack.c with the locking macros of
  common/grammar/synchronized.h: the intrusive stack of list nodes, guarded by a spin lock,
  on a heap of nodes. First the two operations as one thread runs them and their refinement
  to lists; then the same operations statement by statement, for any number of threads.
\<close>

subsection \<open>Data\<close>

type_synonym addr = nat

record 'v LinkedList =
  nd_next :: "addr option"
  nd_value :: 'v

record Stack =
  st_next :: "addr option"
  st_size :: u64
  st_lock :: bool

text \<open>The heap of nodes and the stack.\<close>

record 'v stackw =
  nodes :: "addr \<rightharpoonup> 'v LinkedList"
  stack :: Stack

definition Stack_init :: "Stack" where
  "Stack_init = \<lparr>st_next = None, st_size = 0, st_lock = False\<rparr>"

subsection \<open>synchronized.h\<close>

text \<open>\<open>while (pthread_spin_lock(lock));\<close>: a lock that is taken is, for this thread alone,
  never granted.\<close>

definition spin_lock :: "('v, 'a) stackw_scheme \<Rightarrow> bool" where
  "spin_lock g \<longleftrightarrow> st_lock (stack g)"

definition set_lock :: "bool \<Rightarrow> ('l \<times> ('v, 'a) stackw_scheme, 'r) stmt" where
  "set_lock b = setg (\<lambda>g. g\<lparr>stack := (stack g)\<lparr>st_lock := b\<rparr>\<rparr>)"

definition synchronized_spin ::
  "('l \<times> ('v, 'a) stackw_scheme, 'r) stmt \<Rightarrow> ('l \<times> ('v, 'a) stackw_scheme, 'r) stmt" where
  "synchronized_spin body =
     with_test (ife (\<lambda>(l, g). spin_lock g) (halt Blocked) (set_lock True)) (\<lambda>_. True) (set_lock False) body"

text \<open>
  \<open>ensure_synchronized(type, lock, action) body else alt\<close>: \<open>alt\<close> runs after each attempt to
  take the lock and may leave by \<open>break\<close>; the body runs once the lock is taken; the lock is
  given back when it was taken. An attempt that fails without \<open>break\<close> is repeated: with no
  other thread running that never ends.
\<close>

definition ensure_synchronized_spin ::
  "('l \<times> ('v, 'a) stackw_scheme, 'r) stmt \<Rightarrow> ('l \<times> ('v, 'a) stackw_scheme, 'r) stmt \<Rightarrow>
   ('l \<times> ('v, 'a) stackw_scheme, 'r) stmt" where
  "ensure_synchronized_spin body alt s =
     (let held = spin_lock (snd s) in
      case (if held then alt s else block [set_lock True, alt] s) of (f, s1) \<Rightarrow>
        if f = Brk then (if held then (Next, s1) else set_lock False s1)
        else if f = Next \<or> f = Cont then
          (if held then (Stop Blocked, s1)
           else do_after (set_lock False) body s1)
        else (f, s1))"

subsection \<open>stack.c\<close>

definition Stack_push :: "addr \<Rightarrow> (('v, 'a) stackw_scheme, unit) stmt" where
  "Stack_push node =
     fn () (block [
       synchronized_spin (reads snd (\<lambda>g. case nodes g node of
           None \<Rightarrow> halt Segv
         | Some n \<Rightarrow> setg (\<lambda>g. g\<lparr>nodes := (nodes g)(node \<mapsto> n\<lparr>nd_next := st_next (stack g)\<rparr>),
             stack := (stack g)\<lparr>st_next := Some node, st_size := st_size (stack g) + 1\<rparr>\<rparr>))),
       ret ()])"

definition Stack_pop :: "(('v, 'a) stackw_scheme, addr option) stmt" where
  "Stack_pop =
     fn None (block [
       ensure_synchronized_spin
         (reads snd (\<lambda>g. case st_next (stack g) of
            None \<Rightarrow> halt Segv
          | Some res \<Rightarrow> (case nodes g res of
              None \<Rightarrow> halt Segv
            | Some n \<Rightarrow> block [
                setl (\<lambda>_. Some res),
                setg (\<lambda>g. g\<lparr>stack := (stack g)\<lparr>st_next := nd_next n, st_size := st_size (stack g) - 1\<rparr>,
                  nodes := (nodes g)(res \<mapsto> n\<lparr>nd_next := None\<rparr>)\<rparr>)])))
         (whenc (\<lambda>(l, g). st_next (stack g) = None) (block [setl (\<lambda>_. None), brk])),
       reads fst ret])"

subsection \<open>Refinement to lists\<close>

primrec chain :: "(addr \<Rightarrow> addr option) \<Rightarrow> addr option \<Rightarrow> addr list \<Rightarrow> bool" where
  "chain h p [] \<longleftrightarrow> p = None"
| "chain h p (a # as) \<longleftrightarrow> p = Some a \<and> chain h (h a) as"

lemma chain_upd: "a \<notin> set as \<Longrightarrow> chain (h(a := q)) p as = chain h p as"
  by (induction as arbitrary: p) auto

lemma chain_None: "chain h None as \<longleftrightarrow> as = []"
  by (cases as) auto

lemma chain_Some: "chain h (Some a) as \<longleftrightarrow> (\<exists>bs. as = a # bs \<and> chain h (h a) bs)"
  by (cases as) auto

lemma chain_cong: "chain h p as \<Longrightarrow> (\<And>a. a \<in> set as \<Longrightarrow> h a = k a) \<Longrightarrow> chain k p as"
  by (induction as arbitrary: p) auto

definition next_of :: "(addr \<rightharpoonup> 'v LinkedList) \<Rightarrow> addr \<Rightarrow> addr option" where
  "next_of m a = (case m a of None \<Rightarrow> None | Some n \<Rightarrow> nd_next n)"

text \<open>\<open>Stack_abs g as\<close>: the stack holds the nodes \<open>as\<close>, top first, and its size field counts
  them.\<close>

definition Stack_abs :: "('v, 'a) stackw_scheme \<Rightarrow> addr list \<Rightarrow> bool" where
  "Stack_abs g as \<longleftrightarrow> chain (next_of (nodes g)) (st_next (stack g)) as \<and> distinct as \<and>
     set as \<subseteq> dom (nodes g) \<and> st_size (stack g) = of_nat (length as) \<and> \<not> st_lock (stack g)"

lemma next_of_upd: "next_of (m(a \<mapsto> n)) = (next_of m)(a := nd_next n)"
  by (auto simp: next_of_def)

text \<open>The contract of a stack that clients rely on: what \<open>push\<close> and \<open>pop\<close> do to the list of
  nodes, and that neither blocks nor faults.\<close>

locale lifo =
  fixes push :: "addr \<Rightarrow> ('g, unit) stmt"
    and pop :: "('g, addr option) stmt"
    and abs :: "'g \<Rightarrow> addr list \<Rightarrow> bool"
    and val :: "'g \<Rightarrow> addr \<Rightarrow> 'v option"
  assumes push_abs: "abs g as \<Longrightarrow> val g a = Some v \<Longrightarrow> a \<notin> set as \<Longrightarrow>
      \<exists>g'. push a g = (Ret (), g') \<and> abs g' (a # as) \<and> val g' = val g"
    and pop_nil: "abs g [] \<Longrightarrow> pop g = (Ret None, g)"
    and pop_cons: "abs g (a # as) \<Longrightarrow> \<exists>g'. pop g = (Ret (Some a), g') \<and> abs g' as \<and> val g' = val g"
begin

text \<open>What was pushed last comes back first, with its value.\<close>

lemma pop_push:
  assumes "abs g as" "val g a = Some v" "a \<notin> set as"
  shows "\<exists>g1 g2. push a g = (Ret (), g1) \<and> pop g1 = (Ret (Some a), g2) \<and> abs g2 as \<and> val g2 a = Some v"
proof -
  obtain g1 where 1: "push a g = (Ret (), g1)" "abs g1 (a # as)" "val g1 = val g"
    using push_abs [OF assms] by blast
  obtain g2 where "pop g1 = (Ret (Some a), g2)" "abs g2 as" "val g2 = val g1"
    using pop_cons [OF 1(2)] by blast
  with 1 assms(2) show ?thesis by auto
qed

end

definition node_val :: "('v, 'a) stackw_scheme \<Rightarrow> addr \<Rightarrow> 'v option" where
  "node_val g a = map_option nd_value (nodes g a)"

lemma node_val_upd: "nodes g a = Some n \<Longrightarrow>
    node_val (nodes_update (\<lambda>_. (nodes g)(a \<mapsto> n\<lparr>nd_next := p\<rparr>)) g) = node_val g"
  by (auto simp: node_val_def)

interpretation handle_stack: lifo
  "Stack_push :: addr \<Rightarrow> (('v, 'a) stackw_scheme, unit) stmt" Stack_pop Stack_abs node_val
proof
  fix g :: "('v, 'a) stackw_scheme" and as a v
  assume abs: "Stack_abs g as" and v: "node_val g a = Some v" and a: "a \<notin> set as"
  then obtain n where n: "nodes g a = Some n" by (auto simp: node_val_def)
  let ?g = "g\<lparr>nodes := (nodes g)(a \<mapsto> n\<lparr>nd_next := st_next (stack g)\<rparr>),
    stack := (stack g)\<lparr>st_next := Some a, st_size := st_size (stack g) + 1\<rparr>\<rparr>"
  have "Stack_push a g = (Ret (), ?g)"
    using abs n by (simp add: Stack_push_def flow_simps synchronized_spin_def spin_lock_def
        set_lock_def Stack_abs_def)
  moreover have "Stack_abs ?g (a # as)"
    using abs a n by (auto simp: Stack_abs_def next_of_upd chain_upd)
  moreover have "node_val ?g = node_val g" using n by (auto simp: node_val_def)
  ultimately show "\<exists>g'. Stack_push a g = (Ret (), g') \<and> Stack_abs g' (a # as) \<and> node_val g' = node_val g"
    by blast
next
  fix g :: "('v, 'a) stackw_scheme"
  assume "Stack_abs g []"
  then show "Stack_pop g = (Ret None, g)"
    by (simp add: Stack_pop_def flow_simps ensure_synchronized_spin_def spin_lock_def set_lock_def
        Stack_abs_def)
next
  fix g :: "('v, 'a) stackw_scheme" and a as
  assume abs: "Stack_abs g (a # as)"
  then obtain n where n: "nodes g a = Some n" by (auto simp: Stack_abs_def)
  let ?g = "g\<lparr>stack := (stack g)\<lparr>st_next := nd_next n, st_size := st_size (stack g) - 1\<rparr>,
    nodes := (nodes g)(a \<mapsto> n\<lparr>nd_next := None\<rparr>)\<rparr>"
  have "Stack_pop g = (Ret (Some a), ?g)"
    using abs n by (simp add: Stack_pop_def flow_simps ensure_synchronized_spin_def spin_lock_def
        set_lock_def Stack_abs_def)
  moreover have "Stack_abs ?g as"
    using abs n by (auto simp: Stack_abs_def next_of_upd chain_upd next_of_def)
  moreover have "node_val ?g = node_val g" using n by (auto simp: node_val_def)
  ultimately show "\<exists>g'. Stack_pop g = (Ret (Some a), g') \<and> Stack_abs g' as \<and> node_val g' = node_val g"
    by blast
qed

subsection \<open>Threads\<close>

text \<open>
  The same code statement by statement. A thread either has no handle (\<open>Idle\<close>), has one for
  its own use (\<open>Has a\<close>), or is inside \<open>Stack_push\<close> or \<open>Stack_pop\<close>: \<open>Push0\<close> and
  \<open>Pop0\<close> wait for the lock, \<open>PopF\<close> is the \<open>else\<close> part after a failed attempt,
  \<open>Pop1\<close> the same part after a successful one, the others stand before the statements of the
  critical sections.
\<close>

datatype pc =
  Idle | Has addr
| Push0 addr | Push1 addr | Push2 addr | Push3 | Push4
| Pop0 | PopF | Pop1 | Pop2 | Pop3 addr | Pop4 addr | Pop5 addr | PopU "addr option"

record sys =
  hp :: "addr \<Rightarrow> addr option"
  top :: "addr option"
  cnt :: u64
  holder :: "nat option"
  used :: "addr set"
  pcs :: "nat \<Rightarrow> pc"

definition at_pc :: "sys \<Rightarrow> nat \<Rightarrow> pc \<Rightarrow> sys" where
  "at_pc s i p = s\<lparr>pcs := (pcs s)(i := p)\<rparr>"

inductive stack_step :: "sys \<Rightarrow> sys \<Rightarrow> bool" where
  new_handle: "pcs s i = Idle \<Longrightarrow> a \<notin> used s \<Longrightarrow>
     stack_step s (at_pc (s\<lparr>used := insert a (used s)\<rparr>) i (Has a))"
| free_handle: "pcs s i = Has a \<Longrightarrow> stack_step s (at_pc s i Idle)"
| push_call: "pcs s i = Has a \<Longrightarrow> stack_step s (at_pc s i (Push0 a))"
| push_lock: "pcs s i = Push0 a \<Longrightarrow> holder s = None \<Longrightarrow>
     stack_step s (at_pc (s\<lparr>holder := Some i\<rparr>) i (Push1 a))"
| push_next: "pcs s i = Push1 a \<Longrightarrow>
     stack_step s (at_pc (s\<lparr>hp := (hp s)(a := top s)\<rparr>) i (Push2 a))"
| push_top: "pcs s i = Push2 a \<Longrightarrow> stack_step s (at_pc (s\<lparr>top := Some a\<rparr>) i Push3)"
| push_size: "pcs s i = Push3 \<Longrightarrow> stack_step s (at_pc (s\<lparr>cnt := cnt s + 1\<rparr>) i Push4)"
| push_unlock: "pcs s i = Push4 \<Longrightarrow> stack_step s (at_pc (s\<lparr>holder := None\<rparr>) i Idle)"
| pop_call: "pcs s i = Idle \<Longrightarrow> stack_step s (at_pc s i Pop0)"
| pop_trylock: "pcs s i = Pop0 \<Longrightarrow> holder s = None \<Longrightarrow>
     stack_step s (at_pc (s\<lparr>holder := Some i\<rparr>) i Pop1)"
| pop_busy: "pcs s i = Pop0 \<Longrightarrow> holder s \<noteq> None \<Longrightarrow> stack_step s (at_pc s i PopF)"
| pop_busy_empty: "pcs s i = PopF \<Longrightarrow> top s = None \<Longrightarrow> stack_step s (at_pc s i Idle)"
| pop_busy_retry: "pcs s i = PopF \<Longrightarrow> top s \<noteq> None \<Longrightarrow> stack_step s (at_pc s i Pop0)"
| pop_empty: "pcs s i = Pop1 \<Longrightarrow> top s = None \<Longrightarrow> stack_step s (at_pc s i (PopU None))"
| pop_enter: "pcs s i = Pop1 \<Longrightarrow> top s \<noteq> None \<Longrightarrow> stack_step s (at_pc s i Pop2)"
| pop_res: "pcs s i = Pop2 \<Longrightarrow> top s = Some a \<Longrightarrow> stack_step s (at_pc s i (Pop3 a))"
| pop_next: "pcs s i = Pop3 a \<Longrightarrow> stack_step s (at_pc (s\<lparr>top := hp s a\<rparr>) i (Pop4 a))"
| pop_clear: "pcs s i = Pop4 a \<Longrightarrow>
     stack_step s (at_pc (s\<lparr>hp := (hp s)(a := None)\<rparr>) i (Pop5 a))"
| pop_size: "pcs s i = Pop5 a \<Longrightarrow>
     stack_step s (at_pc (s\<lparr>cnt := cnt s - 1\<rparr>) i (PopU (Some a)))"
| pop_unlock: "pcs s i = PopU r \<Longrightarrow>
     stack_step s (at_pc (s\<lparr>holder := None\<rparr>) i (case r of None \<Rightarrow> Idle | Some a \<Rightarrow> Has a))"

definition sys_init :: sys where
  "sys_init = \<lparr>hp = (\<lambda>_. None), top = None, cnt = 0, holder = None, used = {}, pcs = (\<lambda>_. Idle)\<rparr>"

inductive stack_reach :: "sys \<Rightarrow> bool" where
  init: "stack_reach sys_init"
| step: "stack_reach s \<Longrightarrow> stack_step s t \<Longrightarrow> stack_reach t"

text \<open>The handles a thread has to itself, and whether it is inside a critical section.\<close>

fun own :: "pc \<Rightarrow> addr set" where
  "own (Has a) = {a}"
| "own (Push0 a) = {a}"
| "own (Push1 a) = {a}"
| "own (Push2 a) = {a}"
| "own (Pop4 a) = {a}"
| "own (Pop5 a) = {a}"
| "own (PopU (Some a)) = {a}"
| "own _ = {}"

fun holding :: "pc \<Rightarrow> bool" where
  "holding Idle = False"
| "holding (Has a) = False"
| "holding (Push0 a) = False"
| "holding Pop0 = False"
| "holding PopF = False"
| "holding _ = True"

text \<open>Difference between the number of linked nodes and the size field while the lock is
  held.\<close>

fun pending :: "pc \<Rightarrow> u64" where
  "pending Push3 = 1"
| "pending (Pop4 a) = - 1"
| "pending (Pop5 a) = - 1"
| "pending _ = 0"

definition owners_ok :: "sys \<Rightarrow> addr list \<Rightarrow> bool" where
  "owners_ok s xs \<longleftrightarrow> distinct xs \<and> set xs \<subseteq> used s \<and>
     (\<forall>i. own (pcs s i) \<subseteq> used s - set xs) \<and>
     (\<forall>i j. i \<noteq> j \<longrightarrow> own (pcs s i) \<inter> own (pcs s j) = {})"

definition lock_ok :: "sys \<Rightarrow> bool" where
  "lock_ok s \<longleftrightarrow> (\<forall>i. holding (pcs s i) \<longleftrightarrow> holder s = Some i)"

definition links_ok :: "sys \<Rightarrow> addr list \<Rightarrow> bool" where
  "links_ok s xs \<longleftrightarrow> chain (hp s) (top s) xs \<and>
     (\<forall>i a. pcs s i = Push2 a \<longrightarrow> hp s a = top s) \<and>
     (\<forall>i a. pcs s i = Pop3 a \<longrightarrow> top s = Some a) \<and>
     (\<forall>i. pcs s i = Pop2 \<longrightarrow> top s \<noteq> None)"

definition count_ok :: "sys \<Rightarrow> addr list \<Rightarrow> bool" where
  "count_ok s xs \<longleftrightarrow>
     of_nat (length xs) = cnt s + (case holder s of None \<Rightarrow> 0 | Some i \<Rightarrow> pending (pcs s i))"

definition sys_inv :: "sys \<Rightarrow> addr list \<Rightarrow> bool" where
  "sys_inv s xs \<longleftrightarrow> owners_ok s xs \<and> lock_ok s \<and> links_ok s xs \<and> count_ok s xs"

lemma at_pc_simps [simp]:
  "hp (at_pc s i p) = hp s" "top (at_pc s i p) = top s" "cnt (at_pc s i p) = cnt s"
  "holder (at_pc s i p) = holder s" "used (at_pc s i p) = used s"
  "pcs (at_pc s i p) = (pcs s)(i := p)"
  by (simp_all add: at_pc_def)

lemma lock_okD: "lock_ok s \<Longrightarrow> holding (pcs s j) = (holder s = Some j)"
  by (simp add: lock_ok_def)

lemma only_holder: "lock_ok s \<Longrightarrow> holding (pcs s i) \<Longrightarrow> j \<noteq> i \<Longrightarrow> \<not> holding (pcs s j)"
  by (auto simp: lock_ok_def)

lemma holder_is: "lock_ok s \<Longrightarrow> holding (pcs s i) \<Longrightarrow> holder s = Some i"
  by (simp add: lock_ok_def)

text \<open>How each part of the invariant follows from what a step changes.\<close>

lemma lock_ok_upd:
  assumes "lock_ok s" "pcs t = (pcs s)(i := p)"
    and "holder t = holder s \<and> holding p = holding (pcs s i) \<or>
         holder s = None \<and> holder t = Some i \<and> holding p \<or>
         holding (pcs s i) \<and> holder t = None \<and> \<not> holding p"
  shows "lock_ok t"
  unfolding lock_ok_def
proof
  fix j show "holding (pcs t j) = (holder t = Some j)"
    using assms(2,3) lock_okD [OF assms(1), of j] lock_okD [OF assms(1), of i]
    by (cases "j = i") auto
qed

lemma owners_ok_upd:
  assumes "owners_ok s xs" "pcs t = (pcs s)(i := p)" "used s \<subseteq> used t"
    and "distinct ys" "set ys \<subseteq> used t"
    and "own p \<union> set ys \<subseteq> own (pcs s i) \<union> set xs \<union> (used t - used s)" "own p \<inter> set ys = {}"
    and "own p \<subseteq> used t"
  shows "owners_ok t ys"
proof -
  have *: "own (pcs s j) \<inter> (own p \<union> set ys) = {}" "own (pcs s j) \<subseteq> used t" if "j \<noteq> i" for j
  proof -
    have "own (pcs s j) \<inter> own (pcs s i) = {}" "own (pcs s j) \<subseteq> used s - set xs"
      using assms(1) that by (auto simp: owners_ok_def)
    with assms(3,6) show "own (pcs s j) \<inter> (own p \<union> set ys) = {}" "own (pcs s j) \<subseteq> used t" by auto
  qed
  have "own (pcs t j) \<subseteq> used t - set ys" for j
    using * [of j] assms(2,7,8) by (cases "j = i") auto
  moreover have "own (pcs t j) \<inter> own (pcs t k) = {}" if "j \<noteq> k" for j k
  proof (cases "j = i \<or> k = i")
    case True
    with * [of j] * [of k] assms(2) that show ?thesis by auto
  next
    case False
    with assms(1,2) that show ?thesis by (auto simp: owners_ok_def)
  qed
  ultimately show ?thesis using assms(4,5) by (simp add: owners_ok_def)
qed

definition pc_links :: "sys \<Rightarrow> pc \<Rightarrow> bool" where
  "pc_links s p \<longleftrightarrow> (\<forall>a. p = Push2 a \<longrightarrow> hp s a = top s) \<and> (\<forall>a. p = Pop3 a \<longrightarrow> top s = Some a) \<and>
     (p = Pop2 \<longrightarrow> top s \<noteq> None)"

lemma links_alt: "links_ok s xs \<longleftrightarrow> chain (hp s) (top s) xs \<and> (\<forall>i. pc_links s (pcs s i))"
  by (auto simp: links_ok_def pc_links_def)

lemma links_ok_upd:
  assumes "links_ok s xs" "lock_ok s" "pcs t = (pcs s)(i := p)"
    and "hp t = hp s \<and> top t = top s \<or> holding (pcs s i)"
    and "chain (hp t) (top t) ys" "pc_links t p"
  shows "links_ok t ys"
  unfolding links_alt
proof (intro conjI allI)
  fix j show "pc_links t (pcs t j)"
  proof (cases "j = i")
    case True
    with assms show ?thesis by simp
  next
    case False
    show ?thesis
    proof (cases "holding (pcs s i)")
      case True
      with False assms(2) have "\<not> holding (pcs s j)" by (auto dest: only_holder)
      with False assms(3) show ?thesis by (auto simp: pc_links_def)
    next
      case nh: False
      with assms False show ?thesis by (auto simp: links_alt pc_links_def)
    qed
  qed
qed (use assms in simp)

lemma pending_not_holding: "\<not> holding p \<Longrightarrow> pending p = 0"
  by (cases p) auto

definition pend :: "sys \<Rightarrow> u64" where
  "pend s = (case holder s of None \<Rightarrow> 0 | Some i \<Rightarrow> pending (pcs s i))"

lemma pend_upd:
  assumes "lock_ok s" "lock_ok t" "pcs t = (pcs s)(i := p)"
    "holder t = holder s \<or> holder t = None \<and> holding (pcs s i) \<or> holder t = Some i \<and> holder s = None"
  shows "pend t = pend s - pending (pcs s i) + pending p"
proof -
  have t: "holding p \<longleftrightarrow> holder t = Some i" using lock_okD [OF assms(2), of i] assms(3) by simp
  have s: "holding (pcs s i) \<longleftrightarrow> holder s = Some i" using assms(1) by (rule lock_okD)
  show ?thesis using assms(3,4) t s pending_not_holding [of p] pending_not_holding [of "pcs s i"]
    by (auto simp: pend_def split: option.splits)
qed

lemma count_alt: "count_ok s xs \<longleftrightarrow> of_nat (length xs) = cnt s + pend s"
  by (simp add: count_ok_def pend_def)

lemma sys_inv_upd:
  assumes inv: "sys_inv s xs" and t: "pcs t = (pcs s)(i := p)"
    and lk: "holder t = holder s \<and> holding p = holding (pcs s i) \<or>
         holder s = None \<and> holder t = Some i \<and> holding p \<or>
         holding (pcs s i) \<and> holder t = None \<and> \<not> holding p"
    and ow: "used s \<subseteq> used t" "distinct ys" "set ys \<subseteq> used t" 
      "own p \<union> set ys \<subseteq> own (pcs s i) \<union> set xs \<union> (used t - used s)" "own p \<inter> set ys = {}"
      "own p \<subseteq> used t"
    and li: "hp t = hp s \<and> top t = top s \<or> holding (pcs s i)"
      "chain (hp t) (top t) ys" "pc_links t p"
    and co: "of_nat (length ys) = cnt t + (of_nat (length xs) - cnt s - pending (pcs s i) + pending p)"
  shows "sys_inv t ys"
proof -
  from inv have i: "owners_ok s xs" "lock_ok s" "links_ok s xs" "count_ok s xs" by (simp_all add: sys_inv_def)
  have l: "lock_ok t" using i(2) t lk by (rule lock_ok_upd)
  have "owners_ok t ys" using i(1) t ow by (rule owners_ok_upd)
  moreover have "links_ok t ys" using i(3,2) t li by (rule links_ok_upd)
  moreover have "pend t = pend s - pending (pcs s i) + pending p"
    using i(2) l t lk by (intro pend_upd) auto
  then have "count_ok t ys" using i(4) co by (simp add: count_alt)
  ultimately show ?thesis using l by (simp add: sys_inv_def)
qed

lemma sys_invD:
  "sys_inv s xs \<Longrightarrow> distinct xs \<and> set xs \<subseteq> used s \<and> own (pcs s i) \<subseteq> used s \<and> own (pcs s i) \<inter> set xs = {} \<and>
    chain (hp s) (top s) xs \<and> pc_links s (pcs s i)"
  by (auto simp: sys_inv_def owners_ok_def links_alt)

lemma sys_inv_same_list:
  assumes "sys_inv s xs" "pcs t = (pcs s)(i := p)"
    "holder t = holder s \<and> holding p = holding (pcs s i) \<or>
         holder s = None \<and> holder t = Some i \<and> holding p \<or>
         holding (pcs s i) \<and> holder t = None \<and> \<not> holding p"
    "used t = used s" "own p \<subseteq> own (pcs s i)" "hp t = hp s" "top t = top s" "pc_links t p"
    "cnt s + pending (pcs s i) = cnt t + pending p"
  shows "sys_inv t xs"
proof (rule sys_inv_upd [OF assms(1-3)])
  show "of_nat (length xs) = cnt t + (of_nat (length xs) - cnt s - pending (pcs s i) + pending p)"
    using assms(9) by (simp add: algebra_simps)
qed (use assms sys_invD [OF assms(1), of i] in auto)

lemma sys_inv_at:
  assumes "sys_inv s xs" "pcs s' = pcs s"
    "holder s' = holder s \<and> holding p = holding (pcs s i) \<or>
         holder s = None \<and> holder s' = Some i \<and> holding p \<or>
         holding (pcs s i) \<and> holder s' = None \<and> \<not> holding p"
    "used s' = used s" "own p \<subseteq> own (pcs s i)" "hp s' = hp s" "top s' = top s"
    "pc_links s (pcs s i) \<longrightarrow> pc_links s p"
    "cnt s + pending (pcs s i) = cnt s' + pending p"
  shows "\<exists>ys. sys_inv (at_pc s' i p) ys"
proof -
  have "pc_links (at_pc s' i p) p"
    using sys_invD [OF assms(1), of i] assms(6-8) by (simp add: pc_links_def)
  with assms have "sys_inv (at_pc s' i p) xs" by (intro sys_inv_same_list [OF assms(1)]) simp_all
  then show ?thesis ..
qed

lemma stack_step_inv: "stack_step s t \<Longrightarrow> sys_inv s xs \<Longrightarrow> \<exists>ys. sys_inv t ys"
proof (induction rule: stack_step.induct)
  case (new_handle s i a)
  show ?case
    by (rule exI [of _ "xs"], rule sys_inv_upd [OF new_handle(3), where i = i])
      (use new_handle(1,2) sys_invD [OF new_handle(3), of i] in \<open>auto simp: pc_links_def\<close>)
next
  case (push_next s i a)
  show ?case
    by (rule exI [of _ "xs"], rule sys_inv_upd [OF push_next(2), where i = i])
      (use push_next(1) sys_invD [OF push_next(2), of i] in \<open>auto simp: pc_links_def chain_upd\<close>)
next
  case (push_top s i a)
  show ?case
    by (rule exI [of _ "a # xs"], rule sys_inv_upd [OF push_top(2), where i = i])
      (use push_top(1) sys_invD [OF push_top(2), of i] in \<open>auto simp: pc_links_def\<close>)
next
  case (pop_next s i a)
  have "top s = Some a" using sys_invD [OF pop_next(2), of i] pop_next(1) by (simp add: pc_links_def)
  then obtain ys where xs: "xs = a # ys" using sys_invD [OF pop_next(2), of i] by (auto simp: chain_Some)
  show ?case
    by (rule exI [of _ ys], rule sys_inv_upd [OF pop_next(2), where i = i])
      (use pop_next(1) sys_invD [OF pop_next(2), of i] xs in \<open>auto simp: pc_links_def\<close>)
next
  case (pop_clear s i a)
  show ?case
    by (rule exI [of _ "xs"], rule sys_inv_upd [OF pop_clear(2), where i = i])
      (use pop_clear(1) sys_invD [OF pop_clear(2), of i] in \<open>auto simp: pc_links_def chain_upd\<close>)
next
  case (pop_unlock s i r)
  show ?case
    by (rule exI [of _ xs], rule sys_inv_upd [OF pop_unlock(2), where i = i])
      (use pop_unlock(1) sys_invD [OF pop_unlock(2), of i] in \<open>auto simp: pc_links_def split: option.splits\<close>)
qed (erule sys_inv_at; simp add: pc_links_def)+
lemma sys_inv_init: "sys_inv sys_init []"
  by (simp add: sys_inv_def sys_init_def owners_ok_def lock_ok_def links_ok_def count_ok_def)

lemma stack_reach_inv: "stack_reach s \<Longrightarrow> \<exists>xs. sys_inv s xs"
proof (induction rule: stack_reach.induct)
  case init
  show ?case using sys_inv_init ..
next
  case (step s t)
  then show ?case by (blast intro: stack_step_inv)
qed

subsection \<open>Properties\<close>


definition two_threads :: sys where
  "two_threads = \<lparr>hp = (\<lambda>_. None), top = None, cnt = 0, holder = None, used = {5, 7},
     pcs = (\<lambda>_. Idle)(0 := Has 5, 1 := Has 7)\<rparr>"

lemma two_threads_reach: "stack_reach two_threads"
proof -
  let ?s = "at_pc (sys_init\<lparr>used := insert 5 (used sys_init)\<rparr>) 0 (Has 5)"
  have 1: "stack_reach ?s"
    by (rule stack_reach.step [OF stack_reach.init], rule new_handle) (simp_all add: sys_init_def)
  have "stack_reach (at_pc (?s\<lparr>used := insert 7 (used ?s)\<rparr>) 1 (Has 7))"
    by (rule stack_reach.step [OF 1], rule new_handle) (simp_all add: sys_init_def)
  also have "at_pc (?s\<lparr>used := insert 7 (used ?s)\<rparr>) 1 (Has 7) = two_threads"
    by (simp add: two_threads_def at_pc_def sys_init_def insert_commute)
  finally show ?thesis .
qed



definition one_pops :: sys where
  "one_pops = at_pc (at_pc (sys_init\<lparr>holder := Some 3\<rparr>) 3 Pop1) 3 Pop1"

lemma one_pops_reach: "stack_reach one_pops"
proof -
  have 1: "stack_reach (at_pc sys_init 3 Pop0)"
    by (rule stack_reach.step [OF stack_reach.init], rule pop_call) (simp add: sys_init_def)
  have "stack_reach (at_pc ((at_pc sys_init 3 Pop0)\<lparr>holder := Some 3\<rparr>) 3 Pop1)"
    by (rule stack_reach.step [OF 1], rule pop_trylock) (simp_all add: sys_init_def)
  also have "at_pc ((at_pc sys_init 3 Pop0)\<lparr>holder := Some 3\<rparr>) 3 Pop1 = one_pops"
    by (simp add: one_pops_def at_pc_def sys_init_def)
  finally show ?thesis .
qed




end
