(* ===== verification/Expansion.thy ===== *)
theory Expansion
  imports Exceptions Stacks
begin

text \<open>
  What the preprocessor makes of the control macros of common/grammar (with.h, try.h,
  synchronized.h, _class.h): statements of C with \<open>goto\<close> into and out of loops. The statements are laid
  out as code of a machine with jumps, and the combinators of \<open>Control\<close>, \<open>Exceptions\<close> and \<open>Stacks\<close>
  turn out to be what the expansions compute, wherever they stand in a function.
\<close>

subsection \<open>Statements with labels\<close>

text \<open>A label carries the value of \<open>__COUNTER__\<close> that is pasted to its name. \<open>XDo\<close> stands for any
  statement whose meaning is known; \<open>XLoop\<close> is \<open>while (1)\<close> or \<open>for (;;)\<close>, \<open>XSwitch\<close> is
  \<open>switch (1) case 1:\<close>.\<close>

type_synonym label = "string \<times> nat"

datatype ('s, 'r) xst =
  XDo "('s, 'r) stmt"
| XSeq "('s, 'r) xst" "('s, 'r) xst"
| XIf "'s \<Rightarrow> bool" "('s, 'r) xst" "('s, 'r) xst"
| XLoop "('s, 'r) xst"
| XSwitch "('s, 'r) xst"
| XGoto label
| XLabel label "('s, 'r) xst"

fun labels :: "('s, 'r) xst \<Rightarrow> label list" where
  "labels (XSeq c d) = labels c @ labels d"
| "labels (XIf b c d) = labels c @ labels d"
| "labels (XLoop c) = labels c"
| "labels (XSwitch c) = labels c"
| "labels (XLabel l c) = l # labels c"
| "labels _ = []"

subsection \<open>The machine\<close>

text \<open>An instruction runs a statement and goes on at one of three addresses, branches, or jumps.\<close>

datatype ('s, 'r) instr = IDo "('s, 'r) stmt" nat nat nat | IBranch "'s \<Rightarrow> bool" nat nat | IJump nat

datatype ('s, 'r) cfg = Run nat 's | Halt "'r flow" 's

fun exit_to :: "nat \<Rightarrow> nat \<Rightarrow> nat \<Rightarrow> 'r flow \<times> 's \<Rightarrow> ('s, 'r) cfg" where
  "exit_to nx bk ct (Next, s) = Run nx s"
| "exit_to nx bk ct (Brk, s) = Run bk s"
| "exit_to nx bk ct (Cont, s) = Run ct s"
| "exit_to nx bk ct (f, s) = Halt f s"

type_synonym ('s, 'r) code = "nat \<rightharpoonup> ('s, 'r) instr"

inductive mstep :: "('s, 'r) code \<Rightarrow> ('s, 'r) cfg \<Rightarrow> ('s, 'r) cfg \<Rightarrow> bool" for P where
  do_stmt: "mstep P (Run p s) (exit_to nx bk ct (f s))" if "P p = Some (IDo f nx bk ct)"
| branch: "mstep P (Run p s) (Run (if b s then q else r) s)" if "P p = Some (IBranch b q r)"
| jump: "mstep P (Run p s) (Run q s)" if "P p = Some (IJump q)"

abbreviation msteps :: "('s, 'r) code \<Rightarrow> ('s, 'r) cfg \<Rightarrow> ('s, 'r) cfg \<Rightarrow> bool" where
  "msteps P \<equiv> (mstep P)\<^sup>*\<^sup>*"

inductive_cases mstepE: "mstep P (Run p s) c"

lemma mstep_deterministic: "mstep P c d \<Longrightarrow> mstep P c e \<Longrightarrow> d = e"
  by (induction rule: mstep.induct) (auto elim!: mstepE)

subsection \<open>Layout\<close>

text \<open>\<open>laid P lab c p nx bk ct\<close>: the code \<open>P\<close> has the statement \<open>c\<close> at address \<open>p\<close>; it goes on at \<open>nx\<close>, a
  \<open>break\<close> goes to \<open>bk\<close> and a \<open>continue\<close> to \<open>ct\<close>; \<open>lab\<close> has the addresses of the labels of the function.\<close>

primrec laid :: "('s, 'r) code \<Rightarrow> (label \<Rightarrow> nat) \<Rightarrow> ('s, 'r) xst \<Rightarrow> nat \<Rightarrow> nat \<Rightarrow> nat \<Rightarrow> nat \<Rightarrow> bool" where
  "laid P lab (XDo f) p nx bk ct \<longleftrightarrow> P p = Some (IDo f nx bk ct)"
| "laid P lab (XSeq c d) p nx bk ct \<longleftrightarrow> (\<exists>q. laid P lab c p q bk ct \<and> laid P lab d q nx bk ct)"
| "laid P lab (XIf b c d) p nx bk ct \<longleftrightarrow>
     (\<exists>q r. P p = Some (IBranch b q r) \<and> laid P lab c q nx bk ct \<and> laid P lab d r nx bk ct)"
| "laid P lab (XLoop c) p nx bk ct \<longleftrightarrow> (\<exists>q. P p = Some (IJump q) \<and> laid P lab c q p nx p)"
| "laid P lab (XSwitch c) p nx bk ct \<longleftrightarrow> laid P lab c p nx nx ct"
| "laid P lab (XGoto l) p nx bk ct \<longleftrightarrow> P p = Some (IJump (lab l))"
| "laid P lab (XLabel l c) p nx bk ct \<longleftrightarrow> lab l = p \<and> laid P lab c p nx bk ct"

text \<open>A compiler: code for a statement from address \<open>p\<close> on, with the next free address.\<close>

fun csize :: "('s, 'r) xst \<Rightarrow> nat" where
  "csize (XSeq c d) = csize c + csize d"
| "csize (XIf b c d) = Suc (csize c + csize d)"
| "csize (XLoop c) = Suc (csize c)"
| "csize (XSwitch c) = csize c"
| "csize (XLabel l c) = csize c"
| "csize _ = 1"

fun comp_lab :: "('s, 'r) xst \<Rightarrow> nat \<Rightarrow> (label \<times> nat) list" where
  "comp_lab (XSeq c d) p = comp_lab c p @ comp_lab d (p + csize c)"
| "comp_lab (XIf b c d) p = comp_lab c (Suc p) @ comp_lab d (Suc p + csize c)"
| "comp_lab (XLoop c) p = comp_lab c (Suc p)"
| "comp_lab (XSwitch c) p = comp_lab c p"
| "comp_lab (XLabel l c) p = (l, p) # comp_lab c p"
| "comp_lab _ p = []"

fun comp :: "(label \<Rightarrow> nat) \<Rightarrow> ('s, 'r) xst \<Rightarrow> nat \<Rightarrow> nat \<Rightarrow> nat \<Rightarrow> nat \<Rightarrow> ('s, 'r) instr list" where
  "comp lab (XDo f) p nx bk ct = [IDo f nx bk ct]"
| "comp lab (XSeq c d) p nx bk ct = comp lab c p (p + csize c) bk ct @ comp lab d (p + csize c) nx bk ct"
| "comp lab (XIf b c d) p nx bk ct =
     IBranch b (Suc p) (Suc p + csize c) # comp lab c (Suc p) nx bk ct @ comp lab d (Suc p + csize c) nx bk ct"
| "comp lab (XLoop c) p nx bk ct = IJump (Suc p) # comp lab c (Suc p) p nx p"
| "comp lab (XSwitch c) p nx bk ct = comp lab c p nx nx ct"
| "comp lab (XGoto l) p nx bk ct = [IJump (lab l)]"
| "comp lab (XLabel l c) p nx bk ct = comp lab c p nx bk ct"

lemma length_comp: "length (comp lab c p nx bk ct) = csize c"
  by (induction lab c p nx bk ct rule: comp.induct) simp_all

lemma comp_lab_fst: "map fst (comp_lab c p) = labels c"
  by (induction c p rule: comp_lab.induct) simp_all

definition holds :: "('s, 'r) code \<Rightarrow> ('s, 'r) instr list \<Rightarrow> nat \<Rightarrow> bool" where
  "holds P is p \<longleftrightarrow> (\<forall>i < length is. P (p + i) = Some (is ! i))"

lemma holds_Cons: "holds P (i # is) p \<longleftrightarrow> P p = Some i \<and> holds P is (Suc p)"
  by (simp add: holds_def All_less_Suc2)

lemma holds_append: "holds P (is @ js) p \<longleftrightarrow> holds P is p \<and> holds P js (p + length is)"
proof (induction "is" arbitrary: p)
  case Nil
  show ?case by (simp add: holds_def)
next
  case (Cons i "is")
  then show ?case by (simp add: holds_Cons)
qed

lemma comp_laid:
  "holds P (comp lab c p nx bk ct) p \<Longrightarrow> (\<And>l q. (l, q) \<in> set (comp_lab c p) \<Longrightarrow> lab l = q) \<Longrightarrow> laid P lab c p nx bk ct"
  by (induction lab c p nx bk ct rule: comp.induct) (auto simp: holds_Cons holds_append length_comp)

text \<open>Every statement whose labels are distinct can be laid out, and its own addresses do not matter.\<close>

lemma laid_exists:
  assumes "distinct (labels c)"
  shows "\<exists>P lab. laid P lab c p nx bk ct"
proof -
  let ?lab = "\<lambda>l. the (map_of (comp_lab c p) l)"
  let ?is = "comp ?lab c p nx bk ct"
  have "holds (\<lambda>a. if p \<le> a \<and> a < p + length ?is then Some (?is ! (a - p)) else None) ?is p" by (simp add: holds_def)
  moreover have "?lab l = q" if "(l, q) \<in> set (comp_lab c p)" for l q
    using that assms by (simp add: comp_lab_fst)
  ultimately show ?thesis by (blast intro: comp_laid)
qed

subsection \<open>Meaning\<close>

text \<open>\<open>means c m\<close>: wherever the code of \<open>c\<close> stands, running it computes \<open>m\<close>.\<close>

definition means :: "('s, 'r) xst \<Rightarrow> ('s, 'r) stmt \<Rightarrow> bool" where
  "means c m \<longleftrightarrow> (\<forall>P lab p nx bk ct s. laid P lab c p nx bk ct \<longrightarrow> msteps P (Run p s) (exit_to nx bk ct (m s)))"

lemma meansI: "(\<And>P lab p nx bk ct s. laid P lab c p nx bk ct \<Longrightarrow> msteps P (Run p s) (exit_to nx bk ct (m s))) \<Longrightarrow> means c m"
  unfolding means_def by blast

lemma meansD: "means c m \<Longrightarrow> laid P lab c p nx bk ct \<Longrightarrow> msteps P (Run p s) (exit_to nx bk ct (m s))"
  unfolding means_def by blast

lemma goes_do: "P p = Some (IDo f nx bk ct) \<Longrightarrow> msteps P (exit_to nx bk ct (f s)) c \<Longrightarrow> msteps P (Run p s) c"
  by (rule converse_rtranclp_into_rtranclp [of "mstep P"]) (rule mstep.do_stmt)

lemma goes_branch: "P p = Some (IBranch b q r) \<Longrightarrow> msteps P (Run (if b s then q else r) s) c \<Longrightarrow> msteps P (Run p s) c"
  by (rule converse_rtranclp_into_rtranclp [of "mstep P"]) (rule mstep.branch)

lemma goes_jump: "P p = Some (IJump q) \<Longrightarrow> msteps P (Run q s) c \<Longrightarrow> msteps P (Run p s) c"
  by (rule converse_rtranclp_into_rtranclp [of "mstep P"]) (rule mstep.jump)

lemma goes_skip: "P p = Some (IDo skip nx bk ct) \<Longrightarrow> msteps P (Run nx s) c \<Longrightarrow> msteps P (Run p s) c"
  by (erule goes_do) (simp add: skip_def)

text \<open>Running a part whose meaning is known, and what follows it.\<close>

lemma goes_part:
  assumes "means c m" "laid P lab c p nx bk ct" "m s = (f, s')"
    and "f = Next \<Longrightarrow> msteps P (Run nx s') d" "f = Brk \<Longrightarrow> msteps P (Run bk s') d" "f = Cont \<Longrightarrow> msteps P (Run ct s') d"
    and "f \<noteq> Next \<Longrightarrow> f \<noteq> Brk \<Longrightarrow> f \<noteq> Cont \<Longrightarrow> d = Halt f s'"
  shows "msteps P (Run p s) d"
proof -
  have "msteps P (exit_to nx bk ct (f, s')) d" using assms(4-7) by (cases f) simp_all
  with meansD [OF assms(1,2), of s] assms(3) show ?thesis by simp
qed

lemma exit_to_halt: "f \<noteq> Next \<Longrightarrow> f \<noteq> Brk \<Longrightarrow> f \<noteq> Cont \<Longrightarrow> exit_to nx bk ct (f, s) = Halt f s"
  by (cases f) simp_all

lemma means_do: "means (XDo f) f"
  by (rule meansI) (auto intro: goes_do)

lemma means_seq:
  assumes "means c m" "means d n"
  shows "means (XSeq c d) (block [m, n])"
proof (rule meansI)
  fix P lab p nx bk ct and s :: 'a
  assume "laid P lab (XSeq c d) p nx bk ct"
  then obtain q where q: "laid P lab c p q bk ct" "laid P lab d q nx bk ct" by auto
  obtain f s' where m: "m s = (f, s')" by fastforce
  obtain f2 s2 where n: "n s' = (f2, s2)" by fastforce
  show "msteps P (Run p s) (exit_to nx bk ct (block [m, n] s))"
    by (rule goes_part [OF assms(1) q(1) m]) (use meansD [OF assms(2) q(2), of s'] m n exit_to_halt in auto)
qed

lemma means_if:
  assumes "means c m" "means d n"
  shows "means (XIf b c d) (ife b m n)"
proof (rule meansI)
  fix P lab p nx bk ct and s :: 'a
  assume "laid P lab (XIf b c d) p nx bk ct"
  then obtain q r where q: "P p = Some (IBranch b q r)" "laid P lab c q nx bk ct" "laid P lab d r nx bk ct" by auto
  show "msteps P (Run p s) (exit_to nx bk ct (ife b m n s))"
    by (rule goes_branch [of P, OF q(1)]) (simp add: ife_def meansD [OF assms(1) q(2)] meansD [OF assms(2) q(3)])
qed

lemma means_switch:
  assumes "means c m"
  shows "means (XSwitch c) (do_once m)"
proof (rule meansI)
  fix P lab p nx bk ct and s :: 'a
  assume "laid P lab (XSwitch c) p nx bk ct"
  then have l: "laid P lab c p nx nx ct" by simp
  obtain f s' where m: "m s = (f, s')" by fastforce
  show "msteps P (Run p s) (exit_to nx bk ct (do_once m s))"
    by (rule goes_part [OF assms l m]) (use m exit_to_halt in \<open>auto simp: do_once_def\<close>)
qed

subsection \<open>with.h\<close>

definition reflow_x ::
  "nat \<Rightarrow> ('s, 'r) xst \<Rightarrow> ('s \<Rightarrow> bool) \<Rightarrow> ('s, 'r) xst \<Rightarrow> ('s, 'r) xst \<Rightarrow> ('s, 'r) xst" where
  "reflow_x counter init condition cleanup body =
     XIf (\<lambda>_. True)
       (XSeq init
         (XSeq (XIf condition (XGoto (''__reflow_start_'', counter)) (XDo skip))
           (XLabel (''__reflow_end_'', counter) cleanup)))
       (XLoop (XIf (\<lambda>_. True) (XGoto (''__reflow_end_'', counter))
         (XLabel (''__reflow_start_'', counter) (XSwitch body))))"

text \<open>Where the parts stand: after the body, however it is left short of a \<open>return\<close>, comes the cleanup.\<close>

lemma reflow_layout:
  assumes "laid P lab (reflow_x k init cond cleanup body) p nx bk ct"
  obtains q q1 r where "\<And>s c. msteps P (Run q s) c \<Longrightarrow> msteps P (Run p s) c" "laid P lab init q q1 bk ct"
    "\<And>s c. msteps P (Run (lab (if cond s then (''__reflow_start_'', k) else (''__reflow_end_'', k))) s) c \<Longrightarrow> msteps P (Run q1 s) c"
    "laid P lab cleanup (lab (''__reflow_end_'', k)) nx bk ct" "laid P lab body (lab (''__reflow_start_'', k)) r r r"
    "\<And>s c. msteps P (Run (lab (''__reflow_end_'', k)) s) c \<Longrightarrow> msteps P (Run r s) c"
proof -
  from assms obtain q r q1 q2 q3 r1 r2 where
    p: "P p = Some (IBranch (\<lambda>_. True) q r)" and init: "laid P lab init q q1 bk ct" and
    q1: "P q1 = Some (IBranch cond q2 q3)" "P q2 = Some (IJump (lab (''__reflow_start_'', k)))"
      "P q3 = Some (IDo skip (lab (''__reflow_end_'', k)) bk ct)" and
    fin: "laid P lab cleanup (lab (''__reflow_end_'', k)) nx bk ct" and
    loop: "P r = Some (IJump r1)" "P r1 = Some (IBranch (\<lambda>_. True) r2 (lab (''__reflow_start_'', k)))"
      "P r2 = Some (IJump (lab (''__reflow_end_'', k)))" and
    body: "laid P lab body (lab (''__reflow_start_'', k)) r r r"
    by (auto simp: reflow_x_def)
  show thesis
  proof (rule that [OF _ init _ fin body])
    fix s c
    show "msteps P (Run q s) c \<Longrightarrow> msteps P (Run p s) c" by (rule goes_branch [of P, OF p]) simp
    show "msteps P (Run (lab (if cond s then (''__reflow_start_'', k) else (''__reflow_end_'', k))) s) c \<Longrightarrow> msteps P (Run q1 s) c"
      by (rule goes_branch [of P, OF q1(1)]) (auto intro: goes_jump [of P, OF q1(2)] goes_skip [of P, OF q1(3)] split: if_splits)
    show "msteps P (Run (lab (''__reflow_end_'', k)) s) c \<Longrightarrow> msteps P (Run r s) c"
      by (rule goes_jump [of P, OF loop(1)], rule goes_branch [of P, OF loop(2)]) (simp add: goes_jump [of P, OF loop(3)])
  qed
qed

lemma means_reflow:
  assumes i: "means init i" and e: "means cleanup e" and b: "means body m"
  shows "means (reflow_x k init cond cleanup body) (reflow i cond e m)"
proof (rule meansI)
  fix P lab p nx bk ct and s :: 'a
  assume "laid P lab (reflow_x k init cond cleanup body) p nx bk ct"
  then show "msteps P (Run p s) (exit_to nx bk ct (reflow i cond e m s))"
  proof (cases rule: reflow_layout)
    case (1 q q1 r)
    note clean = meansD [OF e 1(4)]
    have run: "msteps P (Run (lab (''__reflow_start_'', k)) t) (exit_to nx bk ct
        (case do_once m t of (f2, s2) \<Rightarrow> if f2 = Next \<or> f2 = Cont then e s2 else (f2, s2)))" for t
    proof -
      obtain f s' where m: "m t = (f, s')" by fastforce
      show ?thesis by (rule goes_part [OF b 1(5) m]) (use 1(6) clean m exit_to_halt in \<open>auto simp: do_once_def\<close>)
    qed
    obtain f s1 where s1: "i s = (f, s1)" by fastforce
    have go: "msteps P (Run q1 s1) (exit_to nx bk ct (reflow i cond e m s))" if "f = Next"
      using that s1 run [of s1] clean [of s1] by (intro 1(3)) (simp add: reflow_def)
    show ?thesis
      by (rule 1(1), rule goes_part [OF i 1(2) s1]) (use go s1 exit_to_halt in \<open>auto simp: reflow_def\<close>)
  qed
qed

definition do_after_x :: "nat \<Rightarrow> ('s, 'r) xst \<Rightarrow> ('s, 'r) xst \<Rightarrow> ('s, 'r) xst" where
  "do_after_x counter expr = reflow_x counter (XDo skip) (\<lambda>_. True) expr"

definition break_after_x :: "nat \<Rightarrow> ('s, 'r) xst \<Rightarrow> ('s, 'r) xst" where
  "break_after_x counter = do_after_x counter (XDo brk)"

definition do_before_x :: "nat \<Rightarrow> ('s, 'r) xst \<Rightarrow> ('s, 'r) xst \<Rightarrow> ('s, 'r) xst" where
  "do_before_x counter expr body =
     XIf (\<lambda>_. True) (XSeq expr (XGoto (''__do_before_'', counter))) (XLabel (''__do_before_'', counter) body)"

definition with_x :: "nat \<Rightarrow> ('s, 'r) xst \<Rightarrow> ('s \<Rightarrow> bool) \<Rightarrow> ('s, 'r) xst \<Rightarrow> ('s, 'r) xst \<Rightarrow> ('s, 'r) xst" where
  "with_x counter init condition cleanup body =
     XLoop (reflow_x counter init condition (XSeq cleanup (XDo brk)) body)"

definition let_x :: "nat \<Rightarrow> ('s, 'r) xst \<Rightarrow> ('s, 'r) xst" where
  "let_x counter body = XLoop (reflow_x counter (XDo skip) (\<lambda>_. True) (XDo brk) body)"

lemma means_do_after: "means expr e \<Longrightarrow> means body m \<Longrightarrow> means (do_after_x k expr body) (do_after e m)"
  unfolding do_after_x_def do_after_def by (intro means_reflow means_do)

lemma means_break_after: "means body m \<Longrightarrow> means (break_after_x k body) (break_after m)"
  unfolding break_after_x_def break_after_def by (intro means_do_after means_do)

lemma means_do_before:
  assumes "means expr e" "means body m"
  shows "means (do_before_x k expr body) (block [e, m])"
proof (rule meansI)
  fix P lab p nx bk ct and s :: 'a
  assume "laid P lab (do_before_x k expr body) p nx bk ct"
  then obtain q q1 where q: "P p = Some (IBranch (\<lambda>_. True) q (lab (''__do_before_'', k)))" "laid P lab expr q q1 bk ct"
      "P q1 = Some (IJump (lab (''__do_before_'', k)))" "laid P lab body (lab (''__do_before_'', k)) nx bk ct"
    by (auto simp: do_before_x_def)
  obtain f s1 where s1: "e s = (f, s1)" by fastforce
  show "msteps P (Run p s) (exit_to nx bk ct (block [e, m] s))"
    by (rule goes_branch [of P, OF q(1)], simp, rule goes_part [OF assms(1) q(2) s1])
      (use goes_jump [of P, OF q(3) meansD [OF assms(2) q(4), of s1]] s1 exit_to_halt in \<open>auto split: prod.splits\<close>)
qed

text \<open>A loop that is left in its first round.\<close>

definition once :: "('s, 'r) stmt \<Rightarrow> bool" where
  "once m \<longleftrightarrow> (\<forall>s. fst (m s) \<noteq> Next \<and> fst (m s) \<noteq> Cont)"

lemma means_loop_once:
  assumes "means c m" "once m"
  shows "means (XLoop c) (do_once m)"
proof (rule meansI)
  fix P lab p nx bk ct and s :: 'a
  assume "laid P lab (XLoop c) p nx bk ct"
  then obtain q where q: "P p = Some (IJump q)" "laid P lab c q p nx p" by auto
  obtain f s1 where s1: "m s = (f, s1)" by fastforce
  have f: "f \<noteq> Next" "f \<noteq> Cont" using assms(2) s1 by (metis fst_conv once_def)+
  show "msteps P (Run p s) (exit_to nx bk ct (do_once m s))"
    by (rule goes_jump [of P, OF q(1)], rule goes_part [OF assms(1) q(2) s1])
      (use s1 f exit_to_halt in \<open>auto simp: do_once_def\<close>)
qed

text \<open>Statements without a \<open>continue\<close> of their own.\<close>

definition no_cont :: "('s, 'r) stmt \<Rightarrow> bool" where
  "no_cont m \<longleftrightarrow> (\<forall>s. fst (m s) \<noteq> Cont)"

lemma no_contD: "no_cont m \<Longrightarrow> m s = (f, s') \<Longrightarrow> f \<noteq> Cont"
  unfolding no_cont_def by (metis fst_conv)

lemma once_reflow:
  assumes "no_cont i" "no_cont e"
  shows "once (reflow i cond (block [e, brk]) m)"
  unfolding once_def reflow_def
  by (auto simp: brk_def do_once_def split: prod.splits dest: no_contD [OF assms(1)] no_contD [OF assms(2)])

lemma means_with:
  assumes "means init i" "means cleanup e" "means body m" "no_cont i" "no_cont e"
  shows "means (with_x k init cond cleanup body) (with_test i cond e m)"
proof -
  have "means (reflow_x k init cond (XSeq cleanup (XDo brk)) body) (reflow i cond (block [e, brk]) m)"
    using assms(1-3) by (intro means_reflow means_seq means_do)
  from means_loop_once [OF this once_reflow [OF assms(4,5)]] show ?thesis
    by (simp add: with_x_def with_test_def [abs_def] do_once_def [abs_def])
qed

lemma means_let: "means body m \<Longrightarrow> means (let_x k body) (with_test skip (\<lambda>_. True) skip m)"
proof -
  assume "means body m"
  then have 1: "means (reflow_x k (XDo skip) (\<lambda>_. True) (XDo brk) body) (reflow skip (\<lambda>_. True) brk m)"
    by (intro means_reflow means_do)
  have 2: "reflow skip (\<lambda>_. True) brk m = reflow skip (\<lambda>_. True) (block [skip, brk]) m"
    by (simp add: reflow_def fun_eq_iff skip_def brk_def split: prod.split)
  have "no_cont skip" by (simp add: no_cont_def skip_def)
  from means_loop_once [OF 1 [unfolded 2] once_reflow [OF this this]] show ?thesis
    by (simp add: let_x_def with_test_def [abs_def] do_once_def [abs_def])
qed

subsection \<open>_class.h\<close>

text \<open>\<open>catch_value(decl, lvar, exec)\<close> before an expression: the expression is assigned and \<open>exec\<close> runs after
  it. \<open>delete(type) e\<close> is this with \<open>type_free\<close>.\<close>

definition catch_value_x :: "nat \<Rightarrow> ('s, 'r) xst \<Rightarrow> ('s, 'r) xst \<Rightarrow> ('s, 'r) xst" where
  "catch_value_x counter lvar finish =
     XLoop (XIf (\<lambda>_. True)
       (XSeq (XGoto (''__catch_value_start_'', counter))
         (XLabel (''__catch_value_end_'', counter) (XSeq finish (XDo brk))))
       (XLoop (XIf (\<lambda>_. True) (XGoto (''__catch_value_end_'', counter))
         (XLabel (''__catch_value_start_'', counter) lvar))))"

text \<open>Expressions neither break nor continue.\<close>

definition straight :: "('s, 'r) stmt \<Rightarrow> bool" where
  "straight m \<longleftrightarrow> (\<forall>s. fst (m s) \<noteq> Brk \<and> fst (m s) \<noteq> Cont)"

lemma straightD: "straight m \<Longrightarrow> m s = (f, s') \<Longrightarrow> f \<noteq> Brk \<and> f \<noteq> Cont"
  unfolding straight_def by (metis fst_conv)

lemma means_catch_value:
  assumes "means lvar a" "means finish e" "straight a" "straight e"
  shows "means (catch_value_x k lvar finish) (block [a, e])"
proof (rule meansI)
  fix P lab p nx bk ct and s :: 'a
  assume "laid P lab (catch_value_x k lvar finish) p nx bk ct"
  then obtain q q1 r w w1 w2 x where
    q: "P p = Some (IJump q)" "P q = Some (IBranch (\<lambda>_. True) q1 w)" "P q1 = Some (IJump (lab (''__catch_value_start_'', k)))" and
    fin: "laid P lab finish (lab (''__catch_value_end_'', k)) x nx p" "P x = Some (IDo brk p nx p)" and
    w: "P w = Some (IJump w1)" "P w1 = Some (IBranch (\<lambda>_. True) w2 (lab (''__catch_value_start_'', k)))"
      "P w2 = Some (IJump (lab (''__catch_value_end_'', k)))" and
    st: "laid P lab lvar (lab (''__catch_value_start_'', k)) w p w"
    by (auto simp: catch_value_x_def)
  obtain f s1 where s1: "a s = (f, s1)" by fastforce
  obtain f2 s2 where s2: "e s1 = (f2, s2)" by fastforce
  note st1 = straightD [OF assms(3) s1] straightD [OF assms(4) s2]
  have "msteps P (Run (lab (''__catch_value_end_'', k)) s1) (exit_to nx bk ct (f2, s2))"
    by (rule goes_part [OF assms(2) fin(1) s2]) (use goes_do [of P, OF fin(2)] st1 exit_to_halt in \<open>auto simp: brk_def\<close>)
  then have "msteps P (Run w s1) (exit_to nx bk ct (f2, s2))"
    by (intro goes_jump [of P, OF w(1)] goes_branch [of P, OF w(2)]) (simp add: goes_jump [of P, OF w(3)])
  then have "msteps P (Run (lab (''__catch_value_start_'', k)) s) (exit_to nx bk ct (block [a, e] s))"
    by (intro goes_part [OF assms(1) st s1]) (use s1 s2 st1 exit_to_halt in auto)
  then show "msteps P (Run p s) (exit_to nx bk ct (block [a, e] s))"
    by (intro goes_jump [of P, OF q(1)] goes_branch [of P, OF q(2)]) (simp add: goes_jump [of P, OF q(3)])
qed

text \<open>\<open>scope (type, varname, ...)\<close>: the variable is made, and unless that failed the body runs and the variable is
  deleted; it is deleted, too, when it could not be made, and not when the body returns.\<close>

definition scope_x :: "nat \<Rightarrow> nat \<Rightarrow> ('l \<times> 'a exw_scheme, 'r) xst \<Rightarrow> ('l \<times> 'a exw_scheme, 'r) xst \<Rightarrow> ('l \<times> 'a exw_scheme, 'r) xst \<Rightarrow>
    ('l \<times> 'a exw_scheme, 'r) xst \<Rightarrow> ('l \<times> 'a exw_scheme, 'r) xst" where
  "scope_x counter counter' decl lvar finish body =
     XSeq decl (with_x counter (XDo skip) (\<lambda>s. \<not> has_ex s) (catch_value_x counter' lvar finish) body)"

lemma no_cont_straight: "straight a \<Longrightarrow> straight e \<Longrightarrow> no_cont (block [a, e])"
  by (auto simp: no_cont_def straight_def split: prod.splits) (metis fst_conv)+

lemma means_scope:
  assumes "means decl n" "means lvar a" "means finish e" "means body m" "straight a" "straight e"
  shows "means (scope_x k k' decl lvar finish body) (block [n, with_test skip (\<lambda>s. \<not> has_ex s) (block [a, e]) m])"
proof -
  have "no_cont skip" by (simp add: no_cont_def skip_def)
  then show ?thesis unfolding scope_x_def
    using assms no_cont_straight [OF assms(5,6)] by (intro means_seq means_with means_catch_value means_do)
qed

subsection \<open>try.h\<close>

definition check_x :: "('l \<times> 'a exw_scheme, 'r) xst" where
  "check_x = XIf has_ex (XDo brk) (XDo skip)"

definition throwable_x :: "nat \<Rightarrow> ('l \<times> 'a exw_scheme, 'r) xst \<Rightarrow> ('l \<times> 'a exw_scheme, 'r) xst" where
  "throwable_x counter = do_after_x counter check_x"

definition throw_x :: "nat \<Rightarrow> ('l \<times> 'a exw_scheme, 'r) xst \<Rightarrow> ('l \<times> 'a exw_scheme, 'r) xst" where
  "throw_x counter = reflow_x counter (XDo skip) (\<lambda>_. True) (XSeq (XDo (set_ex (\<lambda>e. e\<lparr>ex_set := 1\<rparr>))) (XDo brk))"

text \<open>The handlers behind a \<open>try\<close> are a chain of \<open>else if\<close>, which a handler for every exception ends.\<close>

datatype ('s, 'r) xhandler = XCatch "'s \<Rightarrow> bool" "('s, 'r) xst" | XElse "('s, 'r) xst"

fun chain_x :: "('s, 'r) xhandler list \<Rightarrow> ('s, 'r) xst" where
  "chain_x [] = XDo skip"
| "chain_x (XCatch b c # hs) = XIf b c (chain_x hs)"
| "chain_x (XElse c # hs) = c"

definition try_x :: "nat \<Rightarrow> ('l \<times> 'a exw_scheme, 'r) xst \<Rightarrow> ('l \<times> 'a exw_scheme, 'r) xhandler list \<Rightarrow> ('l \<times> 'a exw_scheme, 'r) xst" where
  "try_x counter body hs =
     XIf (\<lambda>_. True) (XGoto (''__try_start_'', counter))
       (XLabel (''__try_end_'', counter) (XIf (\<lambda>s. \<not> has_ex s) (XDo skip)
         (XIf (\<lambda>_. False)
           (XLoop (XIf (\<lambda>_. True) (XGoto (''__try_end_'', counter))
             (XLabel (''__try_start_'', counter) (XSwitch body))))
           (chain_x hs))))"

definition destroy_x :: "('l \<times> 'a exw_scheme, 'r) xst" where
  "destroy_x = XIf (\<lambda>s. ex_set (ex (snd s)) \<noteq> 1) (XDo (set_ex Exception_destory)) (XDo skip)"

definition catch_type_x :: "nat \<Rightarrow> vtable \<Rightarrow> ('l \<times> 'a exw_scheme, 'r) xst \<Rightarrow> ('l \<times> 'a exw_scheme, 'r) xhandler" where
  "catch_type_x counter t h =
     XCatch (\<lambda>s. issubtype (ex (snd s)) t)
       (with_x counter (XDo (set_ex (\<lambda>e. e\<lparr>ex_set := EXCEPTION_CATCHED\<rparr>))) (\<lambda>_. True)
         destroy_x h)"

definition catch_default_x :: "nat \<Rightarrow> ('l \<times> 'a exw_scheme, 'r) xst \<Rightarrow> ('l \<times> 'a exw_scheme, 'r) xhandler" where
  "catch_default_x counter h =
     XElse (with_x counter (XDo (set_ex (\<lambda>e. e\<lparr>ex_set := EXCEPTION_CATCHED\<rparr>))) (\<lambda>_. True)
       destroy_x h)"

definition onerror_x :: "nat \<Rightarrow> ('l \<times> 'a exw_scheme, 'r) xst \<Rightarrow> ('l \<times> 'a exw_scheme, 'r) xhandler" where
  "onerror_x counter h = XElse (with_x counter (XDo skip) (\<lambda>_. True) (XDo skip) h)"

fun handler_means :: "('l \<times> 'a exw_scheme, 'r) xhandler \<Rightarrow> ('l, 'a, 'r) handler \<Rightarrow> bool" where
  "handler_means (XCatch b c) h \<longleftrightarrow> fst h = b \<and> means c (snd h)"
| "handler_means (XElse c) h \<longleftrightarrow> fst h = (\<lambda>_. True) \<and> means c (snd h)"

lemma means_throwable: "means body m \<Longrightarrow> means (throwable_x k body) (throwable m)"
  unfolding throwable_x_def throwable_def check_x_def check_def whenc_def
  by (intro means_do_after means_if means_do)

lemma means_throw: "means body m \<Longrightarrow> means (throw_x k body) (throw m)"
  unfolding throw_x_def throw_def by (intro means_reflow means_seq means_do)

lemma straight_set_ex: "no_cont (set_ex f)" "no_cont skip" "no_cont destroy_unless_set"
  by (auto simp: no_cont_def flow_simps destroy_unless_set_def set_ex_def setg_def)

lemma means_destroy:
  "means destroy_x destroy_unless_set"
  unfolding destroy_x_def destroy_unless_set_def whenc_def by (intro means_if means_do)

lemma means_catch:
  assumes "means h m"
  shows "handler_means (catch_type_x k t h) (catch_type t m)" "handler_means (catch_default_x k h) (catch_default m)"
    "handler_means (onerror_x k h) (onerror m)"
  using assms unfolding catch_type_x_def catch_type_def catch_default_x_def catch_default_def onerror_x_def onerror_def
  by (auto intro!: means_with means_do means_destroy straight_set_ex)

lemma means_chain: "list_all2 handler_means hx hs \<Longrightarrow> means (chain_x hx) (handlers hs)"
proof (induction rule: list_all2_induct)
  case Nil
  have "handlers [] = (skip :: ('a \<times> 'b exw_scheme, 'c) stmt)" by (simp add: fun_eq_iff skip_def)
  then show ?case using means_do [of skip] by simp
next
  case (Cons x xs h hs)
  show ?case
  proof (cases x)
    case (XCatch b c)
    then have "handlers (h # hs) = ife b (snd h) (handlers hs)" using Cons(1) by (simp add: fun_eq_iff ife_def)
    with XCatch Cons means_if [of c "snd h" "chain_x xs" "handlers hs" b] show ?thesis by simp
  next
    case (XElse c)
    then have "handlers (h # hs) = snd h" using Cons(1) by (simp add: fun_eq_iff)
    with XElse Cons(1) show ?thesis by simp
  qed
qed

lemma means_try:
  assumes b: "means body m" and h: "list_all2 handler_means hx hs"
  shows "means (try_x k body hx) (try_catch m hs)"
proof (rule meansI)
  fix P lab p nx bk ct and s :: "'a \<times> 'b exw_scheme"
  assume "laid P lab (try_x k body hx) p nx bk ct"
  then obtain q q1 q2 q3 r w w1 w2 where
    p: "P p = Some (IBranch (\<lambda>_. True) q (lab (''__try_end_'', k)))" "P q = Some (IJump (lab (''__try_start_'', k)))" and
    e: "P (lab (''__try_end_'', k)) = Some (IBranch (\<lambda>s. \<not> has_ex s) q1 q2)" "P q1 = Some (IDo skip nx bk ct)"
      "P q2 = Some (IBranch (\<lambda>_. False) w q3)" "laid P lab (chain_x hx) q3 nx bk ct" and
    w: "P w = Some (IJump w1)" "P w1 = Some (IBranch (\<lambda>_. True) w2 (lab (''__try_start_'', k)))"
      "P w2 = Some (IJump (lab (''__try_end_'', k)))" and
    body: "laid P lab body (lab (''__try_start_'', k)) w w w"
    by (auto simp: try_x_def)
  have fin: "msteps P (Run (lab (''__try_end_'', k)) t) (exit_to nx bk ct (if has_ex t then handlers hs t else (Next, t)))" for t
  proof (cases "has_ex t")
    case True
    have "msteps P (Run q2 t) (exit_to nx bk ct (handlers hs t))"
      by (rule goes_branch [of P, OF e(3)]) (simp add: meansD [OF means_chain [OF h] e(4)])
    with True show ?thesis by (intro goes_branch [of P, OF e(1)]) simp
  next
    case False
    then show ?thesis by (intro goes_branch [of P, OF e(1)]) (simp add: goes_skip [of P, OF e(2)])
  qed
  have round: "msteps P (Run w t) (exit_to nx bk ct (if has_ex t then handlers hs t else (Next, t)))" for t
    by (rule goes_jump [of P, OF w(1)], rule goes_branch [of P, OF w(2)], simp only: if_True, rule goes_jump [of P, OF w(3) fin])
  obtain f s1 where s1: "m s = (f, s1)" by (cases "m s")
  have "msteps P (Run (lab (''__try_start_'', k)) s) (exit_to nx bk ct (try_catch m hs s))"
    by (rule goes_part [OF b body s1])
      (use round [of s1] s1 exit_to_halt in \<open>auto simp: try_catch_def do_once_def\<close>)
  then show "msteps P (Run p s) (exit_to nx bk ct (try_catch m hs s))"
    by (intro goes_branch [of P, OF p(1)]) (simp add: goes_jump [of P, OF p(2)])
qed

subsection \<open>synchronized.h\<close>

text \<open>The macro's own variable \<open>pthread_errno\<close> stands before the state, which the body and the alternative
  do not see.\<close>

definition lift :: "('s, 'r) stmt \<Rightarrow> (int \<times> 's, 'r) stmt" where
  "lift m = (\<lambda>(e, s). case m s of (f, s') \<Rightarrow> (f, (e, s')))"

lemma lift_simp: "lift m (e, s) = (fst (m s), (e, snd (m s)))"
  by (simp add: lift_def split: prod.split)

definition lock_to :: "bool \<Rightarrow> 'l \<times> ('v, 'a) stackw_scheme \<Rightarrow> 'l \<times> ('v, 'a) stackw_scheme" where
  "lock_to b s = (fst s, (snd s)\<lparr>stack := (stack (snd s))\<lparr>st_lock := b\<rparr>\<rparr>)"

lemma set_lock_to: "set_lock b s = (Next, lock_to b s)"
  by (simp add: set_lock_def lock_to_def setg_def)

text \<open>\<open>pthread_spin_trylock\<close>: 0, or \<open>EBUSY\<close>.\<close>

definition trylock_spin :: "(int \<times> 'l \<times> ('v, 'a) stackw_scheme, 'r) stmt" where
  "trylock_spin = (\<lambda>(e, s). if spin_lock (snd s) then (Next, (16, s)) else (Next, (0, lock_to True s)))"

definition ensure_x ::
  "nat \<Rightarrow> nat \<Rightarrow> nat \<Rightarrow> (int \<times> 'l \<times> ('v, 'a) stackw_scheme, 'r) xst \<Rightarrow> (int \<times> 'l \<times> ('v, 'a) stackw_scheme, 'r) xst \<Rightarrow>
   (int \<times> 'l \<times> ('v, 'a) stackw_scheme, 'r) xst" where
  "ensure_x counter c1 c2 body alt =
     XLoop (XIf (\<lambda>_. True) (XGoto (''__ensure_synchronized_trylock_'', counter))
       (do_after_x c1 (XSeq (XIf (\<lambda>(e, s). e = 0) (XDo (lift (set_lock False))) (XDo skip)) (XDo brk))
         (XLoop (XIf (\<lambda>_. True)
           (XSeq (XIf (\<lambda>(e, s). e = 0) (XGoto (''__ensure_synchronized_lock_'', counter)) (XDo skip))
             (XLabel (''__ensure_synchronized_trylock_'', counter)
               (XSeq (XDo trylock_spin) (XGoto (''__ensure_synchronized_ensure_'', counter)))))
           (XLabel (''__ensure_synchronized_ensure_'', counter)
             (XIf (\<lambda>_. False)
               (XLabel (''__ensure_synchronized_lock_'', counter) (break_after_x c2 body)) alt))))))"

text \<open>A configuration that comes back to itself: with a deterministic machine it is never left.\<close>

definition spins :: "('s, 'r) code \<Rightarrow> ('s, 'r) cfg \<Rightarrow> bool" where
  "spins P c \<longleftrightarrow> (\<exists>d. msteps P c d \<and> (mstep P)\<^sup>+\<^sup>+ d d)"

lemma cycle_stays:
  assumes "(mstep P)\<^sup>+\<^sup>+ d d" "msteps P d e"
  shows "msteps P e d"
  using assms(2)
proof (induction rule: rtranclp_induct)
  case base
  show ?case by simp
next
  case (step y z)
  from step(3) assms(1) have "(mstep P)\<^sup>+\<^sup>+ y d" by (rule rtranclp_tranclp_tranclp)
  then obtain z' where "mstep P y z'" "msteps P z' d" by (metis tranclpD)
  with mstep_deterministic [OF step(2)] show ?case by blast
qed

lemma msteps_join: "msteps P c d \<Longrightarrow> msteps P c e \<Longrightarrow> msteps P d e \<or> msteps P e d"
proof (induction rule: rtranclp_induct)
  case (step y z)
  then consider "msteps P y e" | "msteps P e y" by blast
  then show ?case
  proof cases
    case 1
    then show ?thesis
    proof (cases rule: converse_rtranclpE)
      case (step y')
      with mstep_deterministic [OF \<open>mstep P y z\<close>] show ?thesis by blast
    qed (use step(2) in auto)
  next
    case 2
    with step(2) show ?thesis by (meson rtranclp.rtrancl_into_rtrancl)
  qed
qed simp

lemma halt_final: "msteps P (Halt f s) d \<Longrightarrow> d = Halt f s"
  by (erule converse_rtranclpE) (auto elim: mstep.cases)

lemma spins_never_halts:
  assumes "spins P c"
  shows "\<not> msteps P c (Halt f s)"
proof
  assume h: "msteps P c (Halt f s)"
  from assms obtain d where d: "msteps P c d" "(mstep P)\<^sup>+\<^sup>+ d d" by (auto simp: spins_def)
  from msteps_join [OF d(1) h] cycle_stays [OF d(2)] have "msteps P (Halt f s) d" by blast
  then have "d = Halt f s" by (rule halt_final)
  with d(2) show False by (metis tranclpD mstep.cases cfg.distinct(1))
qed

text \<open>Where the parts of the macro stand: the attempt, the alternative, the body and the cleanup.\<close>

lemma ensure_layout:
  fixes body alt :: "(int \<times> 'l \<times> ('v, 'a) stackw_scheme, 'r) xst"
  assumes "laid P lab (ensure_x k c1 c2 body alt) p nx bk ct"
  obtains T a w r B where "\<And>s c. msteps P (Run T s) c \<Longrightarrow> msteps P (Run p s) c"
    "\<And>e s c. msteps P (Run a (if spin_lock (snd s) then (16, s) else (0, lock_to True s))) c \<Longrightarrow> (mstep P)\<^sup>+\<^sup>+ (Run T (e, s)) c"
    "laid P lab alt a w r w"
    "\<And>e s c. msteps P (Run (if e = 0 then B else T) (e, s)) c \<Longrightarrow> msteps P (Run w (e, s)) c"
    "laid P lab (break_after_x c2 body) B w r w"
    "\<And>e s c. msteps P (Run nx (e, if e = 0 then lock_to False s else s)) c \<Longrightarrow> msteps P (Run r (e, s)) c"
proof -
  let ?T = "lab (''__ensure_synchronized_trylock_'', k)" and ?E = "lab (''__ensure_synchronized_ensure_'', k)"
    and ?B = "lab (''__ensure_synchronized_lock_'', k)" and ?w = "lab (''__reflow_start_'', c1)"
  let ?clean = "XSeq (XIf (\<lambda>(e, s). e = 0) (XDo (lift (set_lock False))) (XDo skip)) (XDo brk)
    :: (int \<times> 'l \<times> ('v, 'a) stackw_scheme, 'r) xst"
  from assms obtain p1 p2 d0 inner where
    p: "P p = Some (IJump p1)" "P p1 = Some (IBranch (\<lambda>_. True) p2 d0)" "P p2 = Some (IJump ?T)" and
    d: "laid P lab (do_after_x c1 ?clean inner) d0 p nx p" and
    inner: "inner = XLoop (XIf (\<lambda>_. True)
           (XSeq (XIf (\<lambda>(e, s). e = 0) (XGoto (''__ensure_synchronized_lock_'', k)) (XDo skip))
             (XLabel (''__ensure_synchronized_trylock_'', k)
               (XSeq (XDo trylock_spin) (XGoto (''__ensure_synchronized_ensure_'', k)))))
           (XLabel (''__ensure_synchronized_ensure_'', k)
             (XIf (\<lambda>_. False)
               (XLabel (''__ensure_synchronized_lock_'', k) (break_after_x c2 body)) alt)))"
    by (auto simp: ensure_x_def)
  from d [unfolded do_after_x_def] obtain r where
    clean: "laid P lab ?clean (lab (''__reflow_end_'', c1)) p nx p" and loop: "laid P lab inner ?w r r r" and
    r: "\<And>s c. msteps P (Run (lab (''__reflow_end_'', c1)) s) c \<Longrightarrow> msteps P (Run r s) c"
    by (rule reflow_layout) blast
  from loop obtain w1 w2 w3 w4 x a where
    w: "P ?w = Some (IJump w1)" "P w1 = Some (IBranch (\<lambda>_. True) w2 ?E)" "P w2 = Some (IBranch (\<lambda>(e, s). e = 0) w3 w4)"
      "P w3 = Some (IJump ?B)" "P w4 = Some (IDo skip ?T r ?w)" and
    T: "P ?T = Some (IDo trylock_spin x r ?w)" "P x = Some (IJump ?E)" and
    E: "P ?E = Some (IBranch (\<lambda>_. False) ?B a)" "laid P lab (break_after_x c2 body) ?B ?w r ?w" "laid P lab alt a ?w r ?w"
    by (auto simp: inner)
  from clean obtain e0 e1 e2 e3 where e: "P (lab (''__reflow_end_'', c1)) = Some (IBranch (\<lambda>(e, s). e = 0) e1 e2)"
      "P e1 = Some (IDo (lift (set_lock False)) e3 nx p)" "P e2 = Some (IDo skip e3 nx p)" "P e3 = Some (IDo brk p nx p)"
    by auto
  show thesis
  proof (rule that [OF _ _ E(3) _ E(2)])
    fix e :: int and s :: "'l \<times> ('v, 'a) stackw_scheme" and c
    show "msteps P (Run ?T v) c \<Longrightarrow> msteps P (Run p v) c" for v
      by (rule goes_jump [of P, OF p(1)], rule goes_branch [of P, OF p(2)]) (simp add: goes_jump [of P, OF p(3)])
    let ?s = "if spin_lock (snd s) then (16, s) else (0, lock_to True s)"
    assume "msteps P (Run a ?s) c"
    then have "msteps P (Run x ?s) c"
      by (intro goes_jump [of P, OF T(2)] goes_branch [of P, OF E(1)]) simp
    moreover have "mstep P (Run ?T (e, s)) (Run x ?s)"
      using mstep.do_stmt [of P, OF T(1), of "(e, s)"] by (simp add: trylock_spin_def split: if_splits)
    ultimately show "(mstep P)\<^sup>+\<^sup>+ (Run ?T (e, s)) c" by (rule rtranclp_into_tranclp2 [rotated])
  next
    fix e :: int and s :: "'l \<times> ('v, 'a) stackw_scheme" and c
    assume "msteps P (Run (if e = 0 then ?B else ?T) (e, s)) c"
    then show "msteps P (Run ?w (e, s)) c"
      by (intro goes_jump [of P, OF w(1)] goes_branch [of P, OF w(2)])
        (auto intro!: goes_branch [of P, OF w(3)] intro: goes_jump [of P, OF w(4)] goes_skip [of P, OF w(5)] split: if_splits)
  next
    fix e :: int and s :: "'l \<times> ('v, 'a) stackw_scheme" and c
    let ?s = "(e, if e = 0 then lock_to False s else s)"
    assume "msteps P (Run nx ?s) c"
    then have "msteps P (Run e3 ?s) c" by (intro goes_do [of P, OF e(4)]) (simp add: brk_def)
    then show "msteps P (Run r (e, s)) c"
      by (intro r goes_branch [of P, OF e(1)])
        (auto intro!: goes_do [of P, OF e(2)] goes_skip [of P, OF e(3)] simp: lift_simp set_lock_to)
  qed
qed

lemma goes_lifted:
  assumes "means c (lift m)" "laid P lab c p nx bk ct" "m s = (f, s')"
    and "f = Next \<Longrightarrow> msteps P (Run nx (e, s')) d" "f = Brk \<Longrightarrow> msteps P (Run bk (e, s')) d" "f = Cont \<Longrightarrow> msteps P (Run ct (e, s')) d"
    and "f \<noteq> Next \<Longrightarrow> f \<noteq> Brk \<Longrightarrow> f \<noteq> Cont \<Longrightarrow> d = Halt f (e, s')"
  shows "msteps P (Run p (e, s)) d"
  by (rule goes_part [OF assms(1,2)]) (use assms(3-7) in \<open>simp_all add: lift_simp\<close>)

lemma lift_break_after: "break_after (lift b) = lift (break_after b)"
  by (auto simp: fun_eq_iff break_after_def do_after_simp lift_def brk_def split: prod.split)

lemma spin_lock_to [simp]: "spin_lock (snd (lock_to b s)) = b"
  by (simp add: spin_lock_def lock_to_def)

text \<open>A lock that is taken: only a \<open>break\<close> or \<open>return\<close> of the alternative ends the waiting.\<close>

lemma ensure_held:
  fixes s :: "'l \<times> ('v, 'a) stackw_scheme" and a b :: "('l \<times> ('v, 'a) stackw_scheme, 'r) stmt"
  assumes l: "laid P lab (ensure_x k c1 c2 body alt) p nx bk ct" and alt: "means alt (lift a)"
    and held: "spin_lock (snd s)" and look: "fst (a s) \<in> {Next, Cont} \<Longrightarrow> snd (a s) = s"
  shows "if fst (a s) \<in> {Next, Cont} then spins P (Run p (e, s))
    else \<exists>e'. msteps P (Run p (e, s)) (exit_to nx bk ct (fst (ensure_synchronized_spin b a s), (e', snd (ensure_synchronized_spin b a s))))"
  using l
proof (cases rule: ensure_layout)
  case (1 T x w r B)
  obtain f s1 where s1: "a s = (f, s1)" by (cases "a s")
  have T: "(mstep P)\<^sup>+\<^sup>+ (Run T (e0, s)) c" if "msteps P (Run x (16, s)) c" for e0 c
    using 1(2) [of s c e0] that held by simp
  have start: "msteps P (Run p (e, s)) c" if "msteps P (Run T (e, s)) c" for c using 1(1) that by blast
  show ?thesis
  proof (cases "f = Next \<or> f = Cont")
    case True
    then have s: "s1 = s" using look s1 by auto
    have w: "msteps P (Run w (16, s)) (Run T (16, s))" using 1(4) [of 16 s "Run T (16, s)"] by simp
    have "msteps P (Run x (16, s)) (Run T (16, s))"
      by (rule goes_lifted [OF alt 1(3) s1]) (use True s w in auto)
    from T [OF this] have cycle: "(mstep P)\<^sup>+\<^sup>+ (Run T (e0, s)) (Run T (16, s))" for e0 .
    from cycle [of e] have "msteps P (Run T (e, s)) (Run T (16, s))" by (rule tranclp_into_rtranclp)
    with start cycle [of 16] have "spins P (Run p (e, s))" unfolding spins_def by blast
    with True s1 show ?thesis by auto
  next
    case False
    have ens: "ensure_synchronized_spin b a s = (if f = Brk then (Next, s1) else (f, s1))"
      using held s1 False by (auto simp: ensure_synchronized_spin_def)
    have "msteps P (Run x (16, s)) (exit_to nx bk ct (if f = Brk then Next else f, (16, s1)))"
      by (rule goes_lifted [OF alt 1(3) s1]) (use False 1(6) [of 16 s1] exit_to_halt in auto)
    from start [OF tranclp_into_rtranclp [OF T [OF this]]] False s1 ens show ?thesis by (auto intro!: exI [of _ 16])
  qed
qed

lemma ensure_free:
  fixes s :: "'l \<times> ('v, 'a) stackw_scheme" and a b :: "('l \<times> ('v, 'a) stackw_scheme, 'r) stmt"
  assumes l: "laid P lab (ensure_x k c1 c2 body alt) p nx bk ct" and body: "means body (lift b)" and alt: "means alt (lift a)"
    and free: "\<not> spin_lock (snd s)"
  shows "\<exists>e'. msteps P (Run p (e, s)) (exit_to nx bk ct (fst (ensure_synchronized_spin b a s), (e', snd (ensure_synchronized_spin b a s))))"
  using l
proof (cases rule: ensure_layout)
  case (1 T x w r B)
  let ?s = "lock_to True s"
  obtain f s1 where s1: "a ?s = (f, s1)" by (cases "a ?s")
  obtain f2 s2 where s2: "b s1 = (f2, s2)" by (cases "b s1")
  let ?r = "if f = Next \<or> f = Cont then (if f2 = Next \<or> f2 = Brk \<or> f2 = Cont then (Next, lock_to False s2) else (f2, s2))
    else if f = Brk then (Next, lock_to False s1) else (f, s1)"
  have ens: "ensure_synchronized_spin b a s = ?r"
    using free s1 s2 by (auto simp: ensure_synchronized_spin_def set_lock_to do_after_simp)
  have r: "msteps P (Run r (0, t)) (Run nx (0, lock_to False t))" for t
    using 1(6) [of 0 t "Run nx (0, lock_to False t)"] by simp
  have after: "break_after b s1 = (if f2 = Next \<or> f2 = Brk \<or> f2 = Cont then Brk else f2, s2)"
    using s2 by (simp add: break_after_def do_after_simp brk_def)
  have bm: "means (break_after_x c2 body) (lift (break_after b))" using means_break_after [OF body] by (simp add: lift_break_after)
  have B: "msteps P (Run B (0, s1)) (exit_to nx bk ct (if f2 = Next \<or> f2 = Brk \<or> f2 = Cont then (Next, (0, lock_to False s2)) else (f2, (0, s2))))"
    by (rule goes_lifted [OF bm 1(5) after]) (use r exit_to_halt in auto)
  have w: "msteps P (Run w (0, s1)) c" if "msteps P (Run B (0, s1)) c" for c using 1(4) [of 0 s1 c] that by simp
  have "msteps P (Run x (0, ?s)) (exit_to nx bk ct (fst ?r, (0, snd ?r)))"
    by (rule goes_lifted [OF alt 1(3) s1]) (use w [OF B] r exit_to_halt in \<open>auto split: if_splits\<close>)
  then have "(mstep P)\<^sup>+\<^sup>+ (Run T (e, s)) (exit_to nx bk ct (fst ?r, (0, snd ?r)))"
    using 1(2) [of s _ e] free by simp
  from 1(1) [OF tranclp_into_rtranclp [OF this]] ens show ?thesis by (intro exI [of _ 0]) simp
qed

subsection \<open>Properties\<close>

text \<open>C11: the control macros do what the combinators say. Wherever the expansion of \<open>with\<close>, \<open>throwable\<close>, \<open>throw\<close> or
  \<open>try\<close> with its handlers stands in a function, and whatever statements of known meaning are put into it,
  running the compiled code with its jumps into and out of loops leaves the expansion by the same way (falling
  through, \<open>break\<close>, \<open>continue\<close>, \<open>return\<close>) and in the same state as the combinator; only a \<open>continue\<close> in the
  initialisation or cleanup of a \<open>with\<close> is excluded.\<close>

theorem control_macros_expand:
  fixes m i e :: "('l \<times> 'a exw_scheme, 'r) stmt"
  assumes "means body m" "means init i" "means cleanup e" "no_cont i" "no_cont e" "list_all2 handler_means hx hs"
  shows "means (with_x k init cond cleanup body) (with_test i cond e m) \<and> means (throwable_x k body) (throwable m) \<and>
    means (throw_x k body) (throw m) \<and> means (try_x k body hx) (try_catch m hs)"
  using means_with [OF assms(2,3,1,4,5)] means_throwable [OF assms(1)] means_throw [OF assms(1)] means_try [OF assms(1,6)]
  by blast

theorem control_macros_expand_witness:
  "\<exists>P lab e. laid P lab (try_x 0 (throwable_x 1 (throw_x 2 (XDo skip))) [catch_default_x 3 (XDo skip)] :: (unit \<times> exw, unit) xst) 0 100 101 102 \<and>
     msteps P (Run 0 ((), \<lparr>ex = ex_initial\<rparr>)) (Run 100 ((), \<lparr>ex = e\<rparr>)) \<and> \<not> Exception_has e"
proof -
  let ?c = "try_x 0 (throwable_x 1 (throw_x 2 (XDo skip))) [catch_default_x 3 (XDo skip)] :: (unit \<times> exw, unit) xst"
  let ?m = "try_catch (throwable (throw skip)) [catch_default skip] :: (unit \<times> exw, unit) stmt"
  have "distinct (labels ?c)"
    by (simp add: try_x_def throwable_x_def throw_x_def catch_default_x_def do_after_x_def reflow_x_def with_x_def check_x_def destroy_x_def)
  then obtain P lab where l: "laid P lab ?c 0 100 101 102" using laid_exists by blast
  have h: "list_all2 handler_means [catch_default_x 3 (XDo skip)] [catch_default (skip :: (unit \<times> exw, unit) stmt)]"
    using means_catch(2) [OF means_do] by simp
  note skips = means_do [of skip] means_do [of skip] straight_set_ex(2) straight_set_ex(2) list.rel_intros(1)
  have "means (throw_x 2 (XDo skip)) (throw skip :: (unit \<times> exw, unit) stmt)"
    using control_macros_expand [OF means_do skips] by blast
  then have "means (throwable_x 1 (throw_x 2 (XDo skip))) (throwable (throw skip) :: (unit \<times> exw, unit) stmt)"
    using control_macros_expand [OF _ skips] by blast
  then have "means ?c ?m" using control_macros_expand [OF _ means_do [of skip] means_do [of skip] straight_set_ex(2) straight_set_ex(2) h] by blast
  from meansD [OF this l, of "((), \<lparr>ex = ex_initial\<rparr>)"]
  have "msteps P (Run 0 ((), \<lparr>ex = ex_initial\<rparr>)) (exit_to 100 101 102 (?m ((), \<lparr>ex = ex_initial\<rparr>)))" .
  moreover have "\<exists>e. ?m ((), \<lparr>ex = ex_initial\<rparr>) = (Next, ((), \<lparr>ex = e\<rparr>)) \<and> \<not> Exception_has e"
    by (simp add: flow_simps catch_default_def Exception_has_def Exception_destory_def ex_initial_def)
  ultimately show ?thesis using l by fastforce
qed

text \<open>C23: the macro \<open>ensure_synchronized\<close> of the handle pool. Its expansion, a loop with a nested loop and three
  labels that are jumped to from outside, ends as \<open>ensure_synchronized_spin\<close> says: the alternative runs
  after the attempt to take the lock, the body once with the lock taken, and the lock is given back exactly when
  it was taken and nothing returned. When another holds the lock and the alternative only looks and
  goes on, the thread spins: the machine comes back to the same configuration for ever.\<close>

theorem ensure_expansion:
  fixes s :: "'l \<times> ('v, 'a) stackw_scheme" and a b :: "('l \<times> ('v, 'a) stackw_scheme, 'r) stmt"
  assumes "laid P lab (ensure_x k c1 c2 body alt) p nx bk ct" "means body (lift b)" "means alt (lift a)"
    and "spin_lock (snd s) \<Longrightarrow> fst (a s) \<in> {Next, Cont} \<Longrightarrow> snd (a s) = s"
  shows "if spin_lock (snd s) \<and> fst (a s) \<in> {Next, Cont}
    then fst (ensure_synchronized_spin b a s) = Stop Blocked \<and> spins P (Run p (e, s)) \<and> (\<forall>f t. \<not> msteps P (Run p (e, s)) (Halt f t))
    else \<exists>e'. msteps P (Run p (e, s)) (exit_to nx bk ct (fst (ensure_synchronized_spin b a s), (e', snd (ensure_synchronized_spin b a s))))"
proof (cases "spin_lock (snd s)")
  case True
  have "fst (ensure_synchronized_spin b a s) = Stop Blocked" if "fst (a s) \<in> {Next, Cont}"
    using that True by (cases "a s") (auto simp: ensure_synchronized_spin_def)
  then show ?thesis
    using ensure_held [OF assms(1,3) True assms(4) [OF True], of e b] True spins_never_halts [of P "Run p (e, s)"] by (auto split: if_splits)
next
  case False
  with ensure_free [OF assms(1-3) False] show ?thesis by simp
qed

theorem ensure_expansion_witness:
  "\<exists>P lab e'. laid P lab (ensure_x 0 1 2 (XDo (lift (setl (\<lambda>_. True)))) (XDo (lift skip)) :: (int \<times> bool \<times> nat stackw, unit) xst) 0 100 101 102 \<and>
     msteps P (Run 0 (5, (False, \<lparr>nodes = Map.empty, stack = Stack_init\<rparr>))) (Run 100 (e', (True, \<lparr>nodes = Map.empty, stack = Stack_init\<rparr>)))"
proof -
  let ?c = "ensure_x 0 1 2 (XDo (lift (setl (\<lambda>_. True)))) (XDo (lift skip)) :: (int \<times> bool \<times> nat stackw, unit) xst"
  let ?s = "(False, \<lparr>nodes = Map.empty, stack = Stack_init\<rparr>) :: bool \<times> nat stackw"
  have "distinct (labels ?c)" by (simp add: ensure_x_def do_after_x_def break_after_x_def reflow_x_def)
  then obtain P lab where l: "laid P lab ?c 0 100 101 102" using laid_exists by blast
  have f: "\<not> spin_lock (snd ?s)" by (simp add: spin_lock_def Stack_init_def)
  have "(ensure_synchronized_spin (setl (\<lambda>_. True)) skip ?s :: unit flow \<times> _) = (Next, (True, snd ?s))"
    by (simp add: ensure_synchronized_spin_def flow_simps set_lock_def spin_lock_def Stack_init_def)
  with ensure_expansion [OF l means_do means_do, of ?s 5] f l show ?thesis by auto
qed

end
