(* ===== verification/Buffers.thy ===== *)
theory Buffers
  imports Exceptions
begin

text \<open>
  common/template/buffer.h and buffer.c: the byte buffers that libcurl fills and drains
  through the callbacks \<open>Buffer_append\<close> and \<open>Buffer_fetch\<close>. \<open>data\<close> is the block of
  memory at the pointer; sizes and offsets are 64-bit words. A copy that leaves a block is
  a wild access. The allocator is a parameter: \<open>alloc n\<close> says whether a request for \<open>n\<close>
  bytes is granted.
\<close>

subsection \<open>Definitions\<close>

record Buffer =
  bdata :: string
  bsize :: u64
  boffset :: u64
  extensible :: bool

type_synonym 'g alloc = "u64 \<Rightarrow> 'g \<Rightarrow> bool \<times> 'g"

text \<open>\<open>realloc\<close> keeps the contents up to the new size; new bytes are unspecified, here NUL.\<close>

definition realloc_data :: "string \<Rightarrow> u64 \<Rightarrow> string" where
  "realloc_data d n = take (unat n) (d @ replicate (unat n) (CHR 0x00))"

definition Buffer_resize :: "'a exw_scheme alloc \<Rightarrow> Buffer \<Rightarrow> u64 \<Rightarrow> ('a exw_scheme, u64 \<times> Buffer) stmt" where
  "Buffer_resize alloc this new_size =
     fn this (block [
       whenc (\<lambda>(b, g). extensible b)
         (do_once (block [
            reads snd (\<lambda>g. case alloc new_size g of (ok, g') \<Rightarrow> block [
              setg (\<lambda>_. g'),
              condition_throw (\<lambda>_. ok) (set_ex (\<lambda>e. MallocException_init e (Some ''buffer resize''))),
              setl (\<lambda>b. b\<lparr>bsize := new_size, bdata := realloc_data (bdata b) new_size\<rparr>)])])),
       reads fst (\<lambda>b. ret (bsize b, b))])"

text \<open>\<open>memcpy(data + offset, src, n)\<close>.\<close>

definition memcpy_into :: "string \<Rightarrow> nat \<Rightarrow> string \<Rightarrow> string" where
  "memcpy_into d off src = take off d @ src @ drop (off + length src) d"

definition Buffer_append ::
  "'a exw_scheme alloc \<Rightarrow> string \<Rightarrow> u64 \<Rightarrow> Buffer \<Rightarrow> ('a exw_scheme, u64 \<times> Buffer) stmt" where
  "Buffer_append alloc ptr nmemb0 this =
     fn (nmemb0, this) (block [
       whenc (\<lambda>_. nmemb0 = 0) (ret (nmemb0, this)),
       reads (\<lambda>((nmemb, b), g). boffset b + nmemb) (\<lambda>new_size.
         whenc (\<lambda>((nmemb, b), g). new_size > bsize b)
           (reads (\<lambda>((nmemb, b), g). b) (\<lambda>b.
              call (Buffer_resize alloc b new_size) (\<lambda>(sz, b').
                setl (\<lambda>_. (sz - boffset b', b')))))),
       reads fst (\<lambda>(nmemb, b).
         if unat (boffset b) + unat nmemb \<le> length (bdata b) \<and> unat nmemb \<le> length ptr
         then block [
           setl (\<lambda>_. (nmemb, b\<lparr>bdata := memcpy_into (bdata b) (unat (boffset b)) (take (unat nmemb) ptr),
                              boffset := boffset b + nmemb\<rparr>)),
           reads fst ret]
         else halt Segv)])"

definition Buffer_fetch :: "u64 \<Rightarrow> Buffer \<Rightarrow> ('g, u64 \<times> string \<times> Buffer) stmt" where
  "Buffer_fetch nitems0 this =
     fn () (block [
       whenc (\<lambda>_. nitems0 = 0) (ret (nitems0, [], this)),
       (let nitems = (if boffset this + nitems0 > bsize this then bsize this - boffset this else nitems0)
        in if unat (boffset this) + unat nitems \<le> length (bdata this)
           then ret (nitems, take (unat nitems) (drop (unat (boffset this)) (bdata this)),
                     this\<lparr>boffset := boffset this + nitems\<rparr>)
           else halt Segv)])"

definition Buffer_init_exist :: "string \<Rightarrow> u64 \<Rightarrow> bool \<Rightarrow> Buffer" where
  "Buffer_init_exist d sz ext = \<lparr>bdata = d, bsize = sz, boffset = 0, extensible = ext\<rparr>"

text \<open>\<open>malloc\<close> leaves the new block's bytes unspecified; on failure \<open>this->data\<close> is NULL and
  the other fields keep what they held.\<close>

definition Buffer_init_new ::
  "'a exw_scheme alloc \<Rightarrow> Buffer \<Rightarrow> u64 \<Rightarrow> ('a exw_scheme, int \<times> Buffer) stmt" where
  "Buffer_init_new alloc this sz =
     fn this (block [
       try_catch (block [
         throwable (reads snd (\<lambda>g. case alloc sz g of (ok, g') \<Rightarrow> block [
           setg (\<lambda>_. g'),
           whenc (\<lambda>_. \<not> ok) (set_ex (\<lambda>e. MallocException_init e (Some ''buffer data''))),
           setl (\<lambda>b. b\<lparr>bdata := (if ok then replicate (unat sz) (CHR 0x00) else [])\<rparr>)])),
         setl (\<lambda>b. b\<lparr>bsize := sz, boffset := 0, extensible := True\<rparr>)])
         [onerror (setl (\<lambda>b. b\<lparr>bdata := []\<rparr>))],
       reads id (\<lambda>(b, g). ret (TEST_SUCCESS g, b))])"

subsection \<open>Invariant\<close>

definition Buffer_wf :: "Buffer \<Rightarrow> bool" where
  "Buffer_wf b \<longleftrightarrow> length (bdata b) = unat (bsize b) \<and> boffset b \<le> bsize b"

text \<open>The bytes appended so far and those still to be fetched.\<close>

definition Buffer_filled :: "Buffer \<Rightarrow> string" where
  "Buffer_filled b = take (unat (boffset b)) (bdata b)"

definition Buffer_rest :: "Buffer \<Rightarrow> string" where
  "Buffer_rest b = drop (unat (boffset b)) (bdata b)"

lemma Buffer_init_exist_wf: "length d = unat sz \<Longrightarrow> Buffer_wf (Buffer_init_exist d sz ext)"
  by (simp add: Buffer_wf_def Buffer_init_exist_def)

lemma Buffer_init_exist_rest: "Buffer_rest (Buffer_init_exist d sz ext) = d"
  by (simp add: Buffer_rest_def Buffer_init_exist_def)

lemma Buffer_init_exist_filled: "Buffer_filled (Buffer_init_exist d sz ext) = []"
  by (simp add: Buffer_filled_def Buffer_init_exist_def)

subsection \<open>Append\<close>

lemma resize_fixed: "\<not> extensible b \<Longrightarrow> Buffer_resize alloc b n g = (Ret (bsize b, b), g)"
  by (simp add: Buffer_resize_def flow_simps)

lemma resize_extensible:
  assumes "extensible b" "alloc n g = (ok, g')"
  shows "Buffer_resize alloc b n g =
    (if ok then (Ret (n, b\<lparr>bsize := n, bdata := realloc_data (bdata b) n\<rparr>), g')
     else (Ret (bsize b, b), g'\<lparr>ex := MallocException_init (ex g') (Some ''buffer resize'')\<rparr>))"
proof -
  have "(MallocException_init e w)\<lparr>ex_set := Suc 0\<rparr> = MallocException_init e w" for e w
    by (simp add: MallocException_init_def Exception_init_def)
  with assms show ?thesis by (simp add: Buffer_resize_def flow_simps)
qed

lemma take_memcpy_into:
  "off \<le> length d \<Longrightarrow> take (off + length src) (memcpy_into d off src) = take off d @ src"
  by (simp add: memcpy_into_def)

lemma length_memcpy_into: "off + length src \<le> length d \<Longrightarrow> length (memcpy_into d off src) = length d"
  by (simp add: memcpy_into_def)

lemma length_realloc: "length (realloc_data d n) = unat n"
  by (simp add: realloc_data_def)

lemma take_realloc: "k \<le> length d \<Longrightarrow> k \<le> unat n \<Longrightarrow> take k (realloc_data d n) = take k d"
  by (simp add: realloc_data_def min_def)

text \<open>The copy at the end of \<open>Buffer_append\<close>, once the number of bytes is settled.\<close>

definition append_bytes :: "string \<Rightarrow> u64 \<Rightarrow> Buffer \<Rightarrow> Buffer" where
  "append_bytes ptr n b =
     b\<lparr>bdata := memcpy_into (bdata b) (unat (boffset b)) (take (unat n) ptr), boffset := boffset b + n\<rparr>"

lemma append_bytes_wf:
  assumes wf: "Buffer_wf b" and n: "unat (boffset b) + unat n \<le> unat (bsize b)" "unat n \<le> length ptr"
  shows "Buffer_wf (append_bytes ptr n b)"
    and "Buffer_filled (append_bytes ptr n b) = Buffer_filled b @ take (unat n) ptr"
    and "bsize (append_bytes ptr n b) = bsize b"
proof -
  have "unat (bsize b) < 2 ^ LENGTH(64)" by (rule unsigned_less)
  with n have u: "unat (boffset b + n) = unat (boffset b) + unat n"
    by (intro unat_add_no_wrap) simp
  have l: "length (take (unat n) ptr) = unat n" using n by simp
  show "Buffer_wf (append_bytes ptr n b)"
    using wf n u l by (simp add: Buffer_wf_def append_bytes_def length_memcpy_into word_le_nat_alt)
  show "Buffer_filled (append_bytes ptr n b) = Buffer_filled b @ take (unat n) ptr"
    using take_memcpy_into [of "unat (boffset b)" "bdata b" "take (unat n) ptr"] wf n u l
    by (simp add: Buffer_filled_def append_bytes_def Buffer_wf_def)
qed (simp add: append_bytes_def)

lemma Buffer_append_copy:
  assumes "nmemb \<noteq> 0"
    and "(if boffset b + nmemb > bsize b then Buffer_resize alloc b (boffset b + nmemb) g
          else (Ret (boffset b + nmemb, b), g)) = (Ret (sz, b'), g')"
    and "n = (if boffset b + nmemb > bsize b then sz - boffset b' else nmemb)"
    and "Buffer_wf b'" "unat (boffset b') + unat n \<le> unat (bsize b')" "unat n \<le> length ptr"
  shows "Buffer_append alloc ptr nmemb b g = (Ret (n, append_bytes ptr n b'), g')"
  using assms by (auto simp: Buffer_append_def flow_simps append_bytes_def Buffer_wf_def split: if_splits)

lemma room_le:
  assumes wf: "Buffer_wf b" and w: "unat (boffset b) + unat nmemb < 2 ^ 64" and g: "boffset b + nmemb > bsize b"
  shows "unat (bsize b - boffset b) < unat nmemb"
    and "unat (boffset b) + unat (bsize b - boffset b) = unat (bsize b)"
proof -
  have "unat (boffset b + nmemb) = unat (boffset b) + unat nmemb"
    using w by (intro unat_add_no_wrap) simp
  moreover have "unat (boffset b) \<le> unat (bsize b)" using wf by (simp add: Buffer_wf_def word_le_nat_alt)
  moreover from this have "unat (bsize b - boffset b) = unat (bsize b) - unat (boffset b)"
    by (rule unat_diff_no_wrap)
  ultimately show "unat (bsize b - boffset b) < unat nmemb"
    "unat (boffset b) + unat (bsize b - boffset b) = unat (bsize b)"
    using g by (simp_all add: word_less_nat_alt)
qed

text \<open>On a buffer of fixed size \<open>Buffer_append\<close> takes what fits.\<close>

lemma Buffer_append_fixed:
  assumes wf: "Buffer_wf b" and fx: "\<not> extensible b"
    and w: "unat (boffset b) + unat nmemb < 2 ^ 64" and p: "length ptr = unat nmemb"
  defines "n \<equiv> (if boffset b + nmemb > bsize b then bsize b - boffset b else nmemb)"
  shows "Buffer_append alloc ptr nmemb b g = (Ret (n, append_bytes ptr n b), g)"
    and "unat (boffset b) + unat n \<le> unat (bsize b)" and "unat n \<le> unat nmemb"
proof -
  have "unat (boffset b + nmemb) = unat (boffset b) + unat nmemb"
    using w by (intro unat_add_no_wrap) simp
  then show b: "unat (boffset b) + unat n \<le> unat (bsize b)" and m: "unat n \<le> unat nmemb"
    using room_le [OF wf w] by (auto simp: n_def word_less_nat_alt)
  show "Buffer_append alloc ptr nmemb b g = (Ret (n, append_bytes ptr n b), g)"
  proof (cases "nmemb = 0")
    case True
    with wf show ?thesis
      by (auto simp: Buffer_append_def flow_simps append_bytes_def memcpy_into_def n_def Buffer_wf_def)
  next
    case False
    then show ?thesis
      by (rule Buffer_append_copy [where sz = "if boffset b + nmemb > bsize b then bsize b else boffset b + nmemb"])
        (use fx wf b m p in \<open>auto simp: resize_fixed n_def\<close>)
  qed
qed

text \<open>An extensible buffer takes everything when the allocator grants the new size.\<close>

lemma Buffer_append_extensible:
  assumes wf: "Buffer_wf b" and ext: "extensible b" and al: "\<And>m h. fst (alloc m h)"
    and w: "unat (boffset b) + unat nmemb < 2 ^ 64" and p: "length ptr = unat nmemb"
  shows "\<exists>b' g'. Buffer_append alloc ptr nmemb b g = (Ret (nmemb, b'), g') \<and>
    Buffer_wf b' \<and> Buffer_filled b' = Buffer_filled b @ ptr"
proof (cases "boffset b + nmemb > bsize b")
  case False
  have u: "unat (boffset b + nmemb) = unat (boffset b) + unat nmemb"
    using w by (intro unat_add_no_wrap) simp
  have r: "unat (boffset b) + unat nmemb \<le> unat (bsize b)"
    using False u by (simp add: word_less_nat_alt not_less)
  have "Buffer_append alloc ptr nmemb b g = (Ret (nmemb, append_bytes ptr nmemb b), g)"
  proof (cases "nmemb = 0")
    case True
    with wf p show ?thesis
      by (auto simp: Buffer_append_def flow_simps append_bytes_def memcpy_into_def)
  next
    case nz: False
    then show ?thesis
      by (rule Buffer_append_copy [where sz = "boffset b + nmemb"]) (use False wf r p in auto)
  qed
  with append_bytes_wf [OF wf r] p show ?thesis by auto
next
  case True
  let ?s = "boffset b + nmemb"
  let ?b = "b\<lparr>bsize := ?s, bdata := realloc_data (bdata b) ?s\<rparr>"
  have u: "unat ?s = unat (boffset b) + unat nmemb" using w by (intro unat_add_no_wrap) simp
  have o: "unat (boffset b) \<le> length (bdata b)" using wf by (simp add: Buffer_wf_def word_le_nat_alt)
  have wf': "Buffer_wf ?b" using u by (simp add: Buffer_wf_def length_realloc word_le_nat_alt)
  have f': "Buffer_filled ?b = Buffer_filled b" using o u by (simp add: Buffer_filled_def take_realloc)
  obtain g' where g': "alloc ?s g = (True, g')" using al [of ?s g] by (cases "alloc ?s g") auto
  have nz: "nmemb \<noteq> 0" using True wf by (auto simp: Buffer_wf_def)
  have "Buffer_append alloc ptr nmemb b g = (Ret (nmemb, append_bytes ptr nmemb ?b), g')"
    using nz by (rule Buffer_append_copy [where sz = ?s])
      (use True wf' u p resize_extensible [of b alloc ?s g, OF ext g'] in auto)
  moreover have "unat (boffset ?b) + unat nmemb \<le> unat (bsize ?b)" using u by simp
  ultimately show ?thesis using append_bytes_wf [OF wf', of nmemb ptr] p f' by auto
qed

subsection \<open>Fetch\<close>

lemma Buffer_fetch_spec:
  assumes wf: "Buffer_wf b" and w: "unat (boffset b) + unat n < 2 ^ 64"
  shows "\<exists>m b'. Buffer_fetch n b g = (Ret (m, take (unat n) (Buffer_rest b), b'), g) \<and>
    Buffer_wf b' \<and> Buffer_rest b' = drop (unat n) (Buffer_rest b) \<and>
    unat m = length (take (unat n) (Buffer_rest b))"
proof -
  let ?m = "if boffset b + n > bsize b then bsize b - boffset b else n"
  let ?b = "b\<lparr>boffset := boffset b + ?m\<rparr>"
  have u: "unat (boffset b + n) = unat (boffset b) + unat n" using w by (intro unat_add_no_wrap) simp
  have o: "unat (boffset b) \<le> unat (bsize b)" and l: "length (bdata b) = unat (bsize b)"
    using wf by (simp_all add: Buffer_wf_def word_le_nat_alt)
  have m: "unat ?m = min (unat n) (length (Buffer_rest b))"
    using u o l by (auto simp: word_less_nat_alt unat_diff_no_wrap Buffer_rest_def)
  have b: "unat (boffset b) + unat ?m \<le> unat (bsize b)" using m o l by (simp add: Buffer_rest_def)
  have "unat (bsize b) < 2 ^ LENGTH(64)" by (rule unsigned_less)
  with b have um: "unat (boffset b + ?m) = unat (boffset b) + unat ?m"
    by (intro unat_add_no_wrap) simp
  have "Buffer_fetch n b g = (Ret (?m, take (unat n) (Buffer_rest b), ?b), g)"
    using b l m wf by (auto simp: Buffer_fetch_def flow_simps Let_def Buffer_rest_def min_def
      Buffer_wf_def split: if_splits)
  moreover have "Buffer_wf ?b" using b l um by (simp add: Buffer_wf_def word_le_nat_alt)
  moreover have "Buffer_rest ?b = drop (unat n) (Buffer_rest b)"
    using um m l by (simp add: Buffer_rest_def min_def add.commute)
  moreover have "unat ?m = length (take (unat n) (Buffer_rest b))" using m by simp
  ultimately show ?thesis by blast
qed

subsection \<open>The callback contract of libcurl\<close>

text \<open>
  \<open>data_callback_t\<close> of common/wrapper/curl.h. libcurl hands each piece of a transfer to the
  write callback and aborts the transfer when the callback does not take all of it;
  for an upload it calls the read callback again and again until it returns 0. The second
  loop counts its rounds with fuel.
\<close>

fun feed :: "(string \<Rightarrow> u64 \<Rightarrow> 'b \<Rightarrow> ('g, u64 \<times> 'b) stmt) \<Rightarrow> string list \<Rightarrow> 'b \<Rightarrow> ('g, bool \<times> 'b) stmt" where
  "feed put [] b g = (Ret (True, b), g)"
| "feed put (c # cs) b g =
     (case put c (of_nat (length c)) b g of
        (Ret (n, b'), g') \<Rightarrow>
          if n = of_nat (length c) then feed put cs b' g' else (Ret (False, b'), g')
      | (Stop x, g') \<Rightarrow> (Stop x, g')
      | (_, g') \<Rightarrow> (Stop Segv, g'))"

fun drain :: "nat \<Rightarrow> (u64 \<Rightarrow> 'b \<Rightarrow> ('g, u64 \<times> string \<times> 'b) stmt) \<Rightarrow> u64 \<Rightarrow> 'b \<Rightarrow> ('g, (string \<times> 'b) option) stmt" where
  "drain 0 get n b g = (Ret None, g)"
| "drain (Suc k) get n b g =
     (case get n b g of
        (Ret (m, s, b'), g') \<Rightarrow>
          if m = 0 then (Ret (Some ([], b')), g')
          else (case drain k get n b' g' of
                  (Ret (Some (t, b'')), g'') \<Rightarrow> (Ret (Some (s @ t, b'')), g'')
                | r \<Rightarrow> r)
      | (Stop x, g') \<Rightarrow> (Stop x, g')
      | (_, g') \<Rightarrow> (Stop Segv, g'))"

text \<open>What a write callback promises: it takes a prefix of each piece, and \<open>taken\<close> is what
  it has got so far. \<open>sink_ok b k\<close>: the sink can be offered \<open>k\<close> more bytes.\<close>

locale byte_sink =
  fixes put :: "string \<Rightarrow> u64 \<Rightarrow> 'b \<Rightarrow> ('g, u64 \<times> 'b) stmt"
    and taken :: "'b \<Rightarrow> string"
    and sink_ok :: "'b \<Rightarrow> nat \<Rightarrow> bool"
  assumes put_prefix: "sink_ok b k \<Longrightarrow> length c \<le> k \<Longrightarrow> k < 2 ^ 64 \<Longrightarrow>
    \<exists>n b' g'. put c (of_nat (length c)) b g = (Ret (n, b'), g') \<and> unat n \<le> length c \<and>
      sink_ok b' (k - length c) \<and> taken b' = taken b @ take (unat n) c"
begin

lemma feed_prefix:
  "sink_ok b k \<Longrightarrow> length (concat cs) \<le> k \<Longrightarrow> k < 2 ^ 64 \<Longrightarrow>
   \<exists>ok b' g' rest. feed put cs b g = (Ret (ok, b'), g') \<and>
     taken b' @ rest = taken b @ concat cs \<and> (ok \<longleftrightarrow> rest = [])"
proof (induction cs arbitrary: b g k)
  case (Cons c cs)
  from Cons.prems have l: "length c \<le> k" by simp
  obtain n b' g' where p: "put c (of_nat (length c)) b g = (Ret (n, b'), g')" and n: "unat n \<le> length c"
    and ok: "sink_ok b' (k - length c)" and t: "taken b' = taken b @ take (unat n) c"
    using put_prefix [OF Cons.prems(1) l Cons.prems(3)] by blast
  have len: "n = of_nat (length c) \<longleftrightarrow> unat n = length c"
    using l Cons.prems(3) by (auto simp: word_unat_eq_iff unat_of_nat_u64)
  show ?case
  proof (cases "unat n = length c")
    case True
    with Cons.IH [OF ok, of g'] Cons.prems p t len show ?thesis by auto
  next
    case False
    with n have "drop (unat n) c \<noteq> []" by simp
    with False p t len show ?thesis
      by (intro exI [of _ False] exI [of _ b'] exI [of _ g'] exI [of _ "drop (unat n) c @ concat cs"])
        simp
  qed
qed auto

end

text \<open>A sink of bounded capacity takes each piece up to its capacity.\<close>

locale bounded_sink = byte_sink +
  fixes room :: "'b \<Rightarrow> nat"
  assumes put_room: "sink_ok b k \<Longrightarrow> length c \<le> k \<Longrightarrow> k < 2 ^ 64 \<Longrightarrow>
    put c (of_nat (length c)) b g = (Ret (n, b'), g') \<Longrightarrow>
    unat n = min (length c) (room b) \<and> room b' = room b - unat n"
begin

lemma feed_room:
  "sink_ok b k \<Longrightarrow> length (concat cs) \<le> k \<Longrightarrow> k < 2 ^ 64 \<Longrightarrow>
   \<exists>b' g'. feed put cs b g = (Ret (length (concat cs) \<le> room b, b'), g') \<and>
     taken b' = taken b @ take (room b) (concat cs)"
proof (induction cs arbitrary: b g k)
  case (Cons c cs)
  from Cons.prems have l: "length c \<le> k" by simp
  obtain n b' g' where p: "put c (of_nat (length c)) b g = (Ret (n, b'), g')" and n: "unat n \<le> length c"
    and ok: "sink_ok b' (k - length c)" and t: "taken b' = taken b @ take (unat n) c"
    using put_prefix [OF Cons.prems(1) l Cons.prems(3)] by blast
  note r = put_room [OF Cons.prems(1) l Cons.prems(3) p]
  have len: "n = of_nat (length c) \<longleftrightarrow> unat n = length c"
    using l Cons.prems(3) by (auto simp: word_unat_eq_iff unat_of_nat_u64)
  show ?case
  proof (cases "length c \<le> room b")
    case True
    with r have u: "unat n = length c" "room b' = room b - length c" by simp_all
    from Cons.prems have k: "length (concat cs) \<le> k - length c" "k - length c < 2 ^ 64" by simp_all
    obtain b'' g'' where f: "feed put cs b' g' = (Ret (length (concat cs) \<le> room b', b''), g'')"
      "taken b'' = taken b' @ take (room b') (concat cs)"
      using Cons.IH [OF ok k] by blast
    have "(length (concat cs) \<le> room b') = (length (concat (c # cs)) \<le> room b)"
      using True u by auto
    with f p len u t True show ?thesis by auto
  next
    case False
    with r p t len show ?thesis by auto
  qed
qed simp

end

text \<open>What a read callback promises: it returns the next bytes of what is left, 0 only at
  the end.\<close>

locale byte_source =
  fixes get :: "u64 \<Rightarrow> 'b \<Rightarrow> ('g, u64 \<times> string \<times> 'b) stmt"
    and rest :: "'b \<Rightarrow> string"
    and source_ok :: "'b \<Rightarrow> u64 \<Rightarrow> bool"
  assumes get_next: "source_ok b n \<Longrightarrow>
    \<exists>m b'. get n b g = (Ret (m, take (unat n) (rest b), b'), g) \<and> source_ok b' n \<and>
      rest b' = drop (unat n) (rest b) \<and> unat m = length (take (unat n) (rest b))"
begin

lemma drain_all:
  "source_ok b n \<Longrightarrow> n \<noteq> 0 \<Longrightarrow> length (rest b) < fuel \<Longrightarrow>
   \<exists>b'. drain fuel get n b g = (Ret (Some (rest b, b')), g)"
proof (induction fuel arbitrary: b)
  case (Suc fuel)
  obtain m b' where g: "get n b g = (Ret (m, take (unat n) (rest b), b'), g)" and ok: "source_ok b' n"
    and r: "rest b' = drop (unat n) (rest b)" and m: "unat m = length (take (unat n) (rest b))"
    using get_next [OF Suc.prems(1)] by blast
  have n: "0 < unat n" using Suc.prems(2) by (simp add: unat_gt_0)
  have m0: "m = 0 \<longleftrightarrow> rest b = []" using m n by (auto simp: unat_eq_0 [symmetric] min_def)
  show ?case
  proof (cases "rest b = []")
    case True
    with g m0 show ?thesis by simp
  next
    case False
    have "length (rest b') < fuel" using Suc.prems(3) r n False by (cases "rest b") auto
    from Suc.IH [OF ok Suc.prems(2) this] obtain b'' where
      "drain fuel get n b' g = (Ret (Some (rest b', b'')), g)" by blast
    with g m0 False r show ?thesis by simp
  qed
qed simp

end

definition fixed_sink_ok :: "Buffer \<Rightarrow> nat \<Rightarrow> bool" where
  "fixed_sink_ok b k \<longleftrightarrow> Buffer_wf b \<and> \<not> extensible b \<and> unat (boffset b) + k < 2 ^ 64"

definition fetch_ok :: "Buffer \<Rightarrow> u64 \<Rightarrow> bool" where
  "fetch_ok b n \<longleftrightarrow> Buffer_wf b \<and> unat (bsize b) + unat n < 2 ^ 64"

interpretation fixed_buffer: byte_sink "Buffer_append alloc" Buffer_filled fixed_sink_ok for alloc
proof
  fix b :: Buffer and k and c :: string and g :: "'a exw_scheme"
  assume ok: "fixed_sink_ok b k" and c: "length c \<le> k" and k: "k < 2 ^ 64"
  let ?l = "of_nat (length c) :: u64"
  have u: "unat ?l = length c" using c k by (simp add: unat_of_nat_u64)
  define n where "n = (if boffset b + ?l > bsize b then bsize b - boffset b else ?l)"
  have b: "Buffer_wf b" "\<not> extensible b" "unat (boffset b) + unat ?l < 2 ^ 64" "length c = unat ?l"
    using ok c u by (auto simp: fixed_sink_ok_def)
  note a = Buffer_append_fixed [OF b, folded n_def]
  note w = append_bytes_wf [OF b(1) a(2), of c]
  have "unat (boffset (append_bytes c n b)) \<le> unat (boffset b) + unat n"
    by (simp add: append_bytes_def unat_word_ariths)
  then have "fixed_sink_ok (append_bytes c n b) (k - length c)"
    using ok c u w a(3) by (auto simp: fixed_sink_ok_def append_bytes_def)
  then show "\<exists>n b' g'. Buffer_append alloc c ?l b g = (Ret (n, b'), g') \<and> unat n \<le> length c \<and>
      fixed_sink_ok b' (k - length c) \<and> Buffer_filled b' = Buffer_filled b @ take (unat n) c"
    using a(1) [of alloc g] a(3) w u by auto
qed

interpretation fixed_buffer: bounded_sink "Buffer_append alloc" Buffer_filled fixed_sink_ok
    "\<lambda>b. unat (bsize b) - unat (boffset b)" for alloc
proof
  fix b :: Buffer and k and c :: string and g g' :: "'a exw_scheme" and n b'
  assume ok: "fixed_sink_ok b k" and c: "length c \<le> k" and k: "k < 2 ^ 64"
    and a: "Buffer_append alloc c (of_nat (length c)) b g = (Ret (n, b'), g')"
  let ?l = "of_nat (length c) :: u64"
  have u: "unat ?l = length c" using c k by (simp add: unat_of_nat_u64)
  have b: "Buffer_wf b" "\<not> extensible b" "unat (boffset b) + unat ?l < 2 ^ 64" "length c = unat ?l"
    using ok c u by (auto simp: fixed_sink_ok_def)
  let ?n = "if boffset b + ?l > bsize b then bsize b - boffset b else ?l"
  have n: "n = ?n" and b': "b' = append_bytes c n b"
    using a Buffer_append_fixed(1) [OF b, of alloc g] by auto
  have s: "unat (boffset b + ?l) = unat (boffset b) + length c"
    using b(3) u by (subst unat_add_no_wrap) simp_all
  have o: "unat (boffset b) \<le> unat (bsize b)" using b(1) by (simp add: Buffer_wf_def word_le_nat_alt)
  have m: "unat n = min (length c) (unat (bsize b) - unat (boffset b))"
    using s o u by (auto simp: n word_less_nat_alt unat_diff_no_wrap)
  have "unat (bsize b) < 2 ^ LENGTH(64)" by (rule unsigned_less)
  with m o have "unat (boffset b + n) = unat (boffset b) + unat n"
    by (intro unat_add_no_wrap) simp
  with m show "unat n = min (length c) (unat (bsize b) - unat (boffset b)) \<and>
      unat (bsize b') - unat (boffset b') = unat (bsize b) - unat (boffset b) - unat n"
    by (simp add: b' append_bytes_def)
qed

interpretation fetch_buffer: byte_source Buffer_fetch Buffer_rest fetch_ok
proof
  fix b n and g :: 'a
  assume ok: "fetch_ok b n"
  then have "Buffer_wf b" "unat (boffset b) + unat n < 2 ^ 64"
    by (auto simp: fetch_ok_def Buffer_wf_def word_le_nat_alt)
  then obtain m b' where f: "Buffer_fetch n b g = (Ret (m, take (unat n) (Buffer_rest b), b'), g)"
    "Buffer_wf b'" "Buffer_rest b' = drop (unat n) (Buffer_rest b)"
    "unat m = length (take (unat n) (Buffer_rest b))"
    using Buffer_fetch_spec [of b n g] by blast
  moreover have "bsize b' = bsize b"
    using f(1) by (auto simp: Buffer_fetch_def flow_simps Let_def split: if_splits)
  ultimately show "\<exists>m b'. Buffer_fetch n b g = (Ret (m, take (unat n) (Buffer_rest b), b'), g) \<and>
      fetch_ok b' n \<and> Buffer_rest b' = drop (unat n) (Buffer_rest b) \<and>
      unat m = length (take (unat n) (Buffer_rest b))"
    using ok by (auto simp: fetch_ok_def)
qed

subsection \<open>Properties\<close>

text \<open>C25: receiving a transfer into the caller's memory of \<open>sz\<close> bytes (a buffer that is not
  extensible, as in \<open>dav_get\<close>) never leaves that memory, whatever the sizes of the pieces:
  the buffer ends up with the first \<open>sz\<close> bytes of the transfer, and the transfer is accepted
  exactly when it fits.\<close>

theorem Buffer_receive:
  assumes "length d = unat sz" and "length (concat cs) < 2 ^ 64"
  shows "\<exists>b' g'. feed (Buffer_append alloc) cs (Buffer_init_exist d sz False) g =
      (Ret (length (concat cs) \<le> unat sz, b'), g') \<and>
    Buffer_filled b' = take (unat sz) (concat cs)"
proof -
  have "fixed_sink_ok (Buffer_init_exist d sz False) (length (concat cs))"
    using assms by (simp add: fixed_sink_ok_def Buffer_init_exist_wf) (simp add: Buffer_init_exist_def)
  from fixed_buffer.feed_room [OF this order_refl assms(2)] show ?thesis
    by (simp add: Buffer_init_exist_def Buffer_filled_def)
qed

theorem Buffer_receive_witness:
  "\<exists>b' g'. feed (Buffer_append (\<lambda>_ g. (True, g))) [''ab'', ''cde''] (Buffer_init_exist ''0000'' 4 False)
      \<lparr>ex = ex_initial\<rparr> = (Ret (False, b'), g') \<and> Buffer_filled b' = ''abcd''"
  using Buffer_receive [of "''0000''" 4 "[''ab'', ''cde'']" "\<lambda>_ g. (True, g)" "\<lparr>ex = ex_initial\<rparr>"]
  by simp

text \<open>C26: an upload sends exactly the bytes of the buffer, whatever amount libcurl asks for in
  each call of \<open>Buffer_fetch\<close>, and the callback comes to its end: one more round than
  there are bytes is enough.\<close>

theorem Buffer_send:
  assumes "length d = unat sz" and "n \<noteq> 0" and "unat sz + unat n < 2 ^ 64" and "length d < fuel"
  shows "\<exists>b'. drain fuel Buffer_fetch n (Buffer_init_exist d sz ext) g = (Ret (Some (d, b')), g)"
proof -
  have "fetch_ok (Buffer_init_exist d sz ext) n"
    using assms by (simp add: fetch_ok_def Buffer_init_exist_wf) (simp add: Buffer_init_exist_def)
  from fetch_buffer.drain_all [OF this assms(2), of fuel g] assms(4) show ?thesis
    by (simp add: Buffer_init_exist_rest)
qed

theorem Buffer_send_witness:
  "\<exists>b'. drain 6 Buffer_fetch 2 (Buffer_init_exist ''hello'' 5 False) () = (Ret (Some (''hello'', b')), ())"
  using Buffer_send [of "''hello''" 5 2 6 False "()"] by simp

end
