(* ===== verification/CStrings.thy ===== *)
theory CStrings
  imports NFS_Prelude "HOL-Library.Sublist"
begin

text \<open>
  common/utils.h and the functions of the C library on strings and numbers that the
  sources use: \<open>isspace\<close>, \<open>strchr\<close>, \<open>strrchr\<close>, \<open>strtok_r\<close>, \<open>strtol\<close> and the
  \<open>%d\<close>, \<open>%zd\<close>, \<open>%o\<close> conversions of \<open>snprintf\<close>. A string is the list of its bytes up
  to the terminating NUL.
\<close>

subsection \<open>utils.h\<close>

definition isspace :: "char \<Rightarrow> bool" where
  "isspace c \<longleftrightarrow> of_char c = (32 :: nat) \<or> 9 \<le> (of_char c :: nat) \<and> (of_char c :: nat) \<le> 13"

text \<open>\<open>strncmp(str1, str2, strlen(str2)) == 0\<close>.\<close>

definition strscmp_eq :: "string \<Rightarrow> string \<Rightarrow> bool" where
  "strscmp_eq str1 str2 \<longleftrightarrow> take (length str2) str1 = str2"

text \<open>The loop of \<open>strnrstrip\<close> runs from the last of the first \<open>n\<close> bytes backwards and
  writes the NUL behind the last byte that is not white space.\<close>

definition strnrstrip :: "string \<Rightarrow> nat \<Rightarrow> string" where
  "strnrstrip s n = rev (dropWhile isspace (rev (take n s)))"

definition strrstrip :: "string \<Rightarrow> string" where
  "strrstrip s = strnrstrip s (length s)"

definition strlstrip :: "string \<Rightarrow> string" where
  "strlstrip s = dropWhile isspace s"

definition strstrip :: "string \<Rightarrow> string" where
  "strstrip s = strlstrip (strrstrip s)"

subsection \<open>The C library: searching and splitting\<close>

text \<open>The text before and behind the first (last) occurrence of a character, if there is
  one.\<close>

fun strchr :: "string \<Rightarrow> char \<Rightarrow> (string \<times> string) option" where
  "strchr [] c = None"
| "strchr (x # xs) c =
     (if x = c then Some ([], xs) else map_option (\<lambda>(a, b). (x # a, b)) (strchr xs c))"

fun strrchr :: "string \<Rightarrow> char \<Rightarrow> (string \<times> string) option" where
  "strrchr [] c = None"
| "strrchr (x # xs) c =
     (case strrchr xs c of
        Some (a, b) \<Rightarrow> Some (x # a, b)
      | None \<Rightarrow> if x = c then Some ([], xs) else None)"

text \<open>The tokens that \<open>strtok_r\<close> returns one after the other: the longest pieces without a
  delimiter.\<close>

function strtok :: "string \<Rightarrow> string \<Rightarrow> string list" where
  "strtok delim s =
     (let s' = dropWhile (\<lambda>c. c \<in> set delim) s in
      if s' = [] then []
      else takeWhile (\<lambda>c. c \<notin> set delim) s' # strtok delim (dropWhile (\<lambda>c. c \<notin> set delim) s'))"
  by pat_completeness auto
termination
proof (relation "measure (\<lambda>(delim, s). length s)", goal_cases)
  case (2 delim s s')
  from 2(2) obtain x xs where x: "s' = x # xs" unfolding neq_Nil_conv by blast
  with 2 have "x \<notin> set delim" using hd_dropWhile [of "\<lambda>c. c \<in> set delim" s]
    by (metis list.sel(1) list.distinct(1))
  then have "length (dropWhile (\<lambda>c. c \<notin> set delim) s') < length s'"
    by (simp add: x le_imp_less_Suc length_dropWhile_le)
  moreover have "length s' \<le> length s" by (simp add: 2 length_dropWhile_le)
  ultimately show ?case by simp
qed simp

declare strtok.simps [simp del]

subsection \<open>The C library: numbers\<close>

definition digit_char :: "nat \<Rightarrow> char" where
  "digit_char d = char_of (48 + d)"

fun ushow :: "nat \<Rightarrow> nat \<Rightarrow> string" where
  "ushow base n =
     (if base < 2 \<or> n < base then [digit_char n] else ushow base (n div base) @ [digit_char (n mod base)])"

declare ushow.simps [simp del]

definition sshow :: "int \<Rightarrow> string" where
  "sshow i = (if i < 0 then CHR ''-'' # ushow 10 (nat (- i)) else ushow 10 (nat i))"

text \<open>\<open>snprintf\<close> into a buffer of \<open>n\<close> bytes keeps what fits before the NUL.\<close>

definition snprintf :: "nat \<Rightarrow> string \<Rightarrow> string" where
  "snprintf n s = take (n - 1) s"

definition isdigit_base :: "nat \<Rightarrow> char \<Rightarrow> bool" where
  "isdigit_base base c \<longleftrightarrow> 48 \<le> (of_char c :: nat) \<and> (of_char c :: nat) < 48 + base"

definition digits_value :: "nat \<Rightarrow> string \<Rightarrow> nat" where
  "digits_value base ds = foldl (\<lambda>a c. a * base + (of_char c - 48)) 0 ds"

definition clamp_long :: "int \<Rightarrow> int" where
  "clamp_long i = max (- (2 ^ 63)) (min (2 ^ 63 - 1) i)"

text \<open>\<open>strtol\<close> for the bases 2 to 10: the value and the rest of the string at \<open>endptr\<close>.\<close>

definition strtol :: "nat \<Rightarrow> string \<Rightarrow> int \<times> string" where
  "strtol base s =
     (let t = dropWhile isspace s;
          neg = (t \<noteq> [] \<and> hd t = CHR ''-'');
          u = (if t \<noteq> [] \<and> (hd t = CHR ''-'' \<or> hd t = CHR ''+'') then tl t else t);
          ds = takeWhile (isdigit_base base) u;
          v = int (digits_value base ds)
      in if ds = [] then (0, s)
         else (clamp_long (if neg then - v else v), dropWhile (isdigit_base base) u))"

subsection \<open>Lemmas\<close>

lemma snprintf_fits: "length s < n \<Longrightarrow> snprintf n s = s"
  by (simp add: snprintf_def)

lemma strscmp_prefix: "strscmp_eq s p \<longleftrightarrow> prefix p s"
  by (metis append_take_drop_id prefix_def strscmp_eq_def append_eq_conv_conj)

lemma strscmp_append [simp]: "strscmp_eq (p @ s) p"
  by (simp add: strscmp_eq_def)

lemma strchr_None: "strchr s c = None \<longleftrightarrow> c \<notin> set s"
  by (induction s) auto

lemma strchr_Some: "strchr s c = Some (a, b) \<longleftrightarrow> s = a @ c # b \<and> c \<notin> set a"
proof (induction s arbitrary: a)
  case (Cons x xs)
  then show ?case by (cases a) auto
qed simp

lemma strrchr_None: "strrchr s c = None \<longleftrightarrow> c \<notin> set s"
  by (induction s) (auto split: option.splits)

lemma strrchr_Some: "strrchr s c = Some (a, b) \<Longrightarrow> s = a @ c # b \<and> c \<notin> set b"
  by (induction s arbitrary: a) (auto split: option.splits if_splits simp: strrchr_None)

lemma rstrip_last: "strrstrip s = [] \<or> \<not> isspace (last (strrstrip s))"
  unfolding strrstrip_def strnrstrip_def
  by (metis hd_dropWhile last_rev rev_is_Nil_conv)

lemma of_digit_char: "d < 10 \<Longrightarrow> of_char (digit_char d) = 48 + d"
  by (simp add: digit_char_def)

lemma isdigit_digit_char: "base \<le> 10 \<Longrightarrow> d < base \<Longrightarrow> isdigit_base base (digit_char d)"
  by (simp add: isdigit_base_def of_digit_char)

lemma ushow_digits: "2 \<le> base \<Longrightarrow> base \<le> 10 \<Longrightarrow> c \<in> set (ushow base n) \<Longrightarrow> isdigit_base base c"
proof (induction base n rule: ushow.induct)
  case (1 base n)
  then show ?case
    by (subst (asm) ushow.simps) (auto simp: isdigit_digit_char split: if_splits)
qed

lemma ushow_nonempty: "ushow base n \<noteq> []"
  by (subst ushow.simps) simp

lemma digits_value_snoc: "digits_value base (ds @ [c]) = digits_value base ds * base + (of_char c - 48)"
  by (simp add: digits_value_def)

lemma digits_value_ushow: "2 \<le> base \<Longrightarrow> base \<le> 10 \<Longrightarrow> digits_value base (ushow base n) = n"
proof (induction base n rule: ushow.induct)
  case (1 base n)
  show ?case
  proof (cases "n < base")
    case True
    with 1 show ?thesis
      by (subst ushow.simps) (simp add: digits_value_def of_digit_char)
  next
    case False
    with 1 show ?thesis
      by (subst ushow.simps) (simp add: digits_value_snoc of_digit_char order_less_le_trans [OF mod_less_divisor])
  qed
qed

lemma isdigit_not_space: "isdigit_base base c \<Longrightarrow> base \<le> 10 \<Longrightarrow> \<not> isspace c"
  by (simp add: isdigit_base_def isspace_def)

lemma isdigit_not_sign: "isdigit_base base c \<Longrightarrow> c \<noteq> CHR ''-'' \<and> c \<noteq> CHR ''+''"
  by (auto simp: isdigit_base_def)

text \<open>\<open>strtol\<close> reads back what \<open>snprintf\<close> wrote, and stops behind it.\<close>

lemma strtol_ushow:
  assumes "2 \<le> base" "base \<le> 10" "n < 2 ^ 63" and rest: "rest = [] \<or> \<not> isdigit_base base (hd rest)"
  shows "strtol base (ushow base n @ rest) = (int n, rest)"
proof -
  obtain d ds where u: "ushow base n = d # ds" using ushow_nonempty by (cases "ushow base n") auto
  have dig: "c \<in> set (ushow base n) \<Longrightarrow> isdigit_base base c" for c
    using assms(1,2) by (rule ushow_digits)
  then have d: "isdigit_base base d" using u by simp
  have t: "takeWhile (isdigit_base base) (ushow base n @ rest) = ushow base n"
    using dig rest by (simp add: takeWhile_append2) (metis takeWhile_eq_Nil_iff)
  have w: "dropWhile (isdigit_base base) (ushow base n @ rest) = rest"
    using dig rest by (simp add: dropWhile_append2) (metis dropWhile_eq_self_iff)
  have "clamp_long (int n) = int n" using assms(3) by (simp add: clamp_long_def)
  moreover have "dropWhile isspace (ushow base n @ rest) = ushow base n @ rest"
    using isdigit_not_space [OF d assms(2)] by (simp add: u)
  moreover have "digits_value base (d # ds) = n"
    using digits_value_ushow [OF assms(1,2), of n] by (simp only: u)
  ultimately show ?thesis
    using t w isdigit_not_sign [OF d] by (simp add: strtol_def u)
qed

lemma length_ushow: "2 \<le> base \<Longrightarrow> n < base ^ k \<Longrightarrow> 0 < k \<Longrightarrow> length (ushow base n) \<le> k"
proof (induction k arbitrary: n)
  case (Suc k)
  show ?case
  proof (cases "n < base")
    case True
    then show ?thesis by (subst ushow.simps) simp
  next
    case False
    with Suc.prems have k: "0 < k" by (cases k) auto
    have "n div base < base ^ k" using Suc.prems by (simp add: less_mult_imp_div_less mult.commute)
    with Suc.IH [OF Suc.prems(1) _ k] False show ?thesis by (subst ushow.simps) simp
  qed
qed simp

lemma strchr_length: "strchr s c = Some (a, b) \<Longrightarrow> length s = Suc (length a + length b)"
  by (induction s c arbitrary: a b rule: strchr.induct) (auto split: if_splits)

end
