(* ===== verification/Xml_Types.thy ===== *)
theory Xml_Types
  imports Main
begin

text \<open>
  The part of libxml's document tree the sources look at: a node's name, the URL of its
  name space, its text content, its attributes (name and text of the first child, if there is
  one) and its children. The parser itself is a parameter of the model.
\<close>

datatype xml = XNode
  (x_name: string)
  (x_ns: "string option")
  (x_content: "string option")
  (x_props: "(string \<times> string option) list")
  (x_children: "xml list")

end
