(* ===== verification/Posix.thy ===== *)
theory Posix
  imports NFS_Prelude
begin

text \<open>
  The parts of the POSIX interface the file system operations are written against:
  \<open>struct stat\<close>, the file type bits of a mode, the flags of \<open>open\<close> and the error
  numbers of Linux.
\<close>

record stat =
  st_mode :: u32
  st_nlink :: u64
  st_uid :: u32
  st_gid :: u32
  st_rdev :: u64
  st_size :: u64
  st_atime :: int
  st_mtime :: int
  st_ctime :: int

text \<open>A structure of zero bytes.\<close>

definition stat0 :: stat where
  "stat0 = \<lparr>st_mode = 0, st_nlink = 0, st_uid = 0, st_gid = 0, st_rdev = 0, st_size = 0,
     st_atime = 0, st_mtime = 0, st_ctime = 0\<rparr>"

abbreviation (input) S_IFMT :: u32 where "S_IFMT \<equiv> 0xF000"
abbreviation (input) S_IFCHR :: u32 where "S_IFCHR \<equiv> 0x2000"
abbreviation (input) S_IFDIR :: u32 where "S_IFDIR \<equiv> 0x4000"
abbreviation (input) S_IFBLK :: u32 where "S_IFBLK \<equiv> 0x6000"
abbreviation (input) S_IFREG :: u32 where "S_IFREG \<equiv> 0x8000"
abbreviation (input) S_IFLNK :: u32 where "S_IFLNK \<equiv> 0xA000"
abbreviation (input) mode_0777 :: u32 where "mode_0777 \<equiv> 0x1FF"

definition S_ISCHR :: "u32 \<Rightarrow> bool" where
  "S_ISCHR m \<longleftrightarrow> m AND S_IFMT = S_IFCHR"

definition S_ISBLK :: "u32 \<Rightarrow> bool" where
  "S_ISBLK m \<longleftrightarrow> m AND S_IFMT = S_IFBLK"

definition S_ISDIR :: "u32 \<Rightarrow> bool" where
  "S_ISDIR m \<longleftrightarrow> m AND S_IFMT = S_IFDIR"

abbreviation (input) O_WRONLY :: u32 where "O_WRONLY \<equiv> 1"
abbreviation (input) O_RDWR :: u32 where "O_RDWR \<equiv> 2"
abbreviation (input) O_CREAT :: u32 where "O_CREAT \<equiv> 0x40"
abbreviation (input) O_TRUNC :: u32 where "O_TRUNC \<equiv> 0x200"

abbreviation (input) RENAME_NOREPLACE :: u32 where "RENAME_NOREPLACE \<equiv> 1"

abbreviation (input) ENOENT :: int where "ENOENT \<equiv> 2"
abbreviation (input) EIO :: int where "EIO \<equiv> 5"
abbreviation (input) ENOMEM :: int where "ENOMEM \<equiv> 12"
abbreviation (input) EBUSY :: int where "EBUSY \<equiv> 16"
abbreviation (input) EEXIST :: int where "EEXIST \<equiv> 17"
abbreviation (input) EINVAL :: int where "EINVAL \<equiv> 22"
abbreviation (input) ENOSPC :: int where "ENOSPC \<equiv> 28"
abbreviation (input) EOPNOTSUPP :: int where "EOPNOTSUPP \<equiv> 95"

text \<open>Conversions of C: a number stored in an \<open>int\<close>, the lower half of a 64-bit
  number.\<close>

definition to_int32 :: "u64 \<Rightarrow> int" where
  "to_int32 w = sint (ucast w :: u32)"

definition to_unsigned :: "u64 \<Rightarrow> u64" where
  "to_unsigned w = ucast (ucast w :: u32)"

lemma unat_ucast_small: "unat (w :: u64) < 2 ^ 32 \<Longrightarrow> unat (ucast w :: u32) = unat w"
  by (simp only: unsigned_ucast_eq take_bit_eq_mod) simp

lemma to_int32_small:
  assumes a: "unat w < 2 ^ 31"
  shows "to_int32 w = int (unat w)"
proof -
  have u: "uint (ucast w :: u32) = int (unat w)"
    using a by (subst uint_nat, subst unat_ucast_small) simp_all
  from a have "int (unat w) < int (2 ^ 31)" by (simp only: of_nat_less_iff)
  then have "int (unat w) < 2 ^ 31" by (simp only: of_nat_power of_nat_numeral)
  then have "signed_take_bit 31 (int (unat w)) = int (unat w)"
    by (intro signed_take_bit_int_eq_self order_trans [OF _ of_nat_0_le_iff]) simp_all
  then show ?thesis by (simp add: to_int32_def sint_uint u)
qed

lemma to_unsigned_small:
  assumes "unat w < 2 ^ 32"
  shows "to_unsigned w = w"
proof -
  from assms have "take_bit 32 (unat w) = unat w"
    by (simp only: take_bit_nat_eq_self_iff)
  then have "unat (take_bit 32 w) = unat w" by (simp only: unsigned_take_bit_eq)
  then have "take_bit 32 w = w" by (simp only: word_unat_eq_iff)
  moreover have "to_unsigned w = take_bit 32 w"
    by (rule bit_word_eqI) (auto simp: to_unsigned_def bit_ucast_iff bit_take_bit_iff)
  ultimately show ?thesis by simp
qed

end
