(* ===== verification/Curl.thy ===== *)
theory Curl
  imports Buffers Stacks CStrings Xml_Types Posix
begin

text \<open>
  common/opts.h, common/wrapper/curl.h and curl.c: requests to libcurl with errors turned
  into exceptions, and the pool of easy handles. libcurl, the allocator and everything on
  the other side of the network are parameters: a record \<open>libs\<close> of functions on a state of
  unspecified type \<open>'w\<close>. The record of options set on a handle, that a reset clears them, and the
  way libcurl runs the callbacks of a transfer are the documented interface.
\<close>

subsection \<open>Options of the file system (opts.h)\<close>

record networkfs_opts =
  baseurl :: "addr option"
  username :: "string option"
  password :: "string option"
  use_ssl :: int
  ssl_version :: int
  ip_version :: int
  uid :: u32
  gid :: u32
  fmask :: u32
  dmask :: u32
  interface :: "string option"
  timeout :: int
  connect_timeout :: int
  initial_timeout :: int
  no_verify_hostname :: bool
  no_verify_peer :: bool
  cert :: "string option"
  cert_type :: "string option"
  key :: "string option"
  key_type :: "string option"
  key_password :: "string option"
  engine :: "string option"
  cacert :: "string option"
  capath :: "string option"
  ciphers :: "string option"
  proxy :: "string option"
  proxy_userpwd :: "string option"
  proxytype :: int
  proxyauth :: int
  proxytunnel :: bool
  use_lock :: bool

subsection \<open>libcurl\<close>

text \<open>Values of options: strings and numbers, header lists, the buffer behind
  \<open>CURLOPT_READDATA\<close>, the callbacks by name, and pointers to variables of the caller.\<close>

datatype callback =
  CB_Buffer_append | CB_Buffer_fetch | CB_curl_parse_xml
| CB_dav_head_callback | CB_dav_lock_callback | CB_dav_options_callback

datatype optval =
  VStr "string option" | VLong int | VList "string list" | VBuf Buffer | VFun callback | VPtr

type_synonym easy_opts = "CURLoption \<rightharpoonup> optval"

record request =
  rq_opts :: easy_opts
  rq_body :: string

text \<open>What libcurl does for one request: the header lines and pieces of the body it hands to
  the callbacks, its result when the callbacks take all of them and when one does not, and
  what \<open>curl_easy_getinfo\<close> reports afterwards.\<close>

record transfer =
  t_headers :: "string list"
  t_chunks :: "string list"
  t_code :: int
  t_abort :: int
  t_response_code :: int
  t_effective_url :: string
  t_redirect_url :: "string option"

record 'w libs =
  lib_malloc :: "'w \<Rightarrow> bool \<times> 'w"
  lib_easy_init :: "'w \<Rightarrow> bool \<times> 'w"
  lib_setopt :: "CURLoption \<Rightarrow> optval \<Rightarrow> 'w \<Rightarrow> int \<times> 'w"
  lib_perform :: "request \<Rightarrow> 'w \<Rightarrow> transfer \<times> 'w"
  lib_slist_append :: "string list \<Rightarrow> string \<Rightarrow> 'w \<Rightarrow> bool \<times> 'w"
  lib_url_new :: "'w \<Rightarrow> addr option \<times> 'w"
  lib_url_dup :: "addr \<Rightarrow> 'w \<Rightarrow> addr option \<times> 'w"
  lib_url_free :: "addr option \<Rightarrow> 'w \<Rightarrow> 'w"
  lib_url_set :: "addr \<Rightarrow> CURLUPart \<Rightarrow> string option \<Rightarrow> nat \<Rightarrow> 'w \<Rightarrow> CURLUcode \<times> 'w"
  lib_url_get :: "addr \<Rightarrow> CURLUPart \<Rightarrow> 'w \<Rightarrow> (CURLUcode \<times> string) \<times> 'w"
  lib_unescape :: "string \<Rightarrow> 'w \<Rightarrow> string option \<times> 'w"
  lib_xml_create :: "string \<Rightarrow> 'w \<Rightarrow> bool \<times> 'w"
  lib_xml_chunk :: "string \<Rightarrow> 'w \<Rightarrow> bool \<times> 'w"
  lib_xml_doc :: "string list \<Rightarrow> xml option"
  lib_time :: "string \<Rightarrow> string \<Rightarrow> int option"
  lib_chunk :: u64
  lib_uninit :: int
  lib_uninit_bytes :: "nat \<Rightarrow> string"
  lib_uninit_stat :: stat

text \<open>The \<open>xml\<close> functions are libxml's push parser: whether a parser context can be created for
  a first piece, whether a further piece is accepted, and the root of the document made of all
  pieces if it is well formed. \<open>lib_time fmt s\<close> is \<open>strptime\<close> followed by
  \<open>mktime(&tm) - timezone\<close>. \<open>lib_chunk\<close> is the amount libcurl asks the read callback for, \<open>lib_uninit\<close> the value a
  variable of type \<open>int\<close> happens to hold before it is assigned, \<open>lib_uninit_bytes n\<close> and
  \<open>lib_uninit_stat\<close> the same for an array of \<open>n\<close> bytes and for a \<open>struct stat\<close>.\<close>

text \<open>The state of the program as far as this component goes: the thread's exception, the state
  of the libraries, the pool of handles, the live easy handles with the options set on them,
  the last transfer of each handle, and the next unused address.\<close>

record 'w world = exw +
  lib :: 'w
  pool :: "addr stackw"
  easy :: "addr \<rightharpoonup> easy_opts"
  last_transfer :: "addr \<Rightarrow> transfer"
  next_addr :: addr

text \<open>Running an operation of the stack on the pool.\<close>

definition on_pool :: "(addr stackw, 'r) stmt \<Rightarrow> (('w, 'a) world_scheme, 'r) stmt" where
  "on_pool f g = (case f (pool g) of (fl, p) \<Rightarrow> (fl, g\<lparr>pool := p\<rparr>))"

text \<open>A library function that returns a value and may change the libraries' state.\<close>

definition lib_call :: "('w \<Rightarrow> 'v \<times> 'w) \<Rightarrow> (('w, 'a) world_scheme, 'v) stmt" where
  "lib_call f g = (case f (lib g) of (v, w) \<Rightarrow> (Ret v, g\<lparr>lib := w\<rparr>))"

subsection \<open>Exceptions of curl.h and curl.c\<close>

definition CurlException_init :: "exception \<Rightarrow> int \<Rightarrow> CURLaction \<Rightarrow> CURLoption \<Rightarrow> int \<Rightarrow> exception" where
  "CurlException_init e code action opt response_code =
     (let e1 = (Exception_init e)\<lparr>ex_code := code, ex_action := action, ex_vtable := Some CurlException_vt\<rparr>
      in case action of
           CURL_SETOPT \<Rightarrow> e1\<lparr>ex_option := opt\<rparr>
         | CURL_PERFORM \<Rightarrow>
             if code = CURLE_HTTP_RETURNED_ERROR then e1\<lparr>ex_response_code := response_code\<rparr> else e1
         | _ \<Rightarrow> e1)"

definition CurlUrlException_init :: "exception \<Rightarrow> CURLUcode \<Rightarrow> CURLUaction \<Rightarrow> CURLUPart \<Rightarrow> exception" where
  "CurlUrlException_init e code action part =
     (let e1 = (Exception_init e)\<lparr>ex_ucode := code, ex_uaction := action, ex_vtable := Some CurlUrlException_vt\<rparr>
      in if action = CURLU_SET \<or> action = CURLU_GET then e1\<lparr>ex_part := part\<rparr> else e1)"

subsection \<open>Options and transfers\<close>

definition curl_easy_setopt ::
  "'w libs \<Rightarrow> addr \<Rightarrow> CURLoption \<Rightarrow> optval \<Rightarrow> (('w, 'a) world_scheme, int) stmt" where
  "curl_easy_setopt L h opt v g =
     (case lib_setopt L opt v (lib g) of (code, w) \<Rightarrow>
        (Ret code, g\<lparr>lib := w,
           easy := (if code = CURLE_OK then (easy g)(h := map_option (\<lambda>m. m(opt \<mapsto> v)) (easy g h))
                    else easy g)\<rparr>))"

definition curl_easy_setopt_or_die ::
  "'w libs \<Rightarrow> addr \<Rightarrow> CURLoption \<Rightarrow> optval \<Rightarrow> ('l \<times> ('w, 'a) world_scheme, 'r) stmt" where
  "curl_easy_setopt_or_die L h opt v =
     call (curl_easy_setopt L h opt v) (\<lambda>code.
       condition_throw (\<lambda>_. code = CURLE_OK) (set_ex (\<lambda>e. CurlException_init e code CURL_SETOPT opt 0)))"

text \<open>The bytes an upload sends: what the read callback returns until it returns 0.\<close>

definition upload_body :: "'w libs \<Rightarrow> easy_opts \<Rightarrow> (('w, 'a) world_scheme, string) stmt" where
  "upload_body L opts =
     (case opts CURLOPT_READDATA of
        Some (VBuf b) \<Rightarrow>
          fn () (call (drain (Suc (length (bdata b))) Buffer_fetch (lib_chunk L) b) (\<lambda>r.
            case r of None \<Rightarrow> halt Blocked | Some (s, _) \<Rightarrow> ret s))
      | _ \<Rightarrow> ret [])"

type_synonym ('l, 'w, 'a) data_callback =
  "string \<Rightarrow> u64 \<Rightarrow> 'l \<Rightarrow> (('w, 'a) world_scheme, u64 \<times> 'l) stmt"

text \<open>A callback that is not set.\<close>

definition no_callback :: "('l, 'w, 'a) data_callback" where
  "no_callback c n l = ret (n, l)"

definition callback_for :: "easy_opts \<Rightarrow> CURLoption \<Rightarrow> ('l, 'w, 'a) data_callback \<Rightarrow> ('l, 'w, 'a) data_callback" where
  "callback_for opts opt cb = (if opts opt = None then no_callback else cb)"

text \<open>\<open>curl_easy_perform\<close>: libcurl reads the upload, runs the request, gives the header lines to
  the header callback and the body to the write callback, if these are set, and returns its
  result, or the result of an aborted transfer when a callback took less than it was given.\<close>

definition curl_easy_perform ::
  "'w libs \<Rightarrow> addr \<Rightarrow> ('l, 'w, 'a) data_callback \<Rightarrow> ('l, 'w, 'a) data_callback \<Rightarrow> 'l \<Rightarrow>
   (('w, 'a) world_scheme, int \<times> 'l) stmt" where
  "curl_easy_perform L h hcb wcb l0 =
     fn l0 (reads (\<lambda>(l, g). easy g h) (\<lambda>m. case m of
        None \<Rightarrow> halt Segv
      | Some opts \<Rightarrow>
          call (upload_body L opts) (\<lambda>body.
          call (lib_call (lib_perform L \<lparr>rq_opts = opts, rq_body = body\<rparr>)) (\<lambda>t. block [
            setg (\<lambda>g. g\<lparr>last_transfer := (last_transfer g)(h := t)\<rparr>),
            reads fst (\<lambda>l. call (feed (callback_for opts CURLOPT_HEADERFUNCTION hcb) (t_headers t) l) (\<lambda>(ok, l1). block [
              setl (\<lambda>_. l1),
              whenc (\<lambda>_. \<not> ok) (ret (t_abort t, l1)),
              call (feed (callback_for opts CURLOPT_WRITEFUNCTION wcb) (t_chunks t) l1) (\<lambda>(ok, l2). block [
                setl (\<lambda>_. l2),
                ret (if ok then t_code t else t_abort t, l2)])]))]))))"

definition curl_easy_perform_or_die ::
  "'w libs \<Rightarrow> addr \<Rightarrow> ('l, 'w, 'a) data_callback \<Rightarrow> ('l, 'w, 'a) data_callback \<Rightarrow>
   ('l \<times> ('w, 'a) world_scheme, 'r) stmt" where
  "curl_easy_perform_or_die L h hcb wcb =
     reads fst (\<lambda>l. call (curl_easy_perform L h hcb wcb l) (\<lambda>(code, l'). block [
       setl (\<lambda>_. l'),
       condition_throw (\<lambda>_. code = CURLE_OK)
         (reads (\<lambda>(l, g). t_response_code (last_transfer g h)) (\<lambda>rc.
            set_ex (\<lambda>e. CurlException_init e code CURL_PERFORM CURLOPT_URL rc)))]))"

subsection \<open>Header lists and URLs\<close>

definition curl_slist_append_e ::
  "'w libs \<Rightarrow> string list \<Rightarrow> string \<Rightarrow> (('w, 'a) world_scheme, string list) stmt" where
  "curl_slist_append_e L list s =
     fn () (call (lib_call (lib_slist_append L list s)) (\<lambda>ok.
       if ok then ret (list @ [s])
       else block [set_ex (\<lambda>e. CurlException_init e 0 CURL_SLIST_APPEND CURLOPT_URL 0), ret []]))"

definition curl_slist_append_weak ::
  "'w libs \<Rightarrow> string list \<Rightarrow> string \<Rightarrow> (('w, 'a) world_scheme, string list) stmt" where
  "curl_slist_append_weak L list s =
     fn () (call (lib_call (lib_slist_append L list s)) (\<lambda>ok. ret (if ok then list @ [s] else list)))"

definition curl_easy_unescape_e :: "'w libs \<Rightarrow> string \<Rightarrow> (('w, 'a) world_scheme, string option) stmt" where
  "curl_easy_unescape_e L s =
     fn () (call (lib_call (lib_unescape L s)) (\<lambda>r. block [
       whenc (\<lambda>_. r = None) (set_ex (\<lambda>e. CurlException_init e 0 CURL_UNESCAPE CURLOPT_URL 0)),
       ret r]))"

definition curl_url_dup_e :: "'w libs \<Rightarrow> addr \<Rightarrow> (('w, 'a) world_scheme, addr option) stmt" where
  "curl_url_dup_e L u =
     fn () (call (lib_call (lib_url_dup L u)) (\<lambda>r. block [
       whenc (\<lambda>_. r = None) (set_ex (\<lambda>e. CurlUrlException_init e CURLUE_OK CURLU_DUP CURLUPART_URL)),
       ret r]))"

definition curl_url_e :: "'w libs \<Rightarrow> (('w, 'a) world_scheme, addr option) stmt" where
  "curl_url_e L =
     fn () (call (lib_call (lib_url_new L)) (\<lambda>r. block [
       whenc (\<lambda>_. r = None) (set_ex (\<lambda>e. CurlUrlException_init e CURLUE_OK CURLU_INIT CURLUPART_URL)),
       ret r]))"

definition curl_url_cleanup :: "'w libs \<Rightarrow> addr option \<Rightarrow> (('w, 'a) world_scheme, unit) stmt" where
  "curl_url_cleanup L u = lib_call (\<lambda>w. ((), lib_url_free L u w))"

text \<open>\<open>curl_url_set_or_die\<close> and \<open>curl_url_get_or_die\<close>; the latter stores the part by the
  statement \<open>store\<close>.\<close>

definition curl_url_set_or_die ::
  "'w libs \<Rightarrow> addr \<Rightarrow> CURLUPart \<Rightarrow> string option \<Rightarrow> nat \<Rightarrow> ('l \<times> ('w, 'a) world_scheme, 'r) stmt" where
  "curl_url_set_or_die L u part content flags =
     call (lib_call (lib_url_set L u part content flags)) (\<lambda>code.
       ife (\<lambda>_. code = CURLUE_OK) skip (throw (set_ex (\<lambda>e. CurlUrlException_init e code CURLU_SET part))))"

definition curl_url_get_or_die ::
  "'w libs \<Rightarrow> addr \<Rightarrow> CURLUPart \<Rightarrow> (string \<Rightarrow> ('l \<times> ('w, 'a) world_scheme, 'r) stmt) \<Rightarrow>
   ('l \<times> ('w, 'a) world_scheme, 'r) stmt" where
  "curl_url_get_or_die L u part store =
     call (lib_call (lib_url_get L u part)) (\<lambda>(code, s).
       ife (\<lambda>_. code = CURLUE_OK) (store s)
         (throw (set_ex (\<lambda>e. CurlUrlException_init e code CURLU_GET part))))"

text \<open>\<open>scope (CURLU, u, url) body\<close>.\<close>

definition scope_CURLU ::
  "'w libs \<Rightarrow> addr \<Rightarrow> (addr \<Rightarrow> ('l \<times> ('w, 'a) world_scheme, 'r) stmt) \<Rightarrow>
   ('l \<times> ('w, 'a) world_scheme, 'r) stmt" where
  "scope_CURLU L url body =
     call (curl_url_dup_e L url) (\<lambda>u.
       with_test skip (\<lambda>s. \<not> has_ex s) (exec (curl_url_cleanup L u))
         (case u of None \<Rightarrow> halt Segv | Some u' \<Rightarrow> body u'))"

subsection \<open>Handles: curl_easy_init_common and curl_easy_cleanup_common\<close>

definition curl_easy_init :: "'w libs \<Rightarrow> (('w, 'a) world_scheme, addr option) stmt" where
  "curl_easy_init L g =
     (case lib_easy_init L (lib g) of (ok, w) \<Rightarrow>
        if ok then (Ret (Some (next_addr g)),
                    g\<lparr>lib := w, easy := (easy g)(next_addr g \<mapsto> Map.empty), next_addr := Suc (next_addr g)\<rparr>)
        else (Ret None, g\<lparr>lib := w\<rparr>))"

definition curl_easy_cleanup :: "addr option \<Rightarrow> ('w, 'a) world_scheme \<Rightarrow> ('w, 'a) world_scheme" where
  "curl_easy_cleanup h g = (case h of None \<Rightarrow> g | Some a \<Rightarrow> g\<lparr>easy := (easy g)(a := None)\<rparr>)"

text \<open>Path handling of \<open>curl_easy_init_common\<close>: one leading slash is dropped, and an empty rest
  leaves the base URL alone.\<close>

definition relative_path :: "string option \<Rightarrow> string option" where
  "relative_path path =
     (case path of
        None \<Rightarrow> None
      | Some p \<Rightarrow> (let q = (if p \<noteq> [] \<and> hd p = CHR ''/'' then tl p else p)
                   in if q = [] then None else Some q))"

text \<open>The options of the file system, in the order the code sets them; \<open>(True, o, v)\<close> dies on
  failure, \<open>(False, o, v)\<close> ignores it.\<close>

definition common_options :: "networkfs_opts \<Rightarrow> (bool \<times> CURLoption \<times> optval) list" where
  "common_options opt =
     [(True, CURLOPT_USERNAME, VStr (username opt)), (True, CURLOPT_PASSWORD, VStr (password opt))] @
     (if interface opt \<noteq> None then [(True, CURLOPT_INTERFACE, VStr (interface opt))] else []) @
     (if ip_version opt \<noteq> 0 then [(False, CURLOPT_IPRESOLVE, VLong (ip_version opt))] else []) @
     (if proxy opt \<noteq> None then
        [(True, CURLOPT_PROXY, VStr (proxy opt))] @
        (if proxytype opt \<noteq> 0 then [(True, CURLOPT_PROXYTYPE, VLong (proxytype opt))] else []) @
        (if proxyauth opt \<noteq> 0 then [(True, CURLOPT_PROXYAUTH, VLong (proxyauth opt))] else []) @
        (if proxytunnel opt then [(False, CURLOPT_HTTPPROXYTUNNEL, VLong 1)] else []) @
        [(True, CURLOPT_PROXYUSERPWD, VStr (proxy_userpwd opt))]
      else []) @
     (if use_ssl opt \<noteq> 0 then
        [(True, CURLOPT_USE_SSL, VLong (use_ssl opt))] @
        (if ssl_version opt \<noteq> 0 then [(True, CURLOPT_SSLVERSION, VLong (ssl_version opt))] else []) @
        (if no_verify_hostname opt then [(True, CURLOPT_SSL_VERIFYHOST, VLong 1)] else []) @
        (if no_verify_peer opt then [(False, CURLOPT_SSL_VERIFYPEER, VLong 0)] else []) @
        (if cacert opt \<noteq> None then [(True, CURLOPT_CAINFO, VStr (cacert opt))] else []) @
        (if capath opt \<noteq> None then [(True, CURLOPT_CAPATH, VStr (capath opt))] else []) @
        (if ciphers opt \<noteq> None then [(True, CURLOPT_SSL_CIPHER_LIST, VStr (ciphers opt))] else []) @
        [(True, CURLOPT_SSLCERT, VStr (cert opt)), (True, CURLOPT_SSLCERTTYPE, VStr (cert_type opt)),
         (True, CURLOPT_SSLKEY, VStr (key opt)), (True, CURLOPT_SSLKEYTYPE, VStr (key_type opt)),
         (True, CURLOPT_SSLKEYPASSWD, VStr (key_password opt))]
      else []) @
     (if timeout opt \<noteq> 0 then [(True, CURLOPT_TIMEOUT, VLong (timeout opt))] else []) @
     (if connect_timeout opt \<noteq> 0 then [(True, CURLOPT_CONNECTTIMEOUT, VLong (connect_timeout opt))] else [])"

definition fixed_options :: "(bool \<times> CURLoption \<times> optval) list" where
  "fixed_options =
     [(True, CURLOPT_USERAGENT, VStr (Some ''networkfs/0.0'')), (False, CURLOPT_FAILONERROR, VLong 1),
      (False, CURLOPT_FOLLOWLOCATION, VLong 1), (False, CURLOPT_NETRC, VLong 1)]"

definition set_options ::
  "'w libs \<Rightarrow> addr \<Rightarrow> (bool \<times> CURLoption \<times> optval) list \<Rightarrow> ('l \<times> ('w, 'a) world_scheme, 'r) stmt" where
  "set_options L h os =
     block (map (\<lambda>(die, opt, v).
       if die then curl_easy_setopt_or_die L h opt v else exec (curl_easy_setopt L h opt v)) os)"

text \<open>\<open>curl_easy_init_common\<close>; the local variable is \<open>this\<close>.\<close>

definition take_handle :: "'w libs \<Rightarrow> (addr option \<times> ('w, 'a) world_scheme, 'r) stmt" where
  "take_handle L =
     call (on_pool Stack_pop) (\<lambda>node. case node of
        Some a \<Rightarrow> reads (\<lambda>(l, g). nodes (pool g) a) (\<lambda>n. case n of
            None \<Rightarrow> halt Segv
          | Some nd \<Rightarrow> block [
              setl (\<lambda>_. Some (nd_value nd)),
              setg (\<lambda>g. g\<lparr>pool := (pool g)\<lparr>nodes := (nodes (pool g))(a := None)\<rparr>,
                easy := (easy g)(nd_value nd \<mapsto> Map.empty)\<rparr>)])
      | None \<Rightarrow> call (curl_easy_init L) (\<lambda>h. block [
          setl (\<lambda>_. h),
          condition_throw (\<lambda>_. h \<noteq> None) (set_ex (\<lambda>e. CurlException_init e 0 CURL_INIT CURLOPT_URL 0))]))"

definition set_url :: "'w libs \<Rightarrow> addr \<Rightarrow> addr \<Rightarrow> string option \<Rightarrow> ('l \<times> ('w, 'a) world_scheme, 'r) stmt" where
  "set_url L h url path =
     throwable (scope_CURLU L url (\<lambda>clean_url. block [
       (case relative_path path of
          None \<Rightarrow> skip
        | Some p \<Rightarrow> curl_url_set_or_die L clean_url CURLUPART_URL (Some p) CURLU_URLENCODE),
       throwable (call (lib_call (lib_url_get L clean_url CURLUPART_URL)) (\<lambda>(code, s_url).
         with_seperated
           (ife (\<lambda>_. code = CURLUE_OK) skip
             (throw (set_ex (\<lambda>e. CurlUrlException_init e code CURLU_GET CURLUPART_URL))))
           skip
           (curl_easy_setopt_or_die L h CURLOPT_URL (VStr (Some s_url)))))]))"

definition curl_easy_init_common ::
  "'w libs \<Rightarrow> addr \<Rightarrow> string option \<Rightarrow> networkfs_opts option \<Rightarrow> (('w, 'a) world_scheme, addr option) stmt" where
  "curl_easy_init_common L url path options =
     fn None (block [
       try_catch (block [
         take_handle L,
         reads fst (\<lambda>this. case this of None \<Rightarrow> halt Segv | Some h \<Rightarrow> block [
           exec (curl_easy_setopt L h CURLOPT_ERRORBUFFER VPtr),
           set_url L h url path,
           set_options L h (case options of None \<Rightarrow> [] | Some opt \<Rightarrow> common_options opt),
           set_options L h fixed_options])])
         [onerror (reads fst (\<lambda>this. block [setg (curl_easy_cleanup this), setl (\<lambda>_. None)]))],
       reads fst ret])"

definition curl_easy_cleanup_common :: "'w libs \<Rightarrow> addr option \<Rightarrow> (('w, 'a) world_scheme, unit) stmt" where
  "curl_easy_cleanup_common L this =
     (case this of
        None \<Rightarrow> ret ()
      | Some h \<Rightarrow> fn () (call (lib_call (lib_malloc L)) (\<lambda>ok.
          if \<not> ok then block [setg (curl_easy_cleanup (Some h)), ret ()]
          else reads (\<lambda>(l, g). next_addr g) (\<lambda>node. block [
            setg (\<lambda>g. g\<lparr>next_addr := Suc node,
              pool := (pool g)\<lparr>nodes := (nodes (pool g))(node \<mapsto> \<lparr>nd_next = None, nd_value = h\<rparr>)\<rparr>\<rparr>),
            exec (on_pool (Stack_push node)),
            ret ()]))))"

text \<open>\<open>with_curl(curl, baseuh, path, options) body\<close>.\<close>

definition with_curl ::
  "'w libs \<Rightarrow> addr \<Rightarrow> string option \<Rightarrow> networkfs_opts \<Rightarrow> (addr \<Rightarrow> ('l \<times> ('w, 'a) world_scheme, 'r) stmt) \<Rightarrow>
   ('l \<times> ('w, 'a) world_scheme, 'r) stmt" where
  "with_curl L baseuh path options body =
     call (curl_easy_init_common L baseuh path (Some options)) (\<lambda>curl.
       with_test skip (\<lambda>s. \<not> has_ex s) (exec (curl_easy_cleanup_common L curl))
         (case curl of None \<Rightarrow> halt Segv | Some h \<Rightarrow> body h))"

end
