(* ===== verification/Dav_State.thy ===== *)
theory Dav_State
  imports Curl
begin

text \<open>
  The state of the WebDAV client (proto/dav/method.h, the head of method.c): the server
  record, the table of file locks with its read-write lock, and the operations on them
  that the methods are made of.
\<close>

subsection \<open>Data\<close>

datatype dav_method_name =
  OPTIONS | GET | HEAD | POST | PUT | DELETE | TRACE | COPY | MOVE | MKCOL | PROPFIND
| PROPPATCH | LOCK | UNLOCK | ORDERPATCH

datatype LockType = RW_LOCK_NONE | RW_LOCK_READ | RW_LOCK_WRITE

text \<open>\<open>struct FileLock\<close>; a token is a \<open>SimpleString\<close>, its length and bytes.\<close>

record FileLock =
  fl_path :: "string option"
  fl_token :: "string option"
  fl_cnt :: int

text \<open>\<open>struct DavServer\<close>. \<open>sv_tree\<close> is the search tree of \<open>tsearch\<close>, which finds a lock by
  the path it holds: an association list from paths to lock objects, which live on the heap
  \<open>locks\<close>. The read-write lock is the number of readers and whether there is a writer.\<close>

record 'w davw = "'w world" +
  sv_baseuh :: addr
  sv_options :: networkfs_opts
  sv_tree :: "(string \<times> addr) list"
  sv_readers :: nat
  sv_writer :: bool
  sv_server :: "string option"
  sv_version :: "string option"
  sv_allow :: "dav_method_name \<Rightarrow> bool"
  locks :: "addr \<rightharpoonup> FileLock"

text \<open>The variables of the functions of method.c that are assigned in nested blocks.\<close>

record dframe =
  f_list :: "string list"
  f_buf :: Buffer
  f_size :: u64
  f_res :: int
  f_token :: "string option"
  f_ctxt :: "string list option"
  f_fill :: "(string \<times> stat option) list"

definition dframe0 :: "'w libs \<Rightarrow> dframe" where
  "dframe0 L = \<lparr>f_list = [], f_buf = Buffer_init_exist [] 0 False, f_size = 0, f_res = lib_uninit L,
     f_token = None, f_ctxt = None, f_fill = []\<rparr>"

subsection \<open>The search tree\<close>

definition tfind :: "string \<Rightarrow> (string \<times> addr) list \<Rightarrow> addr option" where
  "tfind path t = map_of t path"

definition tsearch :: "string \<Rightarrow> addr \<Rightarrow> (string \<times> addr) list \<Rightarrow> (string \<times> addr) list" where
  "tsearch path a t = (if tfind path t = None then (path, a) # t else t)"

definition tdelete :: "string \<Rightarrow> (string \<times> addr) list \<Rightarrow> (string \<times> addr) list" where
  "tdelete path t = filter (\<lambda>(p, _). p \<noteq> path) t"

subsection \<open>The read-write lock\<close>

text \<open>\<open>while (pthread_rwlock_rdlock(lock));\<close> and its kin: a lock that cannot be granted blocks
  the thread for ever unless another thread gives it back.\<close>

definition rw_rdlock :: "('l \<times> ('w, 'a) davw_scheme, 'r) stmt" where
  "rw_rdlock = ife (\<lambda>(l, g). sv_writer g) (halt Blocked) (setg (\<lambda>g. g\<lparr>sv_readers := Suc (sv_readers g)\<rparr>))"

definition rw_wrlock :: "('l \<times> ('w, 'a) davw_scheme, 'r) stmt" where
  "rw_wrlock = ife (\<lambda>(l, g). sv_writer g \<or> 0 < sv_readers g) (halt Blocked) (setg (\<lambda>g. g\<lparr>sv_writer := True\<rparr>))"

definition rw_unlock :: "('l \<times> ('w, 'a) davw_scheme, 'r) stmt" where
  "rw_unlock = setg (\<lambda>g. if sv_writer g then g\<lparr>sv_writer := False\<rparr> else g\<lparr>sv_readers := sv_readers g - 1\<rparr>)"

definition synchronized_rdlock :: "('l \<times> ('w, 'a) davw_scheme, 'r) stmt \<Rightarrow> ('l \<times> ('w, 'a) davw_scheme, 'r) stmt" where
  "synchronized_rdlock body = with_test rw_rdlock (\<lambda>_. True) rw_unlock body"

definition synchronized_wrlock :: "('l \<times> ('w, 'a) davw_scheme, 'r) stmt \<Rightarrow> ('l \<times> ('w, 'a) davw_scheme, 'r) stmt" where
  "synchronized_wrlock body = with_test rw_wrlock (\<lambda>_. True) rw_unlock body"

subsection \<open>Header lists as scopes\<close>

definition scope_slist ::
  "'w libs \<Rightarrow> string option \<Rightarrow> (dframe \<times> ('w, 'a) world_scheme, 'r) stmt \<Rightarrow> (dframe \<times> ('w, 'a) world_scheme, 'r) stmt" where
  "scope_slist L first body =
     with_test
       (case first of
          None \<Rightarrow> setl (\<lambda>f. f\<lparr>f_list := []\<rparr>)
        | Some s \<Rightarrow> call (curl_slist_append_e L [] s) (\<lambda>l. setl (\<lambda>f. f\<lparr>f_list := l\<rparr>)))
       (\<lambda>s. \<not> has_ex s) (setl (\<lambda>f. f\<lparr>f_list := []\<rparr>)) body"

text \<open>Assigning the result of a function to \<open>list\<close>.\<close>

definition assign_list ::
  "(string list \<Rightarrow> ('g, string list) stmt) \<Rightarrow> (dframe \<times> 'g, 'r) stmt" where
  "assign_list f = reads (\<lambda>s. f_list (fst s)) (\<lambda>l. call (f l) (\<lambda>l'. setl (\<lambda>fr. fr\<lparr>f_list := l'\<rparr>)))"

text \<open>The range header value in its buffer of \<open>sizeof("-") + 2 * 10\<close> bytes.\<close>

definition range_value :: "u64 \<Rightarrow> u64 \<Rightarrow> string" where
  "range_value offset sz = snprintf 22 (sshow (sint offset) @ ''-'' @ sshow (sint (sz + offset - 1)))"

definition with_range ::
  "u64 \<Rightarrow> u64 \<Rightarrow> (string \<Rightarrow> ('l \<times> ('w, 'a) world_scheme, 'r) stmt) \<Rightarrow> ('l \<times> ('w, 'a) world_scheme, 'r) stmt" where
  "with_range offset sz body = with_seperated skip skip (body (range_value offset sz))"

subsection \<open>Laws of the tree\<close>

text \<open>What the lock table relies on.\<close>

locale search_tree =
  fixes find :: "string \<Rightarrow> 't \<Rightarrow> addr option"
    and ins :: "string \<Rightarrow> addr \<Rightarrow> 't \<Rightarrow> 't"
    and del :: "string \<Rightarrow> 't \<Rightarrow> 't"
  assumes find_ins: "find p t = None \<Longrightarrow> find q (ins p a t) = (if q = p then Some a else find q t)"
    and find_del: "find q (del p t) = (if q = p then None else find q t)"
begin

lemma find_del_ins: "find p t = None \<Longrightarrow> find q (del p (ins p a t)) = find q t"
  by (simp add: find_del find_ins)

end

interpretation lock_tree: search_tree tfind tsearch tdelete
proof
  show "tfind p t = None \<Longrightarrow> tfind q (tsearch p a t) = (if q = p then Some a else tfind q t)" for p q a t
    by (simp add: tfind_def tsearch_def)
  show "tfind q (tdelete p t) = (if q = p then None else tfind q t)" for p q t
    by (induction t) (auto simp: tfind_def tdelete_def)
qed

lemma rw_rdlock_simp [flow_simps]:
  "rw_rdlock (l, g) = (if sv_writer g then (Stop Blocked, (l, g))
     else (Next, (l, g\<lparr>sv_readers := Suc (sv_readers g)\<rparr>)))"
  by (simp add: rw_rdlock_def flow_simps)

lemma rw_wrlock_simp [flow_simps]:
  "rw_wrlock (l, g) = (if sv_writer g \<or> 0 < sv_readers g then (Stop Blocked, (l, g))
     else (Next, (l, g\<lparr>sv_writer := True\<rparr>)))"
  by (simp add: rw_wrlock_def flow_simps)

lemma rw_unlock_simp [flow_simps]:
  "rw_unlock (l, g) = (Next, (l, if sv_writer g then g\<lparr>sv_writer := False\<rparr>
     else g\<lparr>sv_readers := sv_readers g - 1\<rparr>))"
  by (simp add: rw_unlock_def flow_simps)

end
