(* ===== verification/Dav_Parser.thy ===== *)
theory Dav_Parser
  imports Dav_State
begin

text \<open>proto/dav/parser.c: times in property nodes, and the write callback that feeds libxml's
  push parser.\<close>

subsection \<open>Definitions\<close>

text \<open>The first attribute named \<open>dt\<close> decides; an unknown format, a missing or malformed time
  give 0.\<close>

fun dt_attribute :: "(string \<times> string option) list \<Rightarrow> string option option" where
  "dt_attribute [] = None"
| "dt_attribute ((n, v) # ps) = (if n = ''dt'' then Some v else dt_attribute ps)"

definition time_format :: "string \<Rightarrow> string option" where
  "time_format format_name =
     (if strscmp_eq format_name ''tz'' then Some ''%FT%TZ''
      else if strscmp_eq format_name ''rfc1123'' then Some ''%a, %d %b %Y %T GMT''
      else None)"

definition first_content :: "xml \<Rightarrow> string option" where
  "first_content n = (case x_children n of [] \<Rightarrow> None | c # _ \<Rightarrow> x_content c)"

definition xmlParserTimeNode :: "'w libs \<Rightarrow> xml \<Rightarrow> int" where
  "xmlParserTimeNode L node =
     (case dt_attribute (x_props node) of
        Some (Some dt) \<Rightarrow>
          if strscmp_eq dt ''dateTime.'' then
            (case time_format (drop 9 dt) of
               None \<Rightarrow> 0
             | Some fmt \<Rightarrow> (case first_content node of
                 None \<Rightarrow> 0
               | Some s \<Rightarrow> (case lib_time L fmt s of None \<Rightarrow> 0 | Some t \<Rightarrow> t)))
          else 0
      | _ \<Rightarrow> 0)"

definition curl_parse_xml :: "'w libs \<Rightarrow> (dframe, 'w, 'a) data_callback" where
  "curl_parse_xml L ptr nmemb fr =
     fn fr (block [
       whenc (\<lambda>_. nmemb = 0) (ret (nmemb, fr)),
       try_catch (reads (\<lambda>s. f_ctxt (fst s)) (\<lambda>ctxt. case ctxt of
            None \<Rightarrow> call (lib_call (lib_xml_create L ptr)) (\<lambda>ok. block [
              whenc (\<lambda>_. ok) (setl (\<lambda>f. f\<lparr>f_ctxt := Some [ptr]\<rparr>)),
              condition_throw (\<lambda>_. ok) (set_ex (\<lambda>e. MallocException_init e (Some ''xmlCreatePushParserCtxt'')))])
          | Some cs \<Rightarrow> call (lib_call (lib_xml_chunk L ptr)) (\<lambda>ok. block [
              setl (\<lambda>f. f\<lparr>f_ctxt := Some (cs @ [ptr])\<rparr>),
              whenc (\<lambda>_. \<not> ok) (set_ex (\<lambda>e. MallocException_init e (Some ''xmlParseChunk'')))])))
         [onerror (reads fst (\<lambda>f. ret (0, f)))],
       reads fst (\<lambda>f. ret (nmemb, f))])"

end
