(* ===== verification/Dav_Methods.thy ===== *)
theory Dav_Methods
  imports Dav_Parser
begin

text \<open>
  proto/dav/method.c without \<open>dav_propfind\<close>: one function per WebDAV method, the table of
  file locks and the negotiation with the server. The functions get the server record from
  the state; \<open>L\<close> is the record of library functions.
\<close>

type_synonym ('w, 'a, 'r) davf = "(('w, 'a) davw_scheme, 'r) stmt"
type_synonym ('w, 'a, 'r) davs = "(dframe \<times> ('w, 'a) davw_scheme, 'r) stmt"

subsection \<open>Common parts\<close>

definition CONTENT_TYPE_XML :: string where
  "CONTENT_TYPE_XML = ''Content-Type: application/xml; charset='' @ [char_of (34::nat)] @ ''utf-8'' @ [char_of (34::nat)]"

definition PREFER_MINIMAL :: string where
  "PREFER_MINIMAL = ''Prefer: return=minimal''"

text \<open>\<open>with_curl (curl, server->baseuh, path, server->options)\<close>.\<close>

definition with_server ::
  "'w libs \<Rightarrow> string option \<Rightarrow> (addr \<Rightarrow> ('l \<times> ('w, 'a) davw_scheme, 'r) stmt) \<Rightarrow> ('l \<times> ('w, 'a) davw_scheme, 'r) stmt" where
  "with_server L path body =
     reads (\<lambda>s. (sv_baseuh (snd s), sv_options (snd s))) (\<lambda>(baseuh, options). with_curl L baseuh path options body)"

definition locking :: "'l \<times> ('w, 'a) davw_scheme \<Rightarrow> bool" where
  "locking s = use_lock (sv_options (snd s))"

text \<open>\<open>return TEST_SUCCESS\<close>.\<close>

definition ret_status :: "('l \<times> 'a exw_scheme, int) stmt" where
  "ret_status = reads (\<lambda>s. TEST_SUCCESS (snd s)) ret"

text \<open>\<open>curl_easy_setopt(curl, option, value)\<close> with the result ignored, and the header list.\<close>

definition setopt :: "'w libs \<Rightarrow> addr \<Rightarrow> CURLoption \<Rightarrow> optval \<Rightarrow> ('l \<times> ('w, 'a) world_scheme, 'r) stmt" where
  "setopt L curl opt v = exec (curl_easy_setopt L curl opt v)"

definition setopt_list :: "'w libs \<Rightarrow> addr \<Rightarrow> (dframe \<times> ('w, 'a) world_scheme, 'r) stmt" where
  "setopt_list L curl = reads (\<lambda>s. f_list (fst s)) (\<lambda>l. setopt L curl CURLOPT_HTTPHEADER (VList l))"

text \<open>The options of a request with a body from a buffer.\<close>

definition setopt_upload :: "'w libs \<Rightarrow> addr \<Rightarrow> Buffer \<Rightarrow> (dframe \<times> ('w, 'a) world_scheme, 'r) stmt" where
  "setopt_upload L curl buf = block [
     setopt L curl CURLOPT_READDATA (VBuf buf),
     setopt L curl CURLOPT_READFUNCTION (VFun CB_Buffer_fetch)]"

text \<open>\<open>with (Buffer buf, Buffer(&buf, data, size, false), Buffer_destory(&buf))\<close> around an upload.\<close>

definition with_buffer :: "string \<Rightarrow> u64 \<Rightarrow> (Buffer \<Rightarrow> ('l \<times> 'a exw_scheme, 'r) stmt) \<Rightarrow> ('l \<times> 'a exw_scheme, 'r) stmt" where
  "with_buffer data sz body = with_seperated skip skip (body (Buffer_init_exist data sz False))"

definition malloc_e :: "'w libs \<Rightarrow> string option \<Rightarrow> (('w, 'a) world_scheme, bool) stmt" where
  "malloc_e L name =
     fn () (call (lib_call (lib_malloc L)) (\<lambda>ok. block [
       whenc (\<lambda>_. \<not> ok) (set_ex (\<lambda>e. MallocException_init e name)), ret ok]))"

subsection \<open>The If header\<close>

definition dav_header_if ::
  "'w libs \<Rightarrow> string list \<Rightarrow> string \<Rightarrow> LockType \<Rightarrow> ('w, 'a, string list) davf" where
  "dav_header_if L list0 path lock_type =
     fn list0 (block [
       reads (\<lambda>s. tfind path (sv_tree (snd s))) (\<lambda>filelock_p. case filelock_p of
          None \<Rightarrow> skip
        | Some filelock \<Rightarrow> do_once (reads (\<lambda>s. locks (snd s) filelock) (\<lambda>fl. case fl of
            None \<Rightarrow> halt Segv
          | Some f \<Rightarrow> (case fl_token f of
              None \<Rightarrow> halt Segv
            | Some token \<Rightarrow> block [
                reads fst (\<lambda>l. call (curl_slist_append_e L l
                    (snprintf (9 + length token) (''If: (<'' @ token @ ''>)''))) (\<lambda>l'. setl (\<lambda>_. l'))),
                whenc (\<lambda>s. fst s = []) brk,
                whenc (\<lambda>_. lock_type = RW_LOCK_WRITE)
                  (setg (\<lambda>g. g\<lparr>sv_tree := tdelete path (sv_tree g), locks := (locks g)(filelock := None)\<rparr>))])))),
       reads fst ret])"

text \<open>\<open>throwable list = __dav_header_if(...)\<close>.\<close>

definition add_if :: "'w libs \<Rightarrow> string \<Rightarrow> LockType \<Rightarrow> ('w, 'a, 'r) davs" where
  "add_if L path lock_type = throwable (assign_list (\<lambda>l. dav_header_if L l path lock_type))"

subsection \<open>Requests without a body\<close>

definition take_rwlock :: "LockType \<Rightarrow> ('l \<times> ('w, 'a) davw_scheme, 'r) stmt" where
  "take_rwlock lock_type = do_once (case lock_type of
     RW_LOCK_NONE \<Rightarrow> brk | RW_LOCK_READ \<Rightarrow> block [rw_rdlock, brk] | RW_LOCK_WRITE \<Rightarrow> block [rw_wrlock, brk])"

definition dav_method :: "'w libs \<Rightarrow> string \<Rightarrow> string \<Rightarrow> LockType \<Rightarrow> ('w, 'a, int) davf" where
  "dav_method L path method lock_type =
     fn (dframe0 L) (block [
       with_server L (Some path) (\<lambda>curl. block [
         whenc (\<lambda>s. locking s \<and> lock_type \<noteq> RW_LOCK_NONE) (take_rwlock lock_type),
         throwable (scope_slist L None (block [
           whenc (\<lambda>s. locking s \<and> lock_type \<noteq> RW_LOCK_NONE) (block [
             add_if L path lock_type,
             setopt_list L curl]),
           curl_easy_setopt_or_die L curl CURLOPT_CUSTOMREQUEST (VStr (Some method)),
           setopt L curl CURLOPT_NOBODY (VLong 1),
           curl_easy_perform_or_die L curl no_callback no_callback])),
         whenc (\<lambda>s. locking s \<and> lock_type \<noteq> RW_LOCK_NONE) rw_unlock]),
       ret_status])"

definition dav_mkcol :: "'w libs \<Rightarrow> string \<Rightarrow> ('w, 'a, int) davf" where
  "dav_mkcol L path = dav_method L path ''MKCOL'' RW_LOCK_NONE"

definition dav_put_simple :: "'w libs \<Rightarrow> string \<Rightarrow> ('w, 'a, int) davf" where
  "dav_put_simple L path = dav_method L path ''PUT'' RW_LOCK_READ"

definition dav_delete :: "'w libs \<Rightarrow> string \<Rightarrow> ('w, 'a, int) davf" where
  "dav_delete L path = dav_method L path ''DELETE'' RW_LOCK_WRITE"

subsection \<open>HEAD\<close>

definition dav_head_callback :: "(dframe, 'w, 'a) data_callback" where
  "dav_head_callback buffer nitems fr =
     fn fr (block [
       whenc (\<lambda>_. strscmp_eq buffer ''Content-Length:'')
         (setl (\<lambda>f. f\<lparr>f_size := word_of_int (fst (strtol 10 (strlstrip (drop 15 buffer))))\<rparr>)),
       reads fst (\<lambda>f. ret (nitems, f))])"

text \<open>\<open>sizep\<close> is \<open>None\<close> for a null pointer and otherwise the value it points to, which is
  returned with the status.\<close>

definition dav_head :: "'w libs \<Rightarrow> string \<Rightarrow> u64 option \<Rightarrow> ('w, 'a, int \<times> u64) davf" where
  "dav_head L path sizep =
     fn ((dframe0 L)\<lparr>f_size := (case sizep of None \<Rightarrow> 0 | Some n \<Rightarrow> n)\<rparr>) (block [
       with_server L (Some path) (\<lambda>curl. block [
         curl_easy_setopt_or_die L curl CURLOPT_CUSTOMREQUEST (VStr (Some ''HEAD'')),
         setopt L curl CURLOPT_NOBODY (VLong 1),
         whenc (\<lambda>_. sizep \<noteq> None) (block [
           setl (\<lambda>f. f\<lparr>f_size := 0\<rparr>),
           setopt L curl CURLOPT_HEADERDATA VPtr,
           setopt L curl CURLOPT_HEADERFUNCTION (VFun CB_dav_head_callback)]),
         curl_easy_perform_or_die L curl dav_head_callback no_callback]),
       reads (\<lambda>s. (TEST_SUCCESS (snd s), f_size (fst s))) ret])"

subsection \<open>GET and PUT\<close>

definition lib_realloc :: "'w libs \<Rightarrow> ('w, 'a) world_scheme \<Rightarrow> bool \<times> ('w, 'a) world_scheme" where
  "lib_realloc L g = (case lib_malloc L (lib g) of (ok, w) \<Rightarrow> (ok, g\<lparr>lib := w\<rparr>))"

definition buffer_callback :: "'w libs \<Rightarrow> (dframe, 'w, 'a) data_callback" where
  "buffer_callback L ptr nmemb fr =
     fn fr (call (Buffer_append (\<lambda>_. lib_realloc L) ptr nmemb (f_buf fr)) (\<lambda>(n, b). ret (n, fr\<lparr>f_buf := b\<rparr>)))"

text \<open>The contents of the caller's memory \<open>data\<close> afterwards are returned with the result.\<close>

definition dav_get :: "'w libs \<Rightarrow> string \<Rightarrow> string \<Rightarrow> u64 \<Rightarrow> u64 \<Rightarrow> ('w, 'a, int \<times> string) davf" where
  "dav_get L path data sz offset =
     fn (dframe0 L) (block [
       with_seperated (setl (\<lambda>f. f\<lparr>f_buf := Buffer_init_exist data sz False\<rparr>)) skip (block [
         with_server L (Some path) (\<lambda>curl. block [
           whenc (\<lambda>_. offset \<noteq> 0 \<or> sz \<noteq> 0)
             (throwable (with_range offset sz (\<lambda>range.
               curl_easy_setopt_or_die L curl CURLOPT_RANGE (VStr (Some range))))),
           setopt L curl CURLOPT_WRITEDATA VPtr,
           setopt L curl CURLOPT_WRITEFUNCTION (VFun CB_Buffer_append),
           curl_easy_perform_or_die L curl no_callback (buffer_callback L)]),
         reads (\<lambda>s. TEST_SUCCESS (snd s)) (\<lambda>t.
           setl (\<lambda>f. f\<lparr>f_res := (if t = 0 then to_int32 (boffset (f_buf f)) else - t)\<rparr>))]),
       reads (\<lambda>s. (f_res (fst s), bdata (f_buf (fst s)))) ret])"

definition dav_put :: "'w libs \<Rightarrow> string \<Rightarrow> string \<Rightarrow> u64 \<Rightarrow> u64 \<Rightarrow> ('w, 'a, int) davf" where
  "dav_put L path data sz offset =
     fn (dframe0 L) (block [
       with_buffer data sz (\<lambda>buf.
         throwable (with_server L (Some path) (\<lambda>curl.
           throwable (scope_slist L None (block [
             whenc locking (block [
               rw_rdlock,
               add_if L path RW_LOCK_READ,
               setopt_list L curl]),
             setopt L curl CURLOPT_UPLOAD (VLong 1),
             setopt_upload L curl buf,
             throwable (with_range offset sz (\<lambda>range.
               curl_easy_setopt_or_die L curl CURLOPT_RANGE (VStr (Some range)))),
             setopt L curl CURLOPT_INFILESIZE (VLong (sint sz)),
             curl_easy_perform_or_die L curl no_callback no_callback,
             whenc locking rw_unlock]))))),
       ret_status])"

subsection \<open>MOVE and COPY\<close>

definition drop_slash :: "string \<Rightarrow> string" where
  "drop_slash path = (if path \<noteq> [] \<and> hd path = CHR ''/'' then tl path else path)"

definition dav_header_destination ::
  "'w libs \<Rightarrow> string list \<Rightarrow> string \<Rightarrow> ('w, 'a, string list) davf" where
  "dav_header_destination L list0 path =
     fn list0 (block [
       try_catch (reads (\<lambda>s. sv_baseuh (snd s)) (\<lambda>baseuh.
         throwable (scope_CURLU L baseuh (\<lambda>path_uh. block [
           curl_url_set_or_die L path_uh CURLUPART_URL (Some (drop_slash path)) CURLU_URLENCODE,
           throwable (call (lib_call (lib_url_get L path_uh CURLUPART_URL)) (\<lambda>(code, path_url).
             with_seperated
               (ife (\<lambda>_. code = CURLUE_OK) skip
                 (throw (set_ex (\<lambda>e. CurlUrlException_init e code CURLU_GET CURLUPART_URL))))
               skip
               (throwable (reads fst (\<lambda>l.
                 call (curl_slist_append_e L l
                   (snprintf (14 + length path_url) (''Destination: '' @ path_url))) (\<lambda>l'.
                   setl (\<lambda>_. l')))))))]))))
         [onerror (ret [])],
       reads fst ret])"

definition dav_move_common :: "'w libs \<Rightarrow> string \<Rightarrow> string \<Rightarrow> bool \<Rightarrow> ('w, 'a, int) davf" where
  "dav_move_common L from to nooverwrite =
     fn (dframe0 L) (block [
       with_server L (Some from) (\<lambda>curl.
         throwable (scope_slist L None (block [
           throwable (assign_list (\<lambda>l. dav_header_destination L l to)),
           whenc (\<lambda>_. nooverwrite)
             (throwable (assign_list (\<lambda>l. curl_slist_append_e L l ''Overwrite: F''))),
           whenc locking (block [
             rw_rdlock,
             whenc (\<lambda>s. tfind from (sv_tree (snd s)) \<noteq> None) (block [
               rw_unlock,
               rw_wrlock,
               add_if L from RW_LOCK_WRITE]),
             add_if L to RW_LOCK_READ]),
           setopt_list L curl,
           curl_easy_setopt_or_die L curl CURLOPT_CUSTOMREQUEST (VStr (Some ''MOVE'')),
           setopt L curl CURLOPT_NOBODY (VLong 1),
           curl_easy_perform_or_die L curl no_callback no_callback,
           whenc locking rw_unlock]))),
       ret_status])"

definition dav_move :: "'w libs \<Rightarrow> string \<Rightarrow> string \<Rightarrow> ('w, 'a, int) davf" where
  "dav_move L from to = dav_move_common L from to False"

definition dav_move_nooverwrite :: "'w libs \<Rightarrow> string \<Rightarrow> string \<Rightarrow> ('w, 'a, int) davf" where
  "dav_move_nooverwrite L from to = dav_move_common L from to True"

definition dav_copy :: "'w libs \<Rightarrow> string \<Rightarrow> string \<Rightarrow> ('w, 'a, int) davf" where
  "dav_copy L from to =
     fn (dframe0 L) (block [
       with_server L (Some from) (\<lambda>curl.
         throwable (scope_slist L None (block [
           throwable (assign_list (\<lambda>l. dav_header_destination L l to)),
           whenc locking (block [
             rw_rdlock,
             add_if L to RW_LOCK_READ]),
           setopt_list L curl,
           curl_easy_setopt_or_die L curl CURLOPT_CUSTOMREQUEST (VStr (Some ''COPY'')),
           setopt L curl CURLOPT_NOBODY (VLong 1),
           curl_easy_perform_or_die L curl no_callback no_callback,
           whenc locking rw_unlock]))),
       ret_status])"

subsection \<open>PROPPATCH\<close>

definition crlf :: string where
  "crlf = [CHR 0x0D, CHR 0x0A]"

definition quoted :: "string \<Rightarrow> string" where
  "quoted s = [char_of (34::nat)] @ s @ [char_of (34::nat)]"

definition xml_head :: string where
  "xml_head = ''<?xml version='' @ quoted ''1.0'' @ '' encoding='' @ quoted ''utf-8'' @ ''?>'' @ crlf"

definition proppatch_text :: "string \<Rightarrow> string \<Rightarrow> string \<Rightarrow> string" where
  "proppatch_text action k value =
     xml_head @
     ''<D:propertyupdate xmlns:D='' @ quoted ''DAV:'' @ '' xmlns:N='' @ quoted ''NETWORKFS:'' @ ''>'' @ crlf @
     ''<D:'' @ action @ ''>'' @ crlf @
     ''<D:prop>'' @ ''<'' @ k @ ''>'' @ value @ ''</'' @ k @ ''>'' @ crlf @
     ''</D:prop>'' @ crlf @ ''</D:'' @ action @ ''>'' @ crlf @ ''</D:propertyupdate>'' @ crlf"

text \<open>The array has \<open>sizeof(template) - 2 * 5 + 2 * strlen("remove") + 2 * strlen(key) + strlen(value)\<close>
  bytes; the template with its five \<open>%s\<close> replaced by nothing is the text with empty
  arguments.\<close>

definition proppatch_body :: "string \<Rightarrow> string option \<Rightarrow> string" where
  "proppatch_body k value =
     snprintf (length (proppatch_text [] [] []) + 2 * 5 + 1 - 2 * 5 + length ''remove'' * 2 +
               length k * 2 + (case value of None \<Rightarrow> 0 | Some v \<Rightarrow> length v))
       (case value of
          None \<Rightarrow> proppatch_text ''remove'' k []
        | Some v \<Rightarrow> proppatch_text ''set'' k v)"

definition dav_proppatch :: "'w libs \<Rightarrow> string \<Rightarrow> string \<Rightarrow> string option \<Rightarrow> ('w, 'a, int) davf" where
  "dav_proppatch L path k value =
     fn (dframe0 L) (block [
       with_buffer (proppatch_body k value) (of_nat (length (proppatch_body k value))) (\<lambda>buf.
         throwable (with_server L (Some path) (\<lambda>curl.
           throwable (scope_slist L (Some CONTENT_TYPE_XML) (block [
             assign_list (\<lambda>l. curl_slist_append_weak L l PREFER_MINIMAL),
             setopt_list L curl,
             setopt L curl CURLOPT_UPLOAD (VLong 1),
             setopt_upload L curl buf,
             setopt L curl CURLOPT_INFILESIZE (VLong (sint (bsize buf))),
             curl_easy_setopt_or_die L curl CURLOPT_CUSTOMREQUEST (VStr (Some ''PROPPATCH'')),
             curl_easy_perform_or_die L curl no_callback no_callback]))))),
       ret_status])"

subsection \<open>LOCK and UNLOCK requests\<close>

definition SimpleString_new :: "'w libs \<Rightarrow> string \<Rightarrow> (('w, 'a) world_scheme, string option) stmt" where
  "SimpleString_new L str =
     fn None (block [
       do_once (call (malloc_e L (Some ''SimpleString'')) (\<lambda>ok. block [
         setl (\<lambda>_. if ok then Some (lib_uninit_bytes L 0) else None),
         check,
         setl (\<lambda>_. Some str)])),
       reads fst ret])"

definition lock_token_of :: "string \<Rightarrow> u64 \<Rightarrow> string" where
  "lock_token_of buffer nitems =
     (let b = strlstrip (drop 11 (strnrstrip buffer (unat nitems)))
      in if b \<noteq> [] \<and> hd b = CHR ''<'' then butlast (tl b) else b)"

definition dav_lock_callback :: "'w libs \<Rightarrow> (dframe, 'w, 'a) data_callback" where
  "dav_lock_callback L buffer nitems fr =
     fn fr (block [
       whenc (\<lambda>s. f_token (fst s) = None \<and> strscmp_eq buffer ''Lock-Token:'')
         (call (SimpleString_new L (lock_token_of buffer nitems)) (\<lambda>t. setl (\<lambda>f. f\<lparr>f_token := t\<rparr>))),
       reads fst (\<lambda>f. ret (nitems, f))])"

definition lock_body :: string where
  "lock_body = xml_head @ ''<D:lockinfo xmlns:D='' @ quoted ''DAV:'' @ ''>'' @ crlf @
     ''<D:lockscope><D:exclusive/></D:lockscope>'' @ crlf @
     ''<D:locktype><D:write/></D:locktype>'' @ crlf @ ''<D:owner>'' @ crlf @
     ''<D:href>https://github.com/yangfl/networkfs/</D:href>'' @ crlf @ ''</D:owner>'' @ crlf @
     ''</D:lockinfo>'' @ crlf"

text \<open>The search below \<open>activelock\<close>: a \<open>timeout\<close>, behind it a \<open>locktoken\<close>, in that the first
  \<open>href\<close>.\<close>

fun scan_activelock :: "xml list \<Rightarrow> xml option \<Rightarrow> xml option \<Rightarrow> xml option \<Rightarrow> xml option \<times> xml option \<times> xml option" where
  "scan_activelock [] tmo locktoken href = (tmo, locktoken, href)"
| "scan_activelock (n # ns) tmo locktoken href =
     (if tmo = None then
        scan_activelock ns (if x_name n = ''timeout'' then Some n else None) locktoken href
      else if locktoken = None then
        (if x_name n = ''locktoken''
         then scan_activelock ns tmo (Some n) (find (\<lambda>m. x_name m = ''href'') (x_children n))
         else scan_activelock ns tmo locktoken href)
      else (tmo, locktoken, href))"

definition scan_lockdiscovery :: "xml \<Rightarrow> xml option \<times> xml option \<times> xml option" where
  "scan_lockdiscovery lockdiscovery =
     (case x_children lockdiscovery of
        [] \<Rightarrow> (None, None, None)
      | n # _ \<Rightarrow> if x_name n = ''activelock'' then scan_activelock (x_children n) None None None
                 else (None, None, None))"

definition unspecified :: "string \<Rightarrow> ('l \<times> 'a exw_scheme, 'r) stmt" where
  "unspecified what = set_ex (\<lambda>e. UnspecifiedException_init e what)"

definition check_lockdiscovery :: "string \<Rightarrow> xml \<Rightarrow> ('l \<times> 'a exw_scheme, 'r) stmt" where
  "check_lockdiscovery token lockdiscovery = block [
     whenc (\<lambda>_. x_name lockdiscovery \<noteq> ''lockdiscovery'') cont,
     (case scan_lockdiscovery lockdiscovery of
        (Some tmo, Some locktoken, Some href) \<Rightarrow>
          if x_children href = [] then halt Segv
          else whenc (\<lambda>_. \<not> (case first_content href of None \<Rightarrow> False | Some c \<Rightarrow> strscmp_eq c token))
                 (throw (unspecified ''lock href mismatched''))
      | _ \<Rightarrow> throw (unspecified ''prop unexpected''))]"

text \<open>\<open>__dav_lock\<close>: the request, what is made of the answer, and the function.\<close>

definition lock_request :: "'w libs \<Rightarrow> string \<Rightarrow> Buffer \<Rightarrow> ('w, 'a, string option) davs" where
  "lock_request L path buf = with_server L (Some path) (\<lambda>curl.
     throwable (scope_slist L (Some ''Timeout: Second-600'') (block [
       assign_list (\<lambda>l. curl_slist_append_weak L l CONTENT_TYPE_XML),
       setopt_list L curl,
       setopt L curl CURLOPT_UPLOAD (VLong 1),
       setopt L curl CURLOPT_HEADERDATA VPtr,
       setopt L curl CURLOPT_HEADERFUNCTION (VFun CB_dav_lock_callback),
       setopt L curl CURLOPT_WRITEDATA VPtr,
       setopt L curl CURLOPT_WRITEFUNCTION (VFun CB_curl_parse_xml),
       setopt_upload L curl buf,
       setopt L curl CURLOPT_INFILESIZE (VLong (sint (bsize buf))),
       curl_easy_setopt_or_die L curl CURLOPT_CUSTOMREQUEST (VStr (Some ''LOCK'')),
       curl_easy_perform_or_die L curl (dav_lock_callback L) (curl_parse_xml L)])))"

definition lock_answer :: "'w libs \<Rightarrow> ('w, 'a, string option) davs" where
  "lock_answer L = block [
     condition_throw (\<lambda>s. f_token (fst s) \<noteq> None) (unspecified (''LOCK doesn'' @ [CHR 0x27] @ ''t return a token'')),
     reads fst (\<lambda>f. case (f_ctxt f, f_token f) of
        (Some cs, Some token) \<Rightarrow> (case lib_xml_doc L cs of
           None \<Rightarrow> throw (unspecified ''Failed to parse'')
         | Some root \<Rightarrow> foreach (check_lockdiscovery token) (x_children root))
      | _ \<Rightarrow> halt Segv)]"

definition dav_lock_raw :: "'w libs \<Rightarrow> string \<Rightarrow> ('w, 'a, string option) davf" where
  "dav_lock_raw L path =
     fn (dframe0 L) (block [
       try_catch (with_buffer lock_body (of_nat (length lock_body)) (\<lambda>buf.
         throwable (with_seperated (setl (\<lambda>f. f\<lparr>f_ctxt := None\<rparr>)) skip (block [
           throwable (lock_request L path buf),
           lock_answer L]))))
         [onerror (setl (\<lambda>f. f\<lparr>f_token := None\<rparr>))],
       reads (\<lambda>s. f_token (fst s)) ret])"

definition dav_unlock_raw :: "'w libs \<Rightarrow> string option \<Rightarrow> string option \<Rightarrow> ('w, 'a, int) davf" where
  "dav_unlock_raw L path token =
     fn (dframe0 L) (block [
       with_server L path (\<lambda>curl. case token of
          None \<Rightarrow> halt Segv
        | Some t \<Rightarrow> throwable (scope_slist L (Some (snprintf (15 + length t) (''Lock-Token: <'' @ t @ ''>''))) (block [
            setopt_list L curl,
            curl_easy_setopt_or_die L curl CURLOPT_CUSTOMREQUEST (VStr (Some ''UNLOCK'')),
            curl_easy_perform_or_die L curl no_callback no_callback]))),
       ret_status])"

subsection \<open>OPTIONS\<close>

fun method_name :: "dav_method_name \<Rightarrow> string" where
  "method_name OPTIONS = ''OPTIONS''" | "method_name GET = ''GET''" | "method_name HEAD = ''HEAD''"
| "method_name POST = ''POST''" | "method_name PUT = ''PUT''" | "method_name DELETE = ''DELETE''"
| "method_name TRACE = ''TRACE''" | "method_name COPY = ''COPY''" | "method_name MOVE = ''MOVE''"
| "method_name MKCOL = ''MKCOL''" | "method_name PROPFIND = ''PROPFIND''"
| "method_name PROPPATCH = ''PROPPATCH''" | "method_name LOCK = ''LOCK''"
| "method_name UNLOCK = ''UNLOCK''" | "method_name ORDERPATCH = ''ORDERPATCH''"

text \<open>The flag of every method named in the tokens is raised.\<close>

definition allow_methods :: "string list \<Rightarrow> (dav_method_name \<Rightarrow> bool) \<Rightarrow> dav_method_name \<Rightarrow> bool" where
  "allow_methods opts f m \<longleftrightarrow> f m \<or> method_name m \<in> set opts"

text \<open>The value of a header line without its name and the \<open>CRLF\<close> at its end.\<close>

definition header_value :: "nat \<Rightarrow> string \<Rightarrow> u64 \<Rightarrow> string" where
  "header_value n buffer nitems = strlstrip (drop n (strnrstrip buffer (unat (nitems - 2))))"

definition dav_options_callback ::
  "'w libs \<Rightarrow> string \<Rightarrow> u64 \<Rightarrow> dframe \<Rightarrow> ('w, 'a, u64 \<times> dframe) davf" where
  "dav_options_callback L buffer nitems fr =
     fn fr (block [
       ife (\<lambda>_. strscmp_eq buffer ''Allow:'')
         (setg (\<lambda>g. g\<lparr>sv_allow := allow_methods (strtok '', '' (header_value 6 buffer nitems)) (sv_allow g)\<rparr>))
         (whenc (\<lambda>_. strscmp_eq buffer ''Server:'')
           (case strchr (header_value 7 buffer nitems) CHR ''/'' of
              None \<Rightarrow> halt Segv
            | Some (server, version) \<Rightarrow>
                call (lib_call (lib_malloc L)) (\<lambda>ok. block [
                  setg (\<lambda>g. g\<lparr>sv_server := (if ok then Some server else None)\<rparr>),
                  call (lib_call (lib_malloc L)) (\<lambda>ok2.
                    setg (\<lambda>g. g\<lparr>sv_version := (if ok2 then Some version else None)\<rparr>))]))),
       ret (nitems, fr)])"

text \<open>\<open>curl_url_set_or_die(server->baseuh, CURLUPART_URL, baseurl, 0)\<close> after a redirect.\<close>

definition follow_redirect :: "'w libs \<Rightarrow> addr \<Rightarrow> (dframe \<times> ('w, 'a) davw_scheme, 'r) stmt" where
  "follow_redirect L curl =
     reads (\<lambda>s. (last_transfer (snd s) curl, sv_baseuh (snd s))) (\<lambda>(t, baseuh).
       whenc (\<lambda>_. t_response_code t div 100 = 3)
         (case t_redirect_url t of
            None \<Rightarrow> skip
          | Some u \<Rightarrow> curl_url_set_or_die L baseuh CURLUPART_URL (Some u) 0))"

definition dav_options :: "'w libs \<Rightarrow> ('w, 'a, int) davf" where
  "dav_options L =
     fn (dframe0 L) (block [
       try_catch (block [
         throwable (with_server L None (\<lambda>curl. block [
           reads (\<lambda>s. initial_timeout (sv_options (snd s))) (\<lambda>t.
             whenc (\<lambda>_. t \<noteq> 0) (curl_easy_setopt_or_die L curl CURLOPT_TIMEOUT (VLong t))),
           setopt L curl CURLOPT_NOBODY (VLong 1),
           setopt L curl CURLOPT_FOLLOWLOCATION (VLong 0),
           curl_easy_perform_or_die L curl no_callback no_callback,
           follow_redirect L curl,
           setopt L curl CURLOPT_FOLLOWLOCATION (VLong 1),
           throwable (reads (\<lambda>s. sv_baseuh (snd s)) (\<lambda>baseuh.
             call (lib_call (lib_url_get L baseuh CURLUPART_URL)) (\<lambda>(code, s_url).
               with_seperated
                 (ife (\<lambda>_. code = CURLUE_OK) skip
                   (throw (set_ex (\<lambda>e. CurlUrlException_init e code CURLU_GET CURLUPART_URL))))
                 skip
                 (curl_easy_setopt_or_die L curl CURLOPT_URL (VStr (Some s_url)))))),
           curl_easy_setopt_or_die L curl CURLOPT_CUSTOMREQUEST (VStr (Some ''OPTIONS'')),
           setopt L curl CURLOPT_HEADERDATA VPtr,
           setopt L curl CURLOPT_HEADERFUNCTION (VFun CB_dav_options_callback),
           curl_easy_perform_or_die L curl (dav_options_callback L) no_callback])),
         whenc (\<lambda>s. sv_allow (snd s) LOCK \<noteq> sv_allow (snd s) UNLOCK)
           (setg (\<lambda>g. g\<lparr>sv_allow := (sv_allow g)(LOCK := False, UNLOCK := False)\<rparr>)),
         whenc locking (setg (\<lambda>g. g\<lparr>sv_tree := [], sv_readers := 0, sv_writer := False\<rparr>))])
         [onerror skip],
       ret_status])"

subsection \<open>Destruction\<close>

text \<open>\<open>tdestroy\<close> calls \<open>__dav_unlock_node\<close> on every lock of the tree.\<close>

definition dav_unlock_node :: "'w libs \<Rightarrow> addr \<Rightarrow> ('w, 'a, unit) davf" where
  "dav_unlock_node L nodep =
     fn () (reads (\<lambda>s. locks (snd s) nodep) (\<lambda>fl. case fl of
        None \<Rightarrow> halt Segv
      | Some f \<Rightarrow> block [
          exec (dav_unlock_raw L (fl_path f) (fl_token f)),
          setg (\<lambda>g. g\<lparr>locks := (locks g)(nodep := None)\<rparr>),
          ret ()]))"

definition dav_destory :: "'w libs \<Rightarrow> ('w, 'a, unit) davf" where
  "dav_destory L =
     fn () (block [
       whenc locking (reads (\<lambda>s. sv_tree (snd s)) (foreach (\<lambda>(_, a). exec (dav_unlock_node L a)))),
       reads (\<lambda>s. sv_baseuh (snd s)) (\<lambda>baseuh. exec (curl_url_cleanup L (Some baseuh))),
       ret ()])"

end
