(* ===== verification/Dav_Locks.thy ===== *)
theory Dav_Locks
  imports Dav_Methods
begin

text \<open>
  \<open>dav_lock\<close> and \<open>dav_unlock\<close> of proto/dav/method.c: reference counted locks on the
  server. The parts of the two functions between which other threads can run are
  definitions of their own.
\<close>

subsection \<open>The functions\<close>

text \<open>Changing a lock object through a pointer to it.\<close>

definition with_filelock ::
  "addr \<Rightarrow> (FileLock \<Rightarrow> ('l \<times> ('w, 'a) davw_scheme, 'r) stmt) \<Rightarrow> ('l \<times> ('w, 'a) davw_scheme, 'r) stmt" where
  "with_filelock a k = reads (\<lambda>s. locks (snd s) a) (\<lambda>f. case f of None \<Rightarrow> halt Segv | Some fl \<Rightarrow> k fl)"

definition set_filelock :: "addr \<Rightarrow> (FileLock \<Rightarrow> FileLock) \<Rightarrow> ('l \<times> ('w, 'a) davw_scheme, 'r) stmt" where
  "set_filelock a f = with_filelock a (\<lambda>fl. setg (\<lambda>g. g\<lparr>locks := (locks g)(a \<mapsto> f fl)\<rparr>))"

definition free_filelock :: "addr option \<Rightarrow> ('l \<times> ('w, 'a) davw_scheme, 'r) stmt" where
  "free_filelock p = (case p of None \<Rightarrow> skip | Some a \<Rightarrow> setg (\<lambda>g. g\<lparr>locks := (locks g)(a := None)\<rparr>))"

text \<open>\<open>malloc_et(struct FileLock)\<close>; the fields are assigned right after it.\<close>

definition malloc_FileLock :: "'w libs \<Rightarrow> (addr option \<times> ('w, 'a) davw_scheme, 'r) stmt" where
  "malloc_FileLock L = call (malloc_e L (Some ''struct FileLock'')) (\<lambda>ok.
     if ok then reads (\<lambda>s. next_addr (snd s)) (\<lambda>a. block [
       setg (\<lambda>g. g\<lparr>next_addr := Suc a, locks := (locks g)(a \<mapsto> \<lparr>fl_path = None, fl_token = None, fl_cnt = 1\<rparr>)\<rparr>),
       setl (\<lambda>_. Some a)])
     else setl (\<lambda>_. None))"

text \<open>First part of \<open>dav_lock\<close>: a lock that is already held is counted once more.\<close>

definition lock_lookup :: "string \<Rightarrow> (addr option \<times> ('w, 'a) davw_scheme, 'r) stmt" where
  "lock_lookup path = synchronized_rdlock
     (reads (\<lambda>s. tfind path (sv_tree (snd s))) (\<lambda>filelock_p. case filelock_p of
        None \<Rightarrow> skip
      | Some a \<Rightarrow> block [setl (\<lambda>_. Some a), set_filelock a (\<lambda>fl. fl\<lparr>fl_cnt := fl_cnt fl + 1\<rparr>)]))"

text \<open>Second part, under the write lock: another thread may have been faster; otherwise the
  server is asked and the lock entered into the table.\<close>

definition lock_insert :: "'w libs \<Rightarrow> string \<Rightarrow> addr \<Rightarrow> (addr option \<times> ('w, 'a) davw_scheme, 'r) stmt" where
  "lock_insert L path a = synchronized_wrlock (block [
     reads (\<lambda>s. tfind path (sv_tree (snd s))) (\<lambda>exist_filelock_p. case exist_filelock_p of
        None \<Rightarrow> skip
      | Some b \<Rightarrow> block [
          set_filelock b (\<lambda>fl. fl\<lparr>fl_cnt := fl_cnt fl + 1\<rparr>),
          free_filelock (Some a),
          setl (\<lambda>_. None),
          brk]),
     throwable (call (dav_lock_raw L path) (\<lambda>t. set_filelock a (\<lambda>fl. fl\<lparr>fl_token := t\<rparr>))),
     call (lib_call (lib_malloc L)) (\<lambda>ok. block [
       whenc (\<lambda>_. ok) (setg (\<lambda>g. g\<lparr>sv_tree := tsearch path a (sv_tree g)\<rparr>)),
       condition_throw (\<lambda>_. ok) (set_ex (\<lambda>e. MallocException_init e (Some ''filelock table insert'')))])])"

definition lock_create :: "'w libs \<Rightarrow> string \<Rightarrow> (addr option \<times> ('w, 'a) davw_scheme, 'r) stmt" where
  "lock_create L path = try_catch (block [
     throwable (malloc_FileLock L),
     try_catch (reads fst (\<lambda>filelock. case filelock of None \<Rightarrow> halt Segv | Some a \<Rightarrow> block [
         call (lib_call (lib_malloc L)) (\<lambda>ok.
           set_filelock a (\<lambda>fl. fl\<lparr>fl_path := (if ok then Some path else None)\<rparr>)),
         with_filelock a (\<lambda>fl. condition_throw (\<lambda>_. fl_path fl \<noteq> None)
           (set_ex (\<lambda>e. MallocException_init e (Some ''path dup'')))),
         throwable (lock_insert L path a)]))
       [onerror (reads fst (\<lambda>filelock. case filelock of None \<Rightarrow> halt Segv | Some a \<Rightarrow>
          with_filelock a (\<lambda>fl. whenc (\<lambda>_. fl_token fl \<noteq> None)
            (exec (dav_unlock_raw L (Some path) (fl_token fl))))))]])
   [onerror (reads fst free_filelock)]"

definition dav_lock :: "'w libs \<Rightarrow> string \<Rightarrow> ('w, 'a, int) davf" where
  "dav_lock L path =
     fn None (block [
       whenc (\<lambda>s. \<not> locking s) (ret 0),
       lock_lookup path,
       whenc (\<lambda>s. fst s \<noteq> None) (ret 0),
       lock_create L path,
       ret_status])"

text \<open>The variables of \<open>dav_unlock\<close>.\<close>

record uframe =
  u_filelock :: "addr option"
  u_res :: int

definition uframe0 :: uframe where
  "uframe0 = \<lparr>u_filelock = None, u_res = 0\<rparr>"

text \<open>First part: count down.\<close>

definition unlock_count :: "string \<Rightarrow> (uframe \<times> ('w, 'a) davw_scheme, 'r) stmt" where
  "unlock_count path = synchronized_rdlock
     (reads (\<lambda>s. tfind path (sv_tree (snd s))) (\<lambda>filelock_p. block [
        setl (\<lambda>u. u\<lparr>u_filelock := filelock_p\<rparr>),
        (case filelock_p of
           None \<Rightarrow> block [
             unspecified ''release cannot find file lock'',
             setl (\<lambda>u. u\<lparr>u_res := 1\<rparr>),
             brk]
         | Some a \<Rightarrow> with_filelock a (\<lambda>fl. block [
             set_filelock a (\<lambda>fl. fl\<lparr>fl_cnt := fl_cnt fl - 1\<rparr>),
             whenc (\<lambda>_. fl_cnt fl - 1 > 0) (setl (\<lambda>u. u\<lparr>u_filelock := None\<rparr>))]))]))"

text \<open>Second part: remove the lock from the table unless it is in use again.\<close>

definition unlock_remove :: "string \<Rightarrow> (uframe \<times> ('w, 'a) davw_scheme, 'r) stmt" where
  "unlock_remove path = synchronized_wrlock
     (reads (\<lambda>s. tfind path (sv_tree (snd s))) (\<lambda>filelock_p. case filelock_p of
        None \<Rightarrow> brk
      | Some a \<Rightarrow> with_filelock a (\<lambda>fl. whenc (\<lambda>_. fl_cnt fl \<le> 0) (block [
          setl (\<lambda>u. u\<lparr>u_filelock := Some a\<rparr>),
          setg (\<lambda>g. g\<lparr>sv_tree := tdelete path (sv_tree g)\<rparr>)]))))"

text \<open>Third part: tell the server and free the lock.\<close>

definition unlock_send :: "'w libs \<Rightarrow> (uframe \<times> ('w, 'a) davw_scheme, int) stmt" where
  "unlock_send L = reads (\<lambda>s. u_filelock (fst s)) (\<lambda>filelock. case filelock of
     None \<Rightarrow> ret 0
   | Some a \<Rightarrow> with_filelock a (\<lambda>fl.
       call (dav_unlock_raw L (fl_path fl) (fl_token fl)) (\<lambda>res. block [
         setl (\<lambda>u. u\<lparr>u_res := res\<rparr>),
         free_filelock (Some a),
         ret res])))"

definition dav_unlock :: "'w libs \<Rightarrow> string \<Rightarrow> ('w, 'a, int) davf" where
  "dav_unlock L path =
     fn uframe0 (block [
       whenc (\<lambda>s. \<not> locking s) (ret 0),
       unlock_count path,
       whenc (\<lambda>s. u_filelock (fst s) = None) (reads (\<lambda>s. u_res (fst s)) ret),
       unlock_remove path,
       unlock_send L])"

end
