(* ===== verification/Dav_Propfind.thy ===== *)
theory Dav_Propfind
  imports Dav_Methods
begin

text \<open>
  \<open>dav_propfind\<close> of proto/dav/method.c: the request for properties and the translation of
  the multi-status document into directory entries. The calls of \<open>filler\<close> are returned as
  the list of their arguments, in order.
\<close>

subsection \<open>The request\<close>

definition propfind_body :: string where
  "propfind_body = xml_head @ ''<D:propfind xmlns:D='' @ quoted ''DAV:'' @ '' xmlns:N='' @ quoted ''NETWORKFS:'' @ ''>'' @ crlf @
     ''<D:prop>'' @ crlf @
     ''<D:resourcetype/>'' @ ''<D:creationdate/>'' @ ''<D:getlastmodified/>'' @ ''<D:getcontentlength/>'' @
     ''<N:mode/>'' @ ''<N:size/>'' @ ''<N:owner/>'' @ ''<N:time/>'' @ crlf @
     ''</D:prop>'' @ crlf @ ''</D:propfind>'' @ crlf"

subsection \<open>The response elements\<close>

text \<open>Below a \<open>propstat\<close>: a \<open>prop\<close>, and behind it a \<open>status\<close>.\<close>

fun scan_propstat :: "xml list \<Rightarrow> xml option \<Rightarrow> xml option \<Rightarrow> xml option \<times> xml option" where
  "scan_propstat [] prop status = (prop, status)"
| "scan_propstat (n # ns) prop status =
     (if prop = None then scan_propstat ns (if x_name n = ''prop'' then Some n else None) status
      else if status = None then scan_propstat ns prop (if x_name n = ''status'' then Some n else None)
      else (prop, status))"

text \<open>Below a \<open>response\<close>: a \<open>href\<close>, and behind it the first \<open>propstat\<close> whose status is 200. The
  result is \<open>None\<close> where the code reads through the null pointer \<open>status\<close>.\<close>

record found =
  fd_href :: "xml option"
  fd_propstat :: "xml option"
  fd_prop :: "xml option"
  fd_status :: "xml option"

definition found0 :: found where
  "found0 = \<lparr>fd_href = None, fd_propstat = None, fd_prop = None, fd_status = None\<rparr>"

fun scan_response :: "xml list \<Rightarrow> found \<Rightarrow> found option" where
  "scan_response [] f = Some f"
| "scan_response (n # ns) f =
     (if fd_href f = None then
        scan_response ns (f\<lparr>fd_href := (if x_name n = ''href'' then Some n else None)\<rparr>)
      else if fd_propstat f = None then
        (if x_name n \<noteq> ''propstat'' then scan_response ns f
         else (case scan_propstat (x_children n) (fd_prop f) (fd_status f) of (prop, status) \<Rightarrow>
           (case status of
              None \<Rightarrow> None
            | Some st \<Rightarrow>
                if x_children st = [] \<or> first_content st \<noteq> Some ''HTTP/1.1 200 OK''
                then scan_response ns (f\<lparr>fd_propstat := None, fd_prop := None, fd_status := None\<rparr>)
                else scan_response ns (f\<lparr>fd_propstat := Some n, fd_prop := prop, fd_status := status\<rparr>))))
      else Some f)"

subsection \<open>Properties\<close>

definition stat_default :: "networkfs_opts \<Rightarrow> stat" where
  "stat_default opt = stat0\<lparr>st_uid := uid opt, st_gid := gid opt,
     st_mode := (S_IFREG OR mode_0777) AND NOT (fmask opt), st_nlink := 1\<rparr>"

text \<open>One entry of the first loop over the properties. A property without text, where the code
  needs one, is a read through a null pointer (\<open>None\<close>).\<close>

definition dav_prop :: "'w libs \<Rightarrow> networkfs_opts \<Rightarrow> xml \<Rightarrow> stat \<Rightarrow> stat option" where
  "dav_prop L opt n st =
     (if x_name n = ''getcontentlength'' then
        map_option (\<lambda>c. st\<lparr>st_size := word_of_int (fst (strtol 10 c))\<rparr>) (first_content n)
      else if x_name n = ''resourcetype'' then
        Some (case x_children n of
           [] \<Rightarrow> st
         | c # _ \<Rightarrow> if x_name c = ''collection''
             then st\<lparr>st_mode := (S_IFDIR OR mode_0777) AND NOT (dmask opt), st_nlink := 2\<rparr> else st)
      else if x_name n = ''creationdate'' then Some (st\<lparr>st_ctime := xmlParserTimeNode L n\<rparr>)
      else if x_name n = ''getlastmodified'' then Some (st\<lparr>st_mtime := xmlParserTimeNode L n\<rparr>)
      else Some st)"

text \<open>One entry of the second loop.\<close>

definition networkfs_mode :: "string \<Rightarrow> stat \<Rightarrow> stat" where
  "networkfs_mode c st =
     (case strtol 8 c of (m, rdev) \<Rightarrow>
        let st' = st\<lparr>st_mode := word_of_int m\<rparr>
        in if S_ISCHR (st_mode st') \<or> S_ISBLK (st_mode st')
           then st'\<lparr>st_rdev := word_of_int (fst (strtol 10 rdev))\<rparr> else st')"

definition networkfs_owner :: "string \<Rightarrow> stat \<Rightarrow> stat" where
  "networkfs_owner c st =
     (case strtol 10 c of (u, r) \<Rightarrow>
        st\<lparr>st_uid := word_of_int u, st_gid := word_of_int (fst (strtol 10 r))\<rparr>)"

definition networkfs_time :: "string \<Rightarrow> stat \<Rightarrow> stat" where
  "networkfs_time c st =
     (case strtol 10 c of (ct, r) \<Rightarrow>
        case strtol 10 r of (mt, r2) \<Rightarrow>
          st\<lparr>st_ctime := ct, st_mtime := mt, st_atime := fst (strtol 10 r2)\<rparr>)"

definition networkfs_prop :: "xml \<Rightarrow> stat \<Rightarrow> stat option" where
  "networkfs_prop n st =
     (if x_name n = ''mode'' then map_option (\<lambda>c. networkfs_mode c st) (first_content n)
      else if x_name n = ''size'' then
        map_option (\<lambda>c. st\<lparr>st_size := word_of_int (fst (strtol 10 c))\<rparr>) (first_content n)
      else if x_name n = ''owner'' then map_option (\<lambda>c. networkfs_owner c st) (first_content n)
      else if x_name n = ''time'' then map_option (\<lambda>c. networkfs_time c st) (first_content n)
      else Some st)"

text \<open>A loop over the properties of one name space; every child is asked for its name space,
  a node without one is a read through a null pointer.\<close>

fun props_loop :: "string \<Rightarrow> (xml \<Rightarrow> stat \<Rightarrow> stat option) \<Rightarrow> xml list \<Rightarrow> stat \<Rightarrow> stat option" where
  "props_loop ns f [] st = Some st"
| "props_loop ns f (n # rest) st =
     (case x_ns n of
        None \<Rightarrow> None
      | Some u \<Rightarrow>
          if u \<noteq> ns then props_loop ns f rest st
          else (case f n st of None \<Rightarrow> None | Some st' \<Rightarrow> props_loop ns f rest st'))"

definition response_stat :: "'w libs \<Rightarrow> networkfs_opts \<Rightarrow> xml list \<Rightarrow> stat option" where
  "response_stat L opt entries =
     (case props_loop ''DAV:'' (dav_prop L opt) entries (stat_default opt) of
        None \<Rightarrow> None
      | Some st \<Rightarrow> props_loop ''NETWORKFS:'' networkfs_prop entries st)"

subsection \<open>File names\<close>

definition entry_name :: "string \<Rightarrow> string" where
  "entry_name filename =
     (let f = (case strchr filename CHR ''/'' of None \<Rightarrow> filename | Some (a, _) \<Rightarrow> a)
      in if f = [] then ''.'' else f)"

definition fill :: "string \<Rightarrow> stat option \<Rightarrow> ('w, 'a, 'r) davs" where
  "fill name st = setl (\<lambda>f. f\<lparr>f_fill := f_fill f @ [(name, st)]\<rparr>)"

definition fill_response :: "'w libs \<Rightarrow> string \<Rightarrow> xml \<Rightarrow> stat \<Rightarrow> ('w, 'a, 'r) davs" where
  "fill_response L encoded_baseurl href st =
     (case first_content href of
        None \<Rightarrow> halt Segv
      | Some encoded_fullurl \<Rightarrow> block [
          whenc (\<lambda>_. \<not> strscmp_eq encoded_fullurl encoded_baseurl) cont,
          throwable (call (curl_easy_unescape_e L (drop (length encoded_baseurl) encoded_fullurl)) (\<lambda>filename.
            with_test skip (\<lambda>s. \<not> has_ex s) skip
              (case filename of None \<Rightarrow> halt Segv | Some fname \<Rightarrow> fill (entry_name fname) (Some st))))])"

definition one_response :: "'w libs \<Rightarrow> string \<Rightarrow> xml \<Rightarrow> ('w, 'a, 'r) davs" where
  "one_response L encoded_baseurl response = block [
     whenc (\<lambda>_. x_name response \<noteq> ''response'') cont,
     (case scan_response (x_children response) found0 of
        None \<Rightarrow> halt Segv
      | Some f \<Rightarrow> block [
          condition_throw (\<lambda>_. fd_href f \<noteq> None \<and> fd_propstat f \<noteq> None \<and> fd_prop f \<noteq> None \<and> fd_status f \<noteq> None)
            (unspecified ''response unexpected''),
          reads (\<lambda>s. sv_options (snd s)) (\<lambda>opt.
            case response_stat L opt (x_children (the (fd_prop f))) of
              None \<Rightarrow> halt Segv
            | Some st \<Rightarrow> fill_response L encoded_baseurl (the (fd_href f)) st)])]"

subsection \<open>dav_propfind\<close>

definition dav_propfind :: "'w libs \<Rightarrow> string \<Rightarrow> int \<Rightarrow> ('w, 'a, int \<times> (string \<times> stat option) list) davf" where
  "dav_propfind L path depth =
     fn (dframe0 L) (block [
       with_buffer propfind_body (of_nat (length propfind_body)) (\<lambda>buf.
         with_seperated (setl (\<lambda>f. f\<lparr>f_ctxt := None\<rparr>)) skip
           (throwable (with_server L (Some path) (\<lambda>curl. block [
             throwable (scope_slist L (Some (snprintf 32 (''Depth: '' @ sshow depth))) (block [
               assign_list (\<lambda>l. curl_slist_append_weak L l PREFER_MINIMAL),
               assign_list (\<lambda>l. curl_slist_append_weak L l CONTENT_TYPE_XML),
               setopt_list L curl,
               setopt L curl CURLOPT_UPLOAD (VLong 1),
               setopt_upload L curl buf,
               setopt L curl CURLOPT_INFILESIZE (VLong (sint (bsize buf))),
               setopt L curl CURLOPT_WRITEDATA VPtr,
               setopt L curl CURLOPT_WRITEFUNCTION (VFun CB_curl_parse_xml),
               curl_easy_setopt_or_die L curl CURLOPT_CUSTOMREQUEST (VStr (Some ''PROPFIND'')),
               curl_easy_perform_or_die L curl no_callback (curl_parse_xml L)])),
             reads (\<lambda>s. (last_transfer (snd s) curl, f_ctxt (fst s))) (\<lambda>(t, ctxt). block [
               whenc (\<lambda>_. t_response_code t \<noteq> 207) brk,
               (case ctxt of
                  None \<Rightarrow> halt Segv
                | Some cs \<Rightarrow> (case lib_xml_doc L cs of
                    None \<Rightarrow> throw (unspecified ''Failed to parse'')
                  | Some root \<Rightarrow> foreach (one_response L (t_effective_url t)) (x_children root)))])])))),
       reads (\<lambda>s. (TEST_SUCCESS (snd s), f_fill (fst s))) ret])"

end
