(* ===== verification/Dav_Oper.thy ===== *)
theory Dav_Oper
  imports Dav_Locks Dav_Propfind
begin

text \<open>
  proto/dav/dav.c: the operations of the file system, each a sequence of WebDAV methods
  whose exceptions are turned into error numbers. Memory the caller hands in (\<open>buf\<close>,
  \<open>stbuf\<close>) is an argument and comes back in the result; the calls of a directory
  \<open>filler\<close> are the list of their arguments. \<open>flags\<close> is \<open>fi->flags\<close>.
\<close>

subsection \<open>Errors\<close>

definition mapped_status :: "int \<Rightarrow> int option" where
  "mapped_status response_code =
     (if response_code = 404 then Some (- ENOENT)
      else if response_code = 412 then Some (- EEXIST)
      else if response_code = 423 then Some (- EBUSY)
      else if response_code = 501 then Some (- EOPNOTSUPP)
      else if response_code = 507 then Some (- ENOSPC)
      else None)"

definition http_error :: "exception \<Rightarrow> bool" where
  "http_error e \<longleftrightarrow> issubtype e CurlException_vt \<and> ex_code e = CURLE_HTTP_RETURNED_ERROR"

definition exception_errno :: "exception \<Rightarrow> int" where
  "exception_errno e =
     (case (if http_error e then mapped_status (ex_response_code e) else None) of
        Some r \<Rightarrow> r
      | None \<Rightarrow> if issubtype e MallocException_vt then - ENOMEM else - EIO)"

definition dav_exception_map :: "('a exw_scheme, int) stmt" where
  "dav_exception_map g = (Ret (exception_errno (ex g)), g\<lparr>ex := Exception_destory (ex g)\<rparr>)"

definition dav_exception_test :: "int \<Rightarrow> ('a exw_scheme, int) stmt" where
  "dav_exception_test res = (if res \<noteq> 0 then dav_exception_map else ret 0)"

definition dav_exception_check :: "int \<Rightarrow> ('a exw_scheme, int) stmt" where
  "dav_exception_check res g = (if Exception_has (ex g) then dav_exception_map g else ret res g)"

text \<open>\<open>return f()\<close>.\<close>

definition ret_call :: "('g, 'r) stmt \<Rightarrow> ('l \<times> 'g, 'r) stmt" where
  "ret_call f = call f ret"

subsection \<open>Directories and attributes\<close>

definition dav_readdir :: "'w libs \<Rightarrow> string \<Rightarrow> ('w, 'a, int \<times> (string \<times> stat option) list) davf" where
  "dav_readdir L path =
     fn () (call (dav_propfind L path 1) (\<lambda>(_, entries).
       call (dav_exception_check 0) (\<lambda>res. ret (res, (''..'', None) # entries))))"

definition dav_getattr_callback :: "stat \<Rightarrow> string \<times> stat option \<Rightarrow> stat" where
  "dav_getattr_callback buf entry = (case snd entry of None \<Rightarrow> buf | Some st \<Rightarrow> st)"

definition dav_getattr :: "'w libs \<Rightarrow> string \<Rightarrow> stat \<Rightarrow> ('w, 'a, int \<times> stat) davf" where
  "dav_getattr L path stbuf =
     fn () (call (dav_propfind L path 0) (\<lambda>(_, entries).
       call (dav_exception_check 0) (\<lambda>res. ret (res, foldl dav_getattr_callback stbuf entries))))"

subsection \<open>Reading and writing\<close>

definition http_416 :: "exception \<Rightarrow> bool" where
  "http_416 e \<longleftrightarrow> http_error e \<and> ex_response_code e = 416"

definition dav_read :: "'w libs \<Rightarrow> string \<Rightarrow> string \<Rightarrow> u64 \<Rightarrow> u64 \<Rightarrow> ('w, 'a, int \<times> string) davf" where
  "dav_read L path buf sz offset =
     fn () (block [
       whenc (\<lambda>_. sz = 0) (ret (0, buf)),
       call (dav_get L path buf sz offset) (\<lambda>(read_size, buf'). block [
         whenc (\<lambda>_. read_size < 0)
           (ife (\<lambda>s. http_416 (ex (snd s)))
             (block [set_ex Exception_destory, ret (0, buf')])
             (call dav_exception_map (\<lambda>r. ret (r, buf')))),
         ret (read_size, buf')])])"

text \<open>The variables of \<open>dav_write\<close> are \<open>res\<close> and \<open>real_size\<close>.\<close>

definition set_res :: "int \<Rightarrow> ((int \<times> 'b) \<times> 'g, 'r) stmt" where
  "set_res r = setl (\<lambda>l. (r, snd l))"

definition zeros :: "u64 \<Rightarrow> string" where
  "zeros n = replicate (unat n) (CHR 0x00)"

definition dav_write :: "'w libs \<Rightarrow> string \<Rightarrow> string \<Rightarrow> u64 \<Rightarrow> u64 \<Rightarrow> ('w, 'a, int) davf" where
  "dav_write L path buf sz offset =
     fn (0, 0) (block [
       do_once (block [
         call (dav_put L path buf sz offset) set_res,
         whenc (\<lambda>s. fst (fst s) = 0) brk,
         whenc (\<lambda>s. \<not> issubtype (ex (snd s)) CurlException_vt) brk,
         whenc (\<lambda>s. \<not> (ex_code (ex (snd s)) = CURLE_HTTP_RETURNED_ERROR \<and> ex_response_code (ex (snd s)) = 416)) brk,
         set_ex Exception_destory,
         call (dav_head L path (Some 0)) (\<lambda>(res, n). setl (\<lambda>_. (res, n))),
         whenc (\<lambda>s. fst (fst s) \<noteq> 0) brk,
         reads (\<lambda>s. snd (fst s)) (\<lambda>real_size.
           whenc (\<lambda>_. real_size < to_unsigned offset) (block [
             call (dav_put L path (zeros (offset - real_size)) (offset - real_size) real_size) set_res,
             whenc (\<lambda>s. fst (fst s) \<noteq> 0) brk])),
         call (dav_put L path buf sz offset) set_res]),
       ife (\<lambda>s. fst (fst s) \<noteq> 0) (ret_call dav_exception_map) (ret (to_int32 sz))])"

subsection \<open>Names\<close>

definition dav_mkdir :: "'w libs \<Rightarrow> string \<Rightarrow> ('w, 'a, int) davf" where
  "dav_mkdir L path =
     fn () (block [
       whenc (\<lambda>s. \<not> sv_allow (snd s) MKCOL) (ret (- EOPNOTSUPP)),
       exec (dav_mkcol L path),
       ret_call (dav_exception_check 0)])"

definition dav_rename :: "'w libs \<Rightarrow> string \<Rightarrow> string \<Rightarrow> u32 \<Rightarrow> ('w, 'a, int) davf" where
  "dav_rename L from to flags =
     fn () (block [
       whenc (\<lambda>s. \<not> sv_allow (snd s) MOVE) (ret (- EOPNOTSUPP)),
       do_once
         (if flags = 0 then block [exec (dav_move L from to), brk]
          else if flags = RENAME_NOREPLACE then block [exec (dav_move_nooverwrite L from to), brk]
          else ret (- EINVAL)),
       ret_call (dav_exception_check 0)])"

definition dav_unlink :: "'w libs \<Rightarrow> string \<Rightarrow> ('w, 'a, int) davf" where
  "dav_unlink L path = fn () (block [exec (dav_delete L path), ret_call (dav_exception_check 0)])"

subsection \<open>Modes and owners\<close>

definition mode_text :: "u32 \<Rightarrow> string" where
  "mode_text mode = snprintf 19 (ushow 8 (unat mode))"

definition owner_text :: "u32 \<Rightarrow> u32 \<Rightarrow> string" where
  "owner_text u g = snprintf 22 (sshow (sint u) @ '':'' @ sshow (sint g))"

definition dav_chmod :: "'w libs \<Rightarrow> string \<Rightarrow> u32 \<Rightarrow> ('w, 'a, int) davf" where
  "dav_chmod L path mode =
     fn () (block [
       exec (dav_proppatch L path ''N:mode'' (Some (mode_text mode))),
       ret_call (dav_exception_check 0)])"

definition dav_chown :: "'w libs \<Rightarrow> string \<Rightarrow> u32 \<Rightarrow> u32 \<Rightarrow> ('w, 'a, int) davf" where
  "dav_chown L path u g =
     fn () (block [
       exec (dav_proppatch L path ''N:owner'' (Some (owner_text u g))),
       ret_call (dav_exception_check 0)])"

subsection \<open>Creating files and links\<close>

definition absent :: "exception \<Rightarrow> bool" where
  "absent e \<longleftrightarrow> ex_code e = CURLE_HTTP_RETURNED_ERROR \<and> (ex_response_code e = 404 \<or> ex_response_code e = 403)"

text \<open>The probe both \<open>dav_mknod\<close> and \<open>dav_symlink\<close> start with.\<close>

definition probe_absent :: "'w libs \<Rightarrow> string \<Rightarrow> (unit \<times> ('w, 'a) davw_scheme, int) stmt" where
  "probe_absent L path = try_ignoring CurlException_vt absent (block [
     throwable (exec (dav_head L path None)),
     ret (- EEXIST)])"

definition dav_mknod :: "'w libs \<Rightarrow> string \<Rightarrow> u32 \<Rightarrow> ('w, 'a, int) davf" where
  "dav_mknod L path mode =
     fn () (block [
       whenc (\<lambda>_. S_ISDIR mode) (ret (- EINVAL)),
       try_catch (block [
         throwable (probe_absent L path),
         exec (dav_put_simple L path)])
        [onerror (ret_call dav_exception_map)],
       ret_call (dav_chmod L path mode)])"

definition dav_readlink :: "'w libs \<Rightarrow> string \<Rightarrow> string \<Rightarrow> u64 \<Rightarrow> ('w, 'a, int \<times> string) davf" where
  "dav_readlink L path buf sz =
     fn () (call (dav_read L path buf (sz - 1) 0) (\<lambda>(res, buf'). block [
       whenc (\<lambda>_. res < 0) (ret (res, buf')),
       if nat res < length buf' then ret (0, buf'[nat res := CHR 0x00]) else halt Segv]))"

definition dav_symlink :: "'w libs \<Rightarrow> string \<Rightarrow> string \<Rightarrow> ('w, 'a, int) davf" where
  "dav_symlink L from to =
     fn () (block [
       probe_absent L to,
       call (fn (0::int) (block [
           do_once (block [
             call (dav_mknod L to (S_IFLNK OR mode_0777)) (\<lambda>r. setl (\<lambda>_. r)),
             whenc (\<lambda>s. fst s \<noteq> 0) brk,
             call (dav_write L to from (of_nat (length from)) 0) (\<lambda>r. setl (\<lambda>_. r)),
             whenc (\<lambda>s. fst s < 0) brk,
             ret 0]),
           try_catch (exec (dav_unlink L to)) [catch_default skip],
           reads fst ret])) ret])"

subsection \<open>Truncation\<close>

definition dav_truncate :: "'w libs \<Rightarrow> string \<Rightarrow> u64 \<Rightarrow> ('w, 'a, int) davf" where
  "dav_truncate L path sz =
     fn () (call (dav_getattr L path (lib_uninit_stat L)) (\<lambda>(res, st). block [
       whenc (\<lambda>_. res \<noteq> 0) (ret res),
       whenc (\<lambda>_. st_size st = sz) (ret 0),
       if sz = 0 then
         call (dav_delete L path) (\<lambda>res. block [
           whenc (\<lambda>_. res \<noteq> 0) (ret_call dav_exception_map),
           call (dav_put_simple L path) (\<lambda>res. block [
             whenc (\<lambda>_. res \<noteq> 0) (ret_call dav_exception_map),
             ret_call (dav_chmod L path (st_mode st))])])
       else
         call (dav_head L path (Some 0)) (\<lambda>(res, real_size). block [
           whenc (\<lambda>_. res \<noteq> 0) (ret_call dav_exception_map),
           if to_unsigned sz < real_size div 2 then
             call (dav_read L path (lib_uninit_bytes L (unat sz)) sz 0) (\<lambda>(res, buf). block [
               whenc (\<lambda>_. res \<noteq> 0) (ret res),
               call (dav_unlink L path) (\<lambda>res. block [
                 whenc (\<lambda>_. res \<noteq> 0) (ret res),
                 call (dav_put L path buf sz 0) (\<lambda>res. ret_call (dav_exception_test res))])])
           else
             call (dav_proppatch L path ''size'' (Some (snprintf 11 (sshow (sint sz))))) (\<lambda>res.
               ret_call (dav_exception_test res))])]))"

subsection \<open>Opening and closing\<close>

definition dav_open_lock :: "'w libs \<Rightarrow> string \<Rightarrow> ('w, 'a, int) davf" where
  "dav_open_lock L path =
     fn () (block [
       whenc (\<lambda>s. \<not> sv_allow (snd s) LOCK) (ret 0),
       call (dav_lock L path) (\<lambda>res. ret_call (dav_exception_test res))])"

definition for_writing :: "u32 \<Rightarrow> bool" where
  "for_writing flags \<longleftrightarrow> flags AND O_WRONLY \<noteq> 0 \<or> flags AND O_RDWR \<noteq> 0"

definition dav_open :: "'w libs \<Rightarrow> string \<Rightarrow> u32 \<Rightarrow> ('w, 'a, int) davf" where
  "dav_open L path flags =
     fn (0::int) (block [
       whenc (\<lambda>_. for_writing flags) (block [
         whenc (\<lambda>_. flags AND O_TRUNC \<noteq> 0) (call (dav_truncate L path 0) (\<lambda>r. setl (\<lambda>_. r))),
         whenc (\<lambda>s. fst s = 0 \<or> (flags AND O_CREAT \<noteq> 0 \<and> fst s = - ENOENT))
           (call (dav_open_lock L path) (\<lambda>r. setl (\<lambda>_. r)))]),
       reads fst ret])"

definition dav_create :: "'w libs \<Rightarrow> string \<Rightarrow> u32 \<Rightarrow> u32 \<Rightarrow> ('w, 'a, int) davf" where
  "dav_create L path mode flags =
     fn () (call (dav_mknod L path mode) (\<lambda>res. block [
       whenc (\<lambda>_. res \<noteq> 0) (ret res),
       whenc (\<lambda>_. for_writing flags) (ret_call (dav_open_lock L path)),
       ret res]))"

definition dav_release :: "'w libs \<Rightarrow> string \<Rightarrow> u32 \<Rightarrow> ('w, 'a, int) davf" where
  "dav_release L path flags =
     fn () (block [
       whenc (\<lambda>s. \<not> sv_allow (snd s) LOCK) (ret 0),
       whenc (\<lambda>_. \<not> for_writing flags) (ret 0),
       exec (dav_unlock L path),
       ret 0])"

subsection \<open>Copying a range\<close>

text \<open>\<open>if (sizeof(buf)) { res = op; if (res) return res; }\<close> for the local arrays.\<close>

definition when_nonempty :: "u64 \<Rightarrow> ('g, int \<times> string) stmt \<Rightarrow> string \<Rightarrow> (string \<Rightarrow> ('l \<times> 'g, int) stmt) \<Rightarrow> ('l \<times> 'g, int) stmt" where
  "when_nonempty n f buf k =
     (if n = 0 then k buf
      else call f (\<lambda>(res, buf'). block [whenc (\<lambda>_. res \<noteq> 0) (ret res), k buf']))"

definition write_nonempty :: "'w libs \<Rightarrow> string \<Rightarrow> string \<Rightarrow> u64 \<Rightarrow> u64 \<Rightarrow> ('l \<times> ('w, 'a) davw_scheme, int) stmt" where
  "write_nonempty L path buf n offset =
     whenc (\<lambda>_. n \<noteq> 0) (call (dav_write L path buf n offset) (\<lambda>res. whenc (\<lambda>_. res \<noteq> 0) (ret res)))"

definition after_size :: "u64 \<Rightarrow> u64 \<Rightarrow> u64 \<Rightarrow> u64" where
  "after_size st_size_out offset_out len =
     (if offset_out + len < to_unsigned st_size_out then st_size_out - len - offset_out else 0)"

definition dav_copy_file_range ::
  "'w libs \<Rightarrow> string \<Rightarrow> u64 \<Rightarrow> string \<Rightarrow> u64 \<Rightarrow> u64 \<Rightarrow> ('w, 'a, int) davf" where
  "dav_copy_file_range L path_in offset_in path_out offset_out len =
     fn () (block [
       whenc (\<lambda>_. offset_in \<noteq> offset_out) (ret (- EOPNOTSUPP)),
       call (dav_getattr L path_out stat0) (\<lambda>(res, st_out). block [
         whenc (\<lambda>_. res \<noteq> 0 \<and> res \<noteq> - ENOENT) (ret res),
         whenc (\<lambda>_. len < to_unsigned (st_size st_out) div 2) (ret (- EOPNOTSUPP)),
         when_nonempty offset_out
           (dav_read L path_out (lib_uninit_bytes L (unat offset_out)) offset_out 0)
           (lib_uninit_bytes L (unat offset_out)) (\<lambda>file_out_before.
         (let n = after_size (st_size st_out) offset_out len in
          when_nonempty n
            (dav_read L path_out (lib_uninit_bytes L (unat n)) n offset_out)
            (lib_uninit_bytes L (unat n)) (\<lambda>file_out_after.
          call (dav_copy L path_in path_out) (\<lambda>r.
          call (dav_exception_test r) (\<lambda>res. block [
            whenc (\<lambda>_. res \<noteq> 0) (ret res),
            write_nonempty L path_out file_out_before offset_out 0,
            write_nonempty L path_out file_out_after n offset_out,
            ret (sint len)])))))])])"

subsection \<open>Mounting and unmounting\<close>

text \<open>The value of \<open>dav_init\<close> tells whether \<open>FUSE_EXIT()\<close> ran.\<close>

definition dav_init :: "'w libs \<Rightarrow> ('w, 'a, bool) davf" where
  "dav_init L =
     fn False (block [
       try_catch (throwable (exec (dav_options L))) [catch_default (setl (\<lambda>_. True))],
       reads fst ret])"

definition dav_destroy :: "'w libs \<Rightarrow> ('w, 'a, unit) davf" where
  "dav_destroy L = dav_destory L"

end
