(* ===== verification/Proto.thy ===== *)
theory Proto
  imports Dav_Oper
begin

text \<open>
  proto/dummy/dummy.c, proto/proto.c, \<open>dav_getoper\<close> of proto/dav/dav.c and
  emulator/emulator.c: the built-in example protocol and the table of operations that is
  handed to FUSE.
\<close>

subsection \<open>The dummy protocol\<close>

definition Hello :: string where
  "Hello = ''Hello!''"

definition dummy_readdir :: "string \<Rightarrow> int \<times> (string \<times> stat option) list" where
  "dummy_readdir path =
     (if path \<noteq> ''/'' then (- ENOENT, [])
      else (0, [(''.'', None), (''..'', None), (''hello'', None)]))"

text \<open>\<open>path+1\<close> of an empty path is behind the string; FUSE passes absolute paths.\<close>

definition dummy_getattr :: "string \<Rightarrow> int \<times> stat" where
  "dummy_getattr path =
     (if path = ''/'' then (0, stat0\<lparr>st_mode := S_IFDIR OR 0x1ED, st_nlink := 2\<rparr>)
      else if drop 1 path = ''hello'' then
        (0, stat0\<lparr>st_mode := S_IFREG OR 0x124, st_nlink := 1, st_size := of_nat (length Hello)\<rparr>)
      else (- ENOENT, stat0))"

text \<open>\<open>memcpy(buf, "Hello!" + offset, size)\<close> outside the literal or the buffer is \<open>None\<close>.\<close>

definition dummy_memcpy :: "string \<Rightarrow> u64 \<Rightarrow> u64 \<Rightarrow> string option" where
  "dummy_memcpy buf offset sz =
     (if 0 \<le> sint offset \<and> unat offset + unat sz \<le> length Hello + 1 \<and> unat sz \<le> length buf
      then Some (take (unat sz) (drop (unat offset) (Hello @ [CHR 0x00])) @ drop (unat sz) buf)
      else None)"

definition dummy_read :: "string \<Rightarrow> string \<Rightarrow> u64 \<Rightarrow> u64 \<Rightarrow> (int \<times> string) option" where
  "dummy_read path buf sz offset =
     (if drop 1 path \<noteq> ''hello'' then Some (- ENOENT, buf)
      else (let len = of_nat (length Hello) :: u64 in
        if sint offset < sint len then
          (let n = (if offset + sz > len then len - offset else sz) in
           map_option (\<lambda>b. (to_int32 n, b)) (dummy_memcpy buf offset n))
        else Some (to_int32 0, buf)))"

subsection \<open>Tables of operations\<close>

datatype oper =
  Op_init | Op_destroy | Op_readdir | Op_getattr | Op_read | Op_write | Op_mkdir | Op_rename
| Op_unlink | Op_rmdir | Op_chmod | Op_chown | Op_mknod | Op_readlink | Op_symlink | Op_create
| Op_open | Op_release | Op_truncate | Op_copy_file_range | Op_readall | Op_writeall

datatype impl =
  I_dav_init | I_dav_destroy | I_dav_readdir | I_dav_getattr | I_dav_read | I_dav_write
| I_dav_mkdir | I_dav_rename | I_dav_unlink | I_dav_chmod | I_dav_chown | I_dav_mknod
| I_dav_readlink | I_dav_symlink | I_dav_create | I_dav_open | I_dav_release | I_dav_truncate
| I_dav_copy_file_range | I_dummy_readdir | I_dummy_getattr | I_dummy_read

type_synonym proto_operations = "oper \<rightharpoonup> impl"

definition dav_table :: "(oper \<times> impl) list" where
  "dav_table =
     [(Op_init, I_dav_init), (Op_destroy, I_dav_destroy), (Op_readdir, I_dav_readdir),
      (Op_getattr, I_dav_getattr), (Op_read, I_dav_read), (Op_write, I_dav_write),
      (Op_mkdir, I_dav_mkdir), (Op_rename, I_dav_rename), (Op_unlink, I_dav_unlink),
      (Op_rmdir, I_dav_unlink), (Op_chmod, I_dav_chmod), (Op_chown, I_dav_chown),
      (Op_mknod, I_dav_mknod), (Op_readlink, I_dav_readlink), (Op_symlink, I_dav_symlink),
      (Op_create, I_dav_create), (Op_open, I_dav_open), (Op_release, I_dav_release),
      (Op_truncate, I_dav_truncate), (Op_copy_file_range, I_dav_copy_file_range)]"

definition dummy_table :: "(oper \<times> impl) list" where
  "dummy_table = [(Op_readdir, I_dummy_readdir), (Op_getattr, I_dummy_getattr), (Op_read, I_dummy_read)]"

definition set_opers :: "(oper \<times> impl) list \<Rightarrow> proto_operations \<Rightarrow> proto_operations" where
  "set_opers t p = p ++ map_of t"

text \<open>The state with the static table \<open>proto_oper\<close> of proto.c.\<close>

record 'w protow = "'w davw" +
  proto_oper :: proto_operations

definition dummy_getoper :: "(('w, 'a) protow_scheme, int) stmt" where
  "dummy_getoper g = (Ret 0, g\<lparr>proto_oper := set_opers dummy_table (proto_oper g)\<rparr>)"

abbreviation (input) CURLUSESSL_NONE :: int where "CURLUSESSL_NONE \<equiv> 0"
abbreviation (input) CURLUSESSL_ALL :: int where "CURLUSESSL_ALL \<equiv> 3"

text \<open>\<open>dav_getoper\<close>; the variable is \<open>server.baseuh\<close>, which is stored in the server record
  when it is a handle. After a failure the record is not used.\<close>

definition dav_getoper :: "'w libs \<Rightarrow> networkfs_opts \<Rightarrow> (('w, 'a) protow_scheme, int) stmt" where
  "dav_getoper L opt =
     fn (None :: addr option) (block [
       try_catch (block [
         throwable (case baseurl opt of
            None \<Rightarrow> halt Segv
          | Some u \<Rightarrow> call (curl_url_dup_e L u) (\<lambda>r. setl (\<lambda>_. r))),
         reads fst (\<lambda>baseuh. case baseuh of
            None \<Rightarrow> halt Segv
          | Some u \<Rightarrow> curl_url_set_or_die L u CURLUPART_SCHEME
              (Some (if use_ssl opt = CURLUSESSL_NONE then ''http'' else ''https'')) 0)])
        [onerror (block [
          reads fst (\<lambda>baseuh. exec (curl_url_cleanup L baseuh)),
          setl (\<lambda>_. None),
          ret 1])],
       reads fst (\<lambda>baseuh. setg (\<lambda>g. g\<lparr>sv_baseuh := (case baseuh of None \<Rightarrow> sv_baseuh g | Some u \<Rightarrow> u)\<rparr>)),
       setg (\<lambda>g. g\<lparr>sv_options := opt\<rparr>),
       setg (\<lambda>g. g\<lparr>proto_oper := set_opers dav_table (proto_oper g)\<rparr>),
       ret 0])"

subsection \<open>Choice of the protocol\<close>

definition get_proto_oper :: "'w libs \<Rightarrow> string \<Rightarrow> networkfs_opts \<Rightarrow> (('w, 'a) protow_scheme, proto_operations option) stmt" where
  "get_proto_oper L scheme opt =
     fn False (block [
       (if scheme = ''dav'' then call (dav_getoper L opt) (\<lambda>r. whenc (\<lambda>_. r = 0) (setl (\<lambda>_. True)))
        else if scheme = ''dummy'' then call dummy_getoper (\<lambda>r. whenc (\<lambda>_. r = 0) (setl (\<lambda>_. True)))
        else block [
          set_ex (\<lambda>e. NetworkFSException_init e (''unsupported scheme `'' @ scheme @ [CHR 0x27])),
          ret None]),
       whenc (\<lambda>s. \<not> fst s) (block [
         whenc (\<lambda>s. \<not> has_ex s)
           (set_ex (\<lambda>e. NetworkFSException_init e (''scheme `'' @ scheme @ [CHR 0x27] @ '' has no handler''))),
         ret None]),
       reads (\<lambda>s. proto_oper (snd s)) (\<lambda>p. ret (Some p))])"

text \<open>The emulator fills no gaps: the code between its braces is commented out.\<close>

definition emulate_networkfs_oper :: "proto_operations \<Rightarrow> proto_operations" where
  "emulate_networkfs_oper p = p"

end
