(* ===== verification/Options.thy ===== *)
theory Options
  imports Proto
begin

text \<open>
  networkfs.c: the options of the program, taking apart the URL, hiding the password in the
  argument vector, and \<open>main\<close>. FUSE is a parameter (\<open>fuse_lib\<close>).
\<close>

subsection \<open>The options\<close>

text \<open>\<open>struct _networkfs_opts\<close>. \<open>dir_timeout\<close>, a floating point number nothing reads, is left
  out.\<close>

record main_opts = networkfs_opts +
  m_scheme :: "string option"
  m_port :: "string option"
  proxyanyauth :: bool
  proxybasic :: bool
  proxydigest :: bool
  proxyntlm :: bool
  set_uid :: bool
  set_gid :: bool
  entry_timeout_set :: bool
  negative_timeout_set :: bool
  attr_timeout_set :: bool
  hide_password :: bool
  show_help :: bool

record 'w mainw = "'w protow" +
  options :: main_opts

text \<open>What \<open>main\<close> calls of FUSE: the parser of the arguments (which runs \<open>networkfs_opt_proc\<close>),
  adding an argument, and the main loop.\<close>

record 'w fuse_lib =
  fz_parse :: "string list \<Rightarrow> ('w mainw, int \<times> string list) stmt"
  fz_add_arg :: "string \<Rightarrow> 'w \<Rightarrow> bool \<times> 'w"
  fz_main :: "string list \<Rightarrow> proto_operations option \<Rightarrow> 'w \<Rightarrow> int \<times> 'w"
  fz_uid :: u32
  fz_gid :: u32

definition options_set_default :: "u32 \<Rightarrow> u32 \<Rightarrow> main_opts \<Rightarrow> main_opts" where
  "options_set_default u g opt = opt\<lparr>uid := u, gid := g, fmask := 0x5B, dmask := 0x12,
     initial_timeout := 5, hide_password := True\<rparr>"

subsection \<open>combine_url\<close>

definition set_opt :: "(main_opts \<Rightarrow> main_opts) \<Rightarrow> ('l \<times> 'w mainw, 'r) stmt" where
  "set_opt f = setg (\<lambda>g. g\<lparr>options := f (options g)\<rparr>)"

text \<open>\<open>with (curl_char *c, curl_url_get_or_die(h, part, &c, 0), curl_free(c)) body\<close>.\<close>

definition with_url_part ::
  "'w libs \<Rightarrow> addr \<Rightarrow> CURLUPart \<Rightarrow> (string \<Rightarrow> ('l \<times> ('w, 'a) world_scheme, 'r) stmt) \<Rightarrow> ('l \<times> ('w, 'a) world_scheme, 'r) stmt" where
  "with_url_part L h part body =
     call (lib_call (lib_url_get L h part)) (\<lambda>(code, c).
       with_seperated
         (ife (\<lambda>_. code = CURLUE_OK) skip (throw (set_ex (\<lambda>e. CurlUrlException_init e code CURLU_GET part))))
         skip (body c))"

definition strdup :: "'w libs \<Rightarrow> string \<Rightarrow> (string option \<Rightarrow> ('l \<times> ('w, 'a) world_scheme, 'r) stmt) \<Rightarrow> ('l \<times> ('w, 'a) world_scheme, 'r) stmt" where
  "strdup L s k = call (lib_call (lib_malloc L)) (\<lambda>ok. k (if ok then Some s else None))"

definition combine_url :: "'w libs \<Rightarrow> addr \<Rightarrow> ('w mainw, int) stmt" where
  "combine_url L h =
     fn (0::int) (block [
       try_catch (block [
         throwable (reads (\<lambda>s. m_scheme (options (snd s))) (\<lambda>sch. case sch of
            Some c \<Rightarrow> block [
              do_once (curl_url_set_or_die L h CURLUPART_SCHEME (Some c) 0),
              set_opt (\<lambda>opt. opt\<lparr>m_scheme := None\<rparr>)]
          | None \<Rightarrow> with_url_part L h CURLUPART_SCHEME (\<lambda>c.
              strdup L c (\<lambda>d. set_opt (\<lambda>opt. opt\<lparr>m_scheme := d\<rparr>))))),
         reads (\<lambda>s. m_port (options (snd s))) (\<lambda>port. case port of
            None \<Rightarrow> skip
          | Some c \<Rightarrow> block [
              do_once (curl_url_set_or_die L h CURLUPART_PORT (Some c) 0),
              set_opt (\<lambda>opt. opt\<lparr>m_port := None\<rparr>),
              check]),
         whenc (\<lambda>s. username (options (snd s)) = None)
           (throwable (try_ignoring CurlUrlException_vt (\<lambda>e. ex_ucode e = CURLUE_NO_USER)
             (with_url_part L h CURLUPART_USER (\<lambda>c. block [
               strdup L c (\<lambda>d. set_opt (\<lambda>opt. opt\<lparr>username := d\<rparr>)),
               curl_url_set_or_die L h CURLUPART_USER None 0])))),
         whenc (\<lambda>s. password (options (snd s)) = None)
           (throwable (try_ignoring CurlUrlException_vt (\<lambda>e. ex_ucode e = CURLUE_NO_PASSWORD)
             (with_url_part L h CURLUPART_PASSWORD (\<lambda>c. block [
               strdup L c (\<lambda>d. set_opt (\<lambda>opt. opt\<lparr>password := d\<rparr>)),
               curl_url_set_or_die L h CURLUPART_PASSWORD None 0]))))])
        [onerror (setl (\<lambda>_. 1))],
       reads fst ret])"

subsection \<open>replace_password\<close>

text \<open>\<open>getopt\<close> with \<open>"-:o:"\<close> returns the words that are no options one by one, and for \<open>-o\<close> its
  argument; the argument vector is seen as the list of these results.\<close>

datatype arg = Word string | OptO string | OtherOpt string

definition stars :: "nat \<Rightarrow> string" where
  "stars n = replicate n (CHR ''*'')"

definition mask_url :: "string \<Rightarrow> string" where
  "mask_url s =
     (case strchr s CHR ''@'' of
        None \<Rightarrow> s
      | Some (a, b) \<Rightarrow> (case strrchr a CHR '':'' of
          None \<Rightarrow> s
        | Some (u, p) \<Rightarrow> u @ '':'' @ stars (length p) @ ''@'' @ b))"

text \<open>\<open>getsubopt\<close> takes a comma separated item and looks at the name before the equals sign.
  The comma that ends the last item is not written back. A \<open>password\<close> without a value makes
  \<open>memset\<close> write through a null pointer (\<open>None\<close>).\<close>

function mask_subopts :: "string \<Rightarrow> string option" where
  "mask_subopts s =
     (if s = [] then Some []
      else (case (case strchr s CHR '','' of None \<Rightarrow> (s, None) | Some (a, b) \<Rightarrow> (a, Some b)) of (item, rest) \<Rightarrow>
        (case strchr item CHR ''='' of
           None \<Rightarrow>
             if item = ''password'' then None
             else (case rest of
                None \<Rightarrow> Some item
              | Some r \<Rightarrow> if r = [] then Some item else map_option (\<lambda>m. item @ '','' @ m) (mask_subopts r))
         | Some (name, value) \<Rightarrow>
             if name = ''password'' then
               Some (case rest of
                  None \<Rightarrow> ''password='' @ stars (length value)
                | Some r \<Rightarrow> if r = [] then ''password='' @ stars (length value + 1)
                            else ''password='' @ stars (length value) @ '','' @ r)
             else (case rest of
                None \<Rightarrow> Some item
              | Some r \<Rightarrow> if r = [] then Some item else map_option (\<lambda>m. item @ '','' @ m) (mask_subopts r)))))"
  by pat_completeness auto

termination
  by (relation "measure length") (auto dest: strchr_length split: option.splits)

declare mask_subopts.simps [simp del]

fun replace_password :: "bool \<Rightarrow> arg list \<Rightarrow> arg list option" where
  "replace_password url_processed [] = Some []"
| "replace_password url_processed (Word w # as) =
     map_option ((#) (Word (if url_processed then w else mask_url w))) (replace_password True as)"
| "replace_password url_processed (OptO v # as) =
     (case mask_subopts v of
        None \<Rightarrow> None
      | Some m \<Rightarrow> map_option ((#) (OptO m)) (replace_password url_processed as))"
| "replace_password url_processed (OtherOpt x # as) =
     map_option ((#) (OtherOpt x)) (replace_password url_processed as)"

subsection \<open>The option callback\<close>

datatype optkey = KEY_VERSION | FUSE_OPT_KEY_NONOPT | KEY_other

definition networkfs_opt_proc :: "'w libs \<Rightarrow> string \<Rightarrow> optkey \<Rightarrow> ('w mainw, int) stmt" where
  "networkfs_opt_proc L arg k =
     fn () (case k of
        KEY_VERSION \<Rightarrow> halt (Exit 0)
      | FUSE_OPT_KEY_NONOPT \<Rightarrow> block [
          whenc (\<lambda>s. baseurl (options (snd s)) = None) (block [
            try_catch (call (curl_url_e L) (\<lambda>u. block [
              set_opt (\<lambda>opt. opt\<lparr>baseurl := u\<rparr>),
              (case u of
                 None \<Rightarrow> block [throw (set_ex (\<lambda>e. CurlException_init e 0 CURL_INIT CURLOPT_URL 0)), brk]
               | Some h \<Rightarrow> curl_url_set_or_die L h CURLUPART_URL (Some arg)
                   (CURLU_DEFAULT_SCHEME + CURLU_NON_SUPPORT_SCHEME))]))
             [onerror (block [
               reads (\<lambda>s. baseurl (options (snd s))) (\<lambda>u. exec (curl_url_cleanup L u)),
               set_opt (\<lambda>opt. opt\<lparr>baseurl := None\<rparr>),
               ret (- 1)])],
            ret 0]),
          ret 1]
      | KEY_other \<Rightarrow> ret 1)"

subsection \<open>main\<close>

record mframe =
  mf_args :: "string list"
  mf_words :: "arg list"
  mf_ret :: int

definition networkfs_exception :: "string \<Rightarrow> ('l \<times> 'a exw_scheme, 'r) stmt" where
  "networkfs_exception what = throw (set_ex (\<lambda>e. NetworkFSException_init e what))"

definition add_arg :: "'w fuse_lib \<Rightarrow> string \<Rightarrow> string \<Rightarrow> (mframe \<times> 'w mainw, 'r) stmt" where
  "add_arg F a what =
     call (lib_call (fz_add_arg F a)) (\<lambda>ok.
       if ok then setl (\<lambda>m. m\<lparr>mf_args := mf_args m @ [a]\<rparr>) else networkfs_exception what)"

definition proxy_auth :: "main_opts \<Rightarrow> main_opts" where
  "proxy_auth opt =
     (if proxyanyauth opt then opt\<lparr>proxyauth := NOT 16\<rparr>
      else opt\<lparr>proxyauth := proxyauth opt OR (if proxybasic opt then 1 else 0)
        OR (if proxydigest opt then 2 else 0) OR (if proxyntlm opt then 8 else 0)\<rparr>)"

text \<open>The scheme without the \<open>s\<close> that asks for TLS. Reading the last byte of a null pointer, or
  of an empty string, is a wild access.\<close>

definition split_scheme :: "(mframe \<times> 'w mainw, 'r) stmt" where
  "split_scheme = reads (\<lambda>s. m_scheme (options (snd s))) (\<lambda>sch. case sch of
     None \<Rightarrow> halt Segv
   | Some c \<Rightarrow>
       if c = [] then halt Segv
       else whenc (\<lambda>_. last c = CHR ''s'') (set_opt (\<lambda>opt. opt\<lparr>
         use_ssl := (if use_ssl opt = 0 then CURLUSESSL_ALL else use_ssl opt),
         m_scheme := Some (butlast c)\<rparr>)))"

definition run_fuse :: "'w fuse_lib \<Rightarrow> proto_operations option \<Rightarrow> (mframe \<times> 'w mainw, 'r) stmt" where
  "run_fuse F p = reads (\<lambda>s. mf_args (fst s)) (\<lambda>args.
     call (lib_call (fz_main F args p)) (\<lambda>r. setl (\<lambda>m. m\<lparr>mf_ret := r\<rparr>)))"

definition hide :: "(mframe \<times> 'w mainw, 'r) stmt" where
  "hide = reads (\<lambda>s. mf_words (fst s)) (\<lambda>ws. case replace_password False ws of
     None \<Rightarrow> halt Segv
   | Some ws' \<Rightarrow> setl (\<lambda>m. m\<lparr>mf_words := ws'\<rparr>))"

definition main_mount :: "'w libs \<Rightarrow> 'w fuse_lib \<Rightarrow> (mframe \<times> 'w mainw, 'r) stmt" where
  "main_mount L F = block [
     reads (\<lambda>s. baseurl (options (snd s))) (\<lambda>u. case u of
        None \<Rightarrow> networkfs_exception ''no URL specified''
      | Some h \<Rightarrow> throwable (exec (combine_url L h))),
     whenc (\<lambda>s. hide_password (options (snd s)) \<and> password (options (snd s)) \<noteq> None) hide,
     set_opt proxy_auth,
     split_scheme,
     reads (\<lambda>s. options (snd s)) (\<lambda>opt.
       call (get_proto_oper L (the (m_scheme opt)) (networkfs_opts.truncate opt)) (\<lambda>p. block [
         check,
         reads (\<lambda>s. options (snd s)) (\<lambda>opt. block [
           whenc (\<lambda>_. set_uid opt)
             (add_arg F (snprintf 17 (''-ouid='' @ sshow (sint (uid opt)))) ''fuse_opt_add_arg uid failed''),
           whenc (\<lambda>_. set_gid opt)
             (add_arg F (snprintf 17 (''-ogid='' @ sshow (sint (gid opt)))) ''fuse_opt_add_arg gid failed''),
           whenc (\<lambda>_. \<not> entry_timeout_set opt)
             (add_arg F ''-oentry_timeout=30'' ''fuse_opt_add_arg entry_timeout failed''),
           whenc (\<lambda>_. \<not> negative_timeout_set opt)
             (add_arg F ''-onegative_timeout=10'' ''fuse_opt_add_arg negative_timeout failed''),
           whenc (\<lambda>_. \<not> attr_timeout_set opt)
             (add_arg F ''-oattr_timeout=30'' ''fuse_opt_add_arg attr_timeout failed''),
           run_fuse F (map_option emulate_networkfs_oper p)])]))]"

text \<open>\<open>main\<close>; \<open>words\<close> is what \<open>getopt\<close> makes of the argument vector.\<close>

definition main :: "'w libs \<Rightarrow> 'w fuse_lib \<Rightarrow> string list \<Rightarrow> arg list \<Rightarrow> ('w mainw, int) stmt" where
  "main L F argv words =
     fn \<lparr>mf_args = argv, mf_words = words, mf_ret = lib_uninit L\<rparr> (block [
       set_opt (options_set_default (fz_uid F) (fz_gid F)),
       try_catch (block [
         call (fz_parse F argv) (\<lambda>(r, args). block [
           setl (\<lambda>m. m\<lparr>mf_args := args\<rparr>),
           whenc (\<lambda>_. r = - 1) (networkfs_exception ''fuse_opt_parse failed'')]),
         ife (\<lambda>s. show_help (options (snd s)))
           (block [
             add_arg F ''-h'' ''fuse_opt_add_arg help failed'',
             setl (\<lambda>m. m\<lparr>mf_args := (case mf_args m of [] \<Rightarrow> [] | _ # as \<Rightarrow> [] # as)\<rparr>),
             run_fuse F None])
           (main_mount L F)])
        [catch_type NetworkFSException_vt (setl (\<lambda>m. m\<lparr>mf_ret := 1\<rparr>)), onerror (setl (\<lambda>m. m\<lparr>mf_ret := 1\<rparr>))],
       set_opt (\<lambda>opt. opt\<lparr>m_scheme := None, m_port := None\<rparr>),
       reads (\<lambda>s. baseurl (options (snd s))) (\<lambda>u. exec (curl_url_cleanup L u)),
       set_opt (\<lambda>opt. opt\<lparr>baseurl := None, username := None, password := None, interface := None\<rparr>),
       reads (\<lambda>s. mf_ret (fst s)) ret])"

end
