(* ===== verification/Dav_Text_Laws.thy ===== *)
theory Dav_Text_Laws
  imports Dav_Oper
begin

text \<open>
  The texts the WebDAV client writes and reads: properties for modes and owners, byte ranges, lock
  tokens, request bodies and the names of directory entries. Every text is built in an array of a
  fixed size; the theorems say where that size is enough and what is lost where it is not.
\<close>

subsection \<open>Numbers\<close>

lemma unat_u32_less: "unat (w :: u32) < 2 ^ 32"
  using unsigned_less [of w] by simp

lemma ushow_step: "10 \<le> n \<Longrightarrow> ushow 10 n = ushow 10 (n div 10) @ [digit_char (n mod 10)]"
  by (subst ushow.simps) simp

lemma length_ushow_gt: "2 \<le> base \<Longrightarrow> base ^ k \<le> n \<Longrightarrow> k < length (ushow base n)"
proof (induction k arbitrary: n)
  case 0
  then show ?case using ushow_nonempty by simp
next
  case (Suc k)
  have "base * 1 \<le> base * base ^ k" using Suc.prems by (intro mult_le_mono2) simp
  also have "\<dots> \<le> n" using Suc.prems by simp
  finally have "base \<le> n" by simp
  moreover have "base ^ k \<le> n div base"
    using Suc.prems by (simp add: less_eq_div_iff_mult_less_eq mult.commute)
  ultimately show ?case using Suc.IH [of "n div base"] Suc.prems by (subst ushow.simps) simp
qed

lemma digit_chars:
  "digit_char 0 = CHR ''0''" "digit_char 1 = CHR ''1''" "digit_char 2 = CHR ''2''" "digit_char 3 = CHR ''3''"
  "digit_char 4 = CHR ''4''" "digit_char 5 = CHR ''5''" "digit_char 6 = CHR ''6''" "digit_char 7 = CHR ''7''"
  "digit_char 8 = CHR ''8''" "digit_char 9 = CHR ''9''"
  by code_simp+

text \<open>\<open>strtol\<close> on what \<open>%d\<close> writes.\<close>

lemma sshow_nonneg: "0 \<le> i \<Longrightarrow> sshow i = ushow 10 (nat i)"
  by (simp add: sshow_def)

lemma ushow_span:
  assumes "2 \<le> base" "base \<le> 10" "rest = [] \<or> \<not> isdigit_base base (hd rest)"
  shows "takeWhile (isdigit_base base) (ushow base n @ rest) = ushow base n"
    "dropWhile (isdigit_base base) (ushow base n @ rest) = rest"
proof -
  have dig: "\<And>c. c \<in> set (ushow base n) \<Longrightarrow> isdigit_base base c" using assms(1,2) by (rule ushow_digits)
  then show "takeWhile (isdigit_base base) (ushow base n @ rest) = ushow base n"
    using assms(3) by (simp add: takeWhile_append2) (metis takeWhile_eq_Nil_iff)
  show "dropWhile (isdigit_base base) (ushow base n @ rest) = rest"
    using dig assms(3) by (simp add: dropWhile_append2) (metis dropWhile_eq_self_iff)
qed

lemma strtol_minus:
  assumes "n < 2 ^ 63" "rest = [] \<or> \<not> isdigit_base 10 (hd rest)"
  shows "strtol 10 (CHR ''-'' # ushow 10 n @ rest) = (- int n, rest)"
proof -
  have "clamp_long (- int n) = - int n" using assms(1) by (simp add: clamp_long_def)
  moreover have "\<not> isspace CHR ''-''" by (simp add: isspace_def)
  ultimately show ?thesis
    using ushow_span [of 10 rest n] assms(2) by (simp add: strtol_def digits_value_ushow ushow_nonempty)
qed

lemma strtol_sshow:
  assumes "\<bar>i\<bar> < 2 ^ 63" "rest = [] \<or> \<not> isdigit_base 10 (hd rest)"
  shows "strtol 10 (sshow i @ rest) = (i, rest)"
  using assms strtol_ushow [of 10 "nat i" rest] strtol_minus [of "nat (- i)" rest]
  by (cases "0 \<le> i") (simp_all add: sshow_def nat_less_iff)

lemma length_sshow_s32: "length (sshow (sint (w :: u32))) \<le> 11"
proof -
  have r: "- (2 ^ 31) \<le> sint w" "sint w < 2 ^ 31" using sint_range_size [of w] by (simp_all add: word_size)
  have "length (ushow 10 (nat \<bar>sint w\<bar>)) \<le> 10"
    using r by (intro length_ushow) (auto simp: nat_less_iff)
  then show ?thesis by (simp add: sshow_def abs_if split: if_splits)
qed

subsection \<open>Modes and owners\<close>

text \<open>C34: a mode stored by \<open>dav_chmod\<close> is the mode \<open>dav_propfind\<close> reads back, for every mode; a
  device gets the number 0, which \<open>dav_mknod\<close> does not store.\<close>

theorem mode_roundtrip:
  "networkfs_mode (mode_text m) st =
     (if S_ISCHR m \<or> S_ISBLK m then st\<lparr>st_mode := m, st_rdev := 0\<rparr> else st\<lparr>st_mode := m\<rparr>)"
proof -
  have "unat m < 8 ^ 11" using unat_u32_less [of m] by simp
  then have "length (ushow 8 (unat m)) \<le> 11" by (intro length_ushow) simp_all
  then have t: "mode_text m = ushow 8 (unat m)" by (simp add: mode_text_def snprintf_fits)
  have "strtol 8 (ushow 8 (unat m)) = (int (unat m), [])"
    using strtol_ushow [of 8 "unat m" "[]"] unat_u32_less [of m] by simp
  moreover have "strtol 10 [] = (0, [])" by (simp add: strtol_def)
  ultimately show ?thesis by (simp add: networkfs_mode_def t)
qed

text \<open>Of an owner stored by \<open>dav_chown\<close> the user is read back, for every pair of numbers; the
  group is not: \<open>strtol\<close> stops at the colon, and the second call, which starts there, gives 0.\<close>

theorem owner_loses_group:
  "networkfs_owner (owner_text u g) st = st\<lparr>st_uid := u, st_gid := 0\<rparr>"
proof -
  let ?s = "sshow (sint g)"
  have "0 < 21 - length (sshow (sint u))" using length_sshow_s32 [of u] by simp
  then obtain k where k: "21 - length (sshow (sint u)) = Suc k" using gr0_conv_Suc by blast
  let ?rest = "take k ?s"
  have ow: "owner_text u g = sshow (sint u) @ '':'' @ ?rest"
    using length_sshow_s32 [of u] by (simp add: owner_text_def snprintf_def k)
  have c: "\<not> isdigit_base 10 CHR '':''" by (simp add: isdigit_base_def)
  have "\<bar>sint u\<bar> < 2 ^ 63" using sint_range_size [of u] by (auto simp: word_size abs_if)
  then have "strtol 10 (owner_text u g) = (sint u, CHR '':'' # ?rest)"
    using strtol_sshow [of "sint u" "CHR '':'' # ?rest"] c by (simp add: ow)
  moreover have "fst (strtol 10 (CHR '':'' # ?rest)) = 0"
    using c by (simp add: strtol_def isspace_def)
  ultimately show ?thesis by (simp add: networkfs_owner_def)
qed

subsection \<open>Byte ranges\<close>

lemma sint_u64_small:
  assumes "unat (w :: u64) < 2 ^ 63"
  shows "sint w = int (unat w)"
proof -
  from assms have "int (unat w) < int (2 ^ 63)" by (simp only: of_nat_less_iff)
  then have "signed_take_bit 63 (int (unat w)) = int (unat w)"
    by (intro signed_take_bit_int_eq_self order_trans [OF _ of_nat_0_le_iff]) simp_all
  then show ?thesis by (simp only: sint_uint uint_nat) simp
qed

lemma range_value_text:
  assumes "0 < unat sz" "unat offset + unat sz \<le> 2 ^ 63"
  shows "range_value offset sz =
    snprintf 22 (ushow 10 (unat offset) @ ''-'' @ ushow 10 (unat offset + unat sz - 1))"
proof -
  have a: "unat (sz + offset) = unat sz + unat offset" using assms by (intro unat_add_no_wrap) simp
  have "unat (sz + offset - 1) = unat sz + unat offset - 1"
    using assms a by (subst unat_diff_no_wrap) simp_all
  moreover from this have "sint (sz + offset - 1) = int (unat sz + unat offset - 1)"
    using assms by (subst sint_u64_small) simp_all
  moreover have "sint offset = int (unat offset)" using assms by (intro sint_u64_small) simp
  ultimately show ?thesis by (simp only: range_value_def sshow_nonneg of_nat_0_le_iff nat_int add.commute)
qed

text \<open>The range of a request is the text the server expects, with the first and the last byte, as
  long as the range ends below 10 GB: the array of 22 bytes has room for two numbers of ten digits.\<close>

theorem range_exact:
  assumes "0 < unat sz" "unat offset + unat sz \<le> 10 ^ 10"
  shows "range_value offset sz = ushow 10 (unat offset) @ ''-'' @ ushow 10 (unat offset + unat sz - 1)"
proof -
  have "length (ushow 10 (unat offset)) \<le> 10" "length (ushow 10 (unat offset + unat sz - 1)) \<le> 10"
    using assms by (auto intro!: length_ushow)
  moreover have "unat offset + unat sz \<le> 2 ^ 63" using assms(2) by (rule order_trans) simp
  ultimately show ?thesis using range_value_text [OF assms(1)] by (simp add: snprintf_fits)
qed

theorem range_exact_witness: "range_value 4096 4096 = ''4096-8191''"
  using range_exact [of 4096 4096] by (simp add: ushow.simps digit_chars digit_chars [simplified])

text \<open>Beyond that the array cuts the number of the last byte. For a range between 10 and 100 GB
  the server reads a last byte that is a hundredth of what is meant, before the first: the range is
  not one.\<close>

theorem range_truncated:
  assumes "0 < unat sz" "10 ^ 10 \<le> unat offset" "unat offset + unat sz \<le> 10 ^ 11"
  shows "\<exists>last. range_value offset sz = ushow 10 (unat offset) @ ''-'' @ ushow 10 last \<and>
    last = (unat offset + unat sz - 1) div 100 \<and> last < unat offset"
proof -
  let ?e = "unat offset + unat sz - 1"
  have len: "length (ushow 10 n) = 11" if "10 ^ 10 \<le> n" "n < 10 ^ 11" for n :: nat
    using that length_ushow [of 10 n 11] length_ushow_gt [of 10 10 n] by simp
  have e: "ushow 10 ?e = ushow 10 (?e div 100) @ [digit_char (?e div 10 mod 10), digit_char (?e mod 10)]"
    using assms ushow_step [of ?e] ushow_step [of "?e div 10"] by (simp add: div_mult2_eq [symmetric])
  have "length (ushow 10 (unat offset)) = 11" "length (ushow 10 ?e) = 11" using assms by (auto intro!: len)
  then have "length (ushow 10 (unat offset)) = 11" "length (ushow 10 (?e div 100)) = 9" unfolding e by simp_all
  moreover have "unat offset + unat sz \<le> 2 ^ 63" using assms(3) by (rule order_trans) simp
  ultimately have "range_value offset sz = ushow 10 (unat offset) @ ''-'' @ ushow 10 (?e div 100)"
    unfolding range_value_text [OF assms(1) \<open>unat offset + unat sz \<le> 2 ^ 63\<close>] e by (simp add: snprintf_def)
  moreover have "?e div 100 < unat offset" using assms by (simp add: div_less_iff_less_mult)
  ultimately show ?thesis by blast
qed

theorem range_truncated_witness: "range_value 20000000000 4096 = ''20000000000-200000040''"
  using range_truncated [of 4096 20000000000] by (simp add: ushow.simps digit_chars digit_chars [simplified])

subsection \<open>Request bodies\<close>

lemma length_proppatch_text:
  "length (proppatch_text action k v) = length (proppatch_text [] [] []) + 2 * length action + 2 * length k + length v"
  by (simp add: proppatch_text_def)

text \<open>The body of a PROPPATCH is never cut: the computed size of its array is enough for every key
  and value, both for setting and for removing a property.\<close>

theorem proppatch_complete:
  "proppatch_body k val =
     (case val of None \<Rightarrow> proppatch_text ''remove'' k [] | Some v \<Rightarrow> proppatch_text ''set'' k v)"
  unfolding proppatch_body_def
  using length_proppatch_text [of "''remove''" k "[]"] length_proppatch_text [of "''set''" k "the val"]
  by (cases val) (simp_all add: snprintf_fits)

subsection \<open>Lock tokens\<close>

lemma strlstrip_keep: "s = [] \<or> \<not> isspace (hd s) \<Longrightarrow> strlstrip s = s"
  by (cases s) (simp_all add: strlstrip_def)

lemma strnrstrip_line:
  assumes "s \<noteq> []" "\<not> isspace (last s)" "length (s @ crlf) \<le> n"
  shows "strnrstrip (s @ crlf) n = s"
proof -
  obtain a b where s: "s = a @ [b]" using assms(1) by (metis append_butlast_last_id)
  have "isspace CHR 0x0D" "isspace CHR 0x0A" by (simp_all add: isspace_def)
  with assms s show ?thesis by (simp add: strnrstrip_def crlf_def)
qed



subsection \<open>Directory entries\<close>

text \<open>The name handed to the directory filler is the part of the decoded path before the first
  slash, and the directory itself when there is nothing there: never empty and never with a slash.\<close>

theorem entry_name_ok:
  "entry_name f \<noteq> [] \<and> CHR ''/'' \<notin> set (entry_name f) \<and>
   entry_name f = (let n = takeWhile (\<lambda>c. c \<noteq> CHR ''/'') f in if n = [] then ''.'' else n)"
proof -
  have "(case strchr f CHR ''/'' of None \<Rightarrow> f | Some (a, _) \<Rightarrow> a) = takeWhile (\<lambda>c. c \<noteq> CHR ''/'') f"
  proof (cases "strchr f CHR ''/''")
    case None
    then have "takeWhile (\<lambda>c. c \<noteq> CHR ''/'') f = f" unfolding takeWhile_eq_all_conv by (auto simp: strchr_None)
    then show ?thesis unfolding None option.case by (rule sym)
  next
    case (Some p)
    then obtain a b where ab: "strchr f CHR ''/'' = Some (a, b)" by (cases p) auto
    then have f: "f = a @ CHR ''/'' # b" "\<And>c. c \<in> set a \<Longrightarrow> c \<noteq> CHR ''/''" by (auto simp: strchr_Some)
    then have "takeWhile (\<lambda>c. c \<noteq> CHR ''/'') f = a" by (simp add: takeWhile_append2)
    with ab show ?thesis by simp
  qed
  then show ?thesis by (auto simp: entry_name_def Let_def dest: set_takeWhileD)
qed

end
