(* ===== verification/Flow_Laws.thy ===== *)
theory Flow_Laws
  imports Exceptions
begin

text \<open>
  A small program logic for statements that may throw. \<open>runs S k I c\<close>: from a state that
  satisfies the invariant \<open>I\<close> the statement ends by falling through, by \<open>break\<close> or, when \<open>k\<close>
  holds, by \<open>continue\<close>, keeps \<open>I\<close> and loses no exception. \<open>tidy S I c\<close>: moreover it breaks
  only with an exception set and falls through only without a new one. \<open>ends S I c\<close>: it
  falls through. \<open>rets S I c\<close>: it returns. \<open>gives\<close> and \<open>quiet\<close> say of functions that they
  return, and that they leave no new exception. \<open>S\<close> lists the ways of not ending that are not
  excluded; with the empty set the judgements are about total correctness.
\<close>

named_theorems runs_intros \<open>rules for statements that end and lose no exception\<close>
named_theorems tidy_intros \<open>rules for statements that break exactly on an exception\<close>

abbreviation has :: "'a exw_scheme \<Rightarrow> bool" where
  "has g \<equiv> Exception_has (ex g)"

lemma has_set_Suc_0 [simp]: "Exception_has (e\<lparr>ex_set := Suc 0\<rparr>)"
  by (simp add: Exception_has_def)

text \<open>All judgements say that every outcome from the invariant satisfies a relation between the
  state before, the way of leaving and the state after.\<close>

definition post ::
  "stop set \<Rightarrow> ('a exw_scheme \<Rightarrow> bool) \<Rightarrow> ('a exw_scheme \<Rightarrow> 'r flow \<Rightarrow> 'a exw_scheme \<Rightarrow> bool) \<Rightarrow>
   ('l \<times> 'a exw_scheme, 'r) stmt \<Rightarrow> bool" where
  "post S I Q c \<longleftrightarrow> (\<forall>l g f l' g'. I g \<longrightarrow> c (l, g) = (f, (l', g')) \<longrightarrow>
     (\<exists>x \<in> S. f = Stop x) \<or> I g' \<and> Q g f g')"

definition runs :: "stop set \<Rightarrow> bool \<Rightarrow> ('a exw_scheme \<Rightarrow> bool) \<Rightarrow> ('l \<times> 'a exw_scheme, 'r) stmt \<Rightarrow> bool" where
  "runs S k I = post S I (\<lambda>g f g'. (f = Next \<or> f = Brk \<or> k \<and> f = Cont) \<and> (has g \<longrightarrow> has g'))"

definition tidy :: "stop set \<Rightarrow> ('a exw_scheme \<Rightarrow> bool) \<Rightarrow> ('l \<times> 'a exw_scheme, 'r) stmt \<Rightarrow> bool" where
  "tidy S I = post S I (\<lambda>g f g'. f = Next \<and> has g' = has g \<or> f = Brk \<and> has g')"

definition ends :: "stop set \<Rightarrow> ('a exw_scheme \<Rightarrow> bool) \<Rightarrow> ('l \<times> 'a exw_scheme, 'r) stmt \<Rightarrow> bool" where
  "ends S I = post S I (\<lambda>g f g'. f = Next \<and> (has g \<longrightarrow> has g'))"

definition rets :: "stop set \<Rightarrow> ('a exw_scheme \<Rightarrow> bool) \<Rightarrow> ('l \<times> 'a exw_scheme, 'r) stmt \<Rightarrow> bool" where
  "rets S I = post S I (\<lambda>g f g'. (\<exists>v. f = Ret v) \<and> (has g \<longrightarrow> has g'))"

definition gives :: "stop set \<Rightarrow> ('a exw_scheme \<Rightarrow> bool) \<Rightarrow> ('a exw_scheme, 'v) stmt \<Rightarrow> bool" where
  "gives S I c \<longleftrightarrow> (\<forall>g f g'. I g \<longrightarrow> c g = (f, g') \<longrightarrow>
     (\<exists>x \<in> S. f = Stop x) \<or> I g' \<and> (\<exists>v. f = Ret v) \<and> (has g \<longrightarrow> has g'))"

definition quiet :: "stop set \<Rightarrow> ('a exw_scheme \<Rightarrow> bool) \<Rightarrow> ('a exw_scheme, 'v) stmt \<Rightarrow> bool" where
  "quiet S I c \<longleftrightarrow> (\<forall>g f g'. I g \<longrightarrow> c g = (f, g') \<longrightarrow>
     (\<exists>x \<in> S. f = Stop x) \<or> I g' \<and> (\<exists>v. f = Ret v) \<and> has g' = has g)"

lemmas judgements = runs_def tidy_def ends_def rets_def

subsection \<open>Use\<close>

lemma postD:
  "post S I Q c \<Longrightarrow> I g \<Longrightarrow> c (l, g) = (f, (l', g')) \<Longrightarrow> (\<exists>x \<in> S. f = Stop x) \<or> I g' \<and> Q g f g'"
  unfolding post_def by blast

lemma postI:
  "(\<And>l g f l' g'. I g \<Longrightarrow> c (l, g) = (f, (l', g')) \<Longrightarrow> (\<exists>x \<in> S. f = Stop x) \<or> I g' \<and> Q g f g') \<Longrightarrow>
   post S I Q c"
  unfolding post_def by blast

lemma postE:
  assumes "post S I Q c" "I g"
  obtains (stop) x l' g' where "c (l, g) = (Stop x, (l', g'))" "x \<in> S"
  | (ok) f l' g' where "c (l, g) = (f, (l', g'))" "I g'" "Q g f g'"
  using postD [OF assms, of l] by (metis prod.exhaust)

lemma post_mono:
  assumes "post S I Q c" "\<And>g f g'. Q g f g' \<Longrightarrow> R g f g'"
  shows "post S I R c"
  using assms unfolding post_def by blast

lemma givesE:
  assumes "gives S I c" "I g"
  obtains (stop) x g' where "c g = (Stop x, g')" "x \<in> S"
  | (ok) v g' where "c g = (Ret v, g')" "I g'" "has g \<Longrightarrow> has g'"
  using assms unfolding gives_def by (metis prod.exhaust)

lemma quietE:
  assumes "quiet S I c" "I g"
  obtains (stop) x g' where "c g = (Stop x, g')" "x \<in> S"
  | (ok) v g' where "c g = (Ret v, g')" "I g'" "has g' = has g"
  using assms unfolding quiet_def by (metis prod.exhaust)

lemma runs_True: "runs S k I c \<Longrightarrow> runs S True I c"
  unfolding runs_def by (erule post_mono) blast

lemma tidy_runs: "tidy S I c \<Longrightarrow> runs S k I c"
  unfolding tidy_def runs_def by (erule post_mono) blast

lemma ends_runs: "ends S I c \<Longrightarrow> runs S k I c"
  unfolding ends_def runs_def by (erule post_mono) blast

lemma quiet_gives: "quiet S I f \<Longrightarrow> gives S I f"
  unfolding quiet_def gives_def by blast

text \<open>How a judgement about the first statement carries over to a sequence.\<close>

lemma post_block_Cons:
  assumes c: "post S I Q c"
    and go: "\<And>g f g'. Q g f g' \<Longrightarrow> f \<noteq> Next \<Longrightarrow> R g f g'"
    and cs: "post S I R (block cs)"
    and comp: "\<And>g g1 f g'. Q g Next g1 \<Longrightarrow> R g1 f g' \<Longrightarrow> R g f g'"
  shows "post S I R (block (c # cs))"
proof (rule postI)
  fix l g f l' g' assume "I g" and b: "block (c # cs) (l, g) = (f, (l', g'))"
  from c \<open>I g\<close> show "(\<exists>x \<in> S. f = Stop x) \<or> I g' \<and> R g f g'"
  proof (cases rule: postE [where l = l])
    case (ok f1 l1 g1)
    show ?thesis
    proof (cases "f1 = Next")
      case True
      from cs \<open>I g1\<close> show ?thesis
        by (cases rule: postE [where l = l1]) (use ok b True comp in auto)
    qed (use ok b go in auto)
  qed (use b in auto)
qed

lemma post_call:
  assumes f: "\<And>g fl g'. I g \<Longrightarrow> f g = (fl, g') \<Longrightarrow>
      (\<exists>x \<in> S. fl = Stop x) \<or> I g' \<and> (\<exists>v. fl = Ret v) \<and> P g g'"
    and k: "\<And>v. post S I Q (k v)"
    and comp: "\<And>g g1 f g'. P g g1 \<Longrightarrow> Q g1 f g' \<Longrightarrow> Q g f g'"
  shows "post S I Q (call f k)"
proof (rule postI)
  fix l g fl l' g' assume "I g" and b: "call f k (l, g) = (fl, (l', g'))"
  obtain f1 g1 where f1: "f g = (f1, g1)" by fastforce
  from f [OF \<open>I g\<close> f1] show "(\<exists>x \<in> S. fl = Stop x) \<or> I g' \<and> Q g fl g'"
  proof (elim disjE conjE exE bexE)
    fix v assume "I g1" "f1 = Ret v" "P g g1"
    from k [of v] \<open>I g1\<close> show ?thesis
      by (cases rule: postE [where l = l])
        (use b f1 \<open>f1 = Ret v\<close> \<open>P g g1\<close> comp in \<open>auto simp: call_simp\<close>)
  qed (use b f1 in \<open>auto simp: call_simp\<close>)
qed

subsection \<open>Rules\<close>

lemma runs_basic [runs_intros]: "runs S k I skip" "runs S k I brk" "runs S True I cont" "runs S k I (setl f)"
  by (simp_all add: runs_def post_def flow_simps)

lemma tidy_basic [tidy_intros]: "tidy S I skip" "tidy S I (setl f)"
  by (simp_all add: tidy_def post_def flow_simps)

lemma ends_basic [runs_intros]: "ends S I skip" "ends S I (setl f)"
  by (simp_all add: ends_def post_def flow_simps)

lemma runs_halt: "x \<in> S \<Longrightarrow> runs S k I (halt x)"
  by (simp add: runs_def post_def flow_simps)

lemma ends_halt: "x \<in> S \<Longrightarrow> ends S I (halt x)"
  by (simp add: ends_def post_def flow_simps)

lemma tidy_halt: "x \<in> S \<Longrightarrow> tidy S I (halt x)"
  by (simp add: tidy_def post_def flow_simps)

lemma runs_setg: "(\<And>g. I g \<Longrightarrow> I (f g) \<and> (has g \<longrightarrow> has (f g))) \<Longrightarrow> runs S k I (setg f)"
  by (simp add: runs_def post_def flow_simps)

lemma ends_setg: "(\<And>g. I g \<Longrightarrow> I (f g) \<and> (has g \<longrightarrow> has (f g))) \<Longrightarrow> ends S I (setg f)"
  by (simp add: ends_def post_def flow_simps)

lemma tidy_setg: "(\<And>g. I g \<Longrightarrow> I (f g) \<and> has (f g) = has g) \<Longrightarrow> tidy S I (setg f)"
  by (simp add: tidy_def post_def flow_simps)

lemma runs_block_Nil [runs_intros]: "runs S k I (block [])"
  by (simp add: runs_def post_def)

lemma tidy_block_Nil [tidy_intros]: "tidy S I (block [])"
  by (simp add: tidy_def post_def)

lemma ends_block_Nil [runs_intros]: "ends S I (block [])"
  by (simp add: ends_def post_def)

lemma runs_block_Cons [runs_intros]: "runs S k I c \<Longrightarrow> runs S k I (block cs) \<Longrightarrow> runs S k I (block (c # cs))"
  unfolding runs_def by (erule post_block_Cons) auto

lemma tidy_block_Cons [tidy_intros]: "tidy S I c \<Longrightarrow> tidy S I (block cs) \<Longrightarrow> tidy S I (block (c # cs))"
  unfolding tidy_def by (erule post_block_Cons) auto

lemma ends_block_Cons [runs_intros]: "ends S I c \<Longrightarrow> ends S I (block cs) \<Longrightarrow> ends S I (block (c # cs))"
  unfolding ends_def by (erule post_block_Cons) auto

lemma rets_block_Cons [runs_intros]:
  "ends S I c \<Longrightarrow> rets S I (block (d # cs)) \<Longrightarrow> rets S I (block (c # d # cs))"
  unfolding rets_def ends_def by (erule post_block_Cons) auto

lemma rets_block_last [runs_intros]: "rets S I c \<Longrightarrow> rets S I (block [c])"
  unfolding rets_def by (rule postI) (auto split: prod.splits if_splits dest: postD)

lemma post_ife: "post S I Q c \<Longrightarrow> post S I Q d \<Longrightarrow> post S I Q (ife b c d)"
  unfolding post_def by (simp add: ife_simp)

lemma post_reads: "(\<And>a. post S I Q (k a)) \<Longrightarrow> post S I Q (reads f k)"
  unfolding post_def by (simp add: reads_simp)

lemma runs_ife [runs_intros]: "runs S k I c \<Longrightarrow> runs S k I d \<Longrightarrow> runs S k I (ife b c d)"
  unfolding runs_def by (rule post_ife)

lemma tidy_ife [tidy_intros]: "tidy S I c \<Longrightarrow> tidy S I d \<Longrightarrow> tidy S I (ife b c d)"
  unfolding tidy_def by (rule post_ife)

lemma ends_ife [runs_intros]: "ends S I c \<Longrightarrow> ends S I d \<Longrightarrow> ends S I (ife b c d)"
  unfolding ends_def by (rule post_ife)

lemma runs_whenc [runs_intros]: "runs S k I c \<Longrightarrow> runs S k I (whenc b c)"
  by (simp add: whenc_def runs_intros)

lemma tidy_whenc [tidy_intros]: "tidy S I c \<Longrightarrow> tidy S I (whenc b c)"
  by (simp add: whenc_def tidy_intros)

lemma ends_whenc [runs_intros]: "ends S I c \<Longrightarrow> ends S I (whenc b c)"
  by (simp add: whenc_def runs_intros)

lemma runs_reads [runs_intros]: "(\<And>a. runs S k I (c a)) \<Longrightarrow> runs S k I (reads f c)"
  unfolding runs_def by (rule post_reads)

lemma tidy_reads [tidy_intros]: "(\<And>a. tidy S I (c a)) \<Longrightarrow> tidy S I (reads f c)"
  unfolding tidy_def by (rule post_reads)

lemma ends_reads [runs_intros]: "(\<And>a. ends S I (c a)) \<Longrightarrow> ends S I (reads f c)"
  unfolding ends_def by (rule post_reads)

lemma rets_reads [runs_intros]: "(\<And>a. rets S I (c a)) \<Longrightarrow> rets S I (reads f c)"
  unfolding rets_def by (rule post_reads)

lemma runs_call [runs_intros]: "gives S I f \<Longrightarrow> (\<And>v. runs S k I (c v)) \<Longrightarrow> runs S k I (call f c)"
  unfolding runs_def gives_def by (rule post_call [where P = "\<lambda>g g'. has g \<longrightarrow> has g'"]) blast+

lemma ends_call [runs_intros]: "gives S I f \<Longrightarrow> (\<And>v. ends S I (c v)) \<Longrightarrow> ends S I (call f c)"
  unfolding ends_def gives_def by (rule post_call [where P = "\<lambda>g g'. has g \<longrightarrow> has g'"]) blast+

lemma rets_call [runs_intros]: "gives S I f \<Longrightarrow> (\<And>v. rets S I (c v)) \<Longrightarrow> rets S I (call f c)"
  unfolding rets_def gives_def by (rule post_call [where P = "\<lambda>g g'. has g \<longrightarrow> has g'"]) blast+

lemma tidy_call [tidy_intros]: "quiet S I f \<Longrightarrow> (\<And>v. tidy S I (c v)) \<Longrightarrow> tidy S I (call f c)"
  unfolding tidy_def quiet_def by (rule post_call [where P = "\<lambda>g g'. has g' = has g"]) blast+

lemma runs_exec [runs_intros]: "gives S I f \<Longrightarrow> runs S k I (exec f)"
  by (simp add: exec_def runs_intros)

lemma ends_exec [runs_intros]: "gives S I f \<Longrightarrow> ends S I (exec f)"
  by (simp add: exec_def runs_intros)

lemma tidy_exec [tidy_intros]: "quiet S I f \<Longrightarrow> tidy S I (exec f)"
  by (simp add: exec_def tidy_intros)

lemma ends_do_once [runs_intros]:
  assumes "runs S False I c" shows "ends S I (do_once c)"
  unfolding ends_def
proof (rule postI)
  fix l g f l' g' assume "I g" and b: "do_once c (l, g) = (f, (l', g'))"
  from assms [unfolded runs_def] \<open>I g\<close> show "(\<exists>x \<in> S. f = Stop x) \<or> I g' \<and> f = Next \<and> (has g \<longrightarrow> has g')"
    by (cases rule: postE [where l = l]) (use b in \<open>auto simp: do_once_simp split: if_splits\<close>)
qed

text \<open>\<open>throwable\<close> makes a statement tidy.\<close>

lemma tidy_throwable [tidy_intros]:
  assumes "runs S True I c" shows "tidy S I (throwable c)"
  unfolding tidy_def
proof (rule postI)
  fix l g f l' g' assume "I g" and b: "throwable c (l, g) = (f, (l', g'))"
  from assms [unfolded runs_def] \<open>I g\<close>
  show "(\<exists>x \<in> S. f = Stop x) \<or> I g' \<and> (f = Next \<and> has g' = has g \<or> f = Brk \<and> has g')"
    by (cases rule: postE [where l = l]) (use b in \<open>auto simp: throwable_simp has_ex_simp split: if_splits\<close>)
qed

lemma runs_throwable [runs_intros]: "runs S True I c \<Longrightarrow> runs S k I (throwable c)"
  by (rule tidy_runs [OF tidy_throwable])

text \<open>Invariants that do not look at the exception.\<close>

definition ex_blind :: "('a exw_scheme \<Rightarrow> bool) \<Rightarrow> bool" where
  "ex_blind I \<longleftrightarrow> (\<forall>g e. I g \<longrightarrow> I (g\<lparr>ex := e\<rparr>))"

lemma ends_set_ex: "ex_blind I \<Longrightarrow> (\<And>e. Exception_has (f e)) \<Longrightarrow> ends S I (set_ex f)"
  by (auto simp: ends_def post_def set_ex_simp ex_blind_def)

lemma tidy_throw: "ex_blind I \<Longrightarrow> tidy S I (throw (set_ex f))"
  by (auto simp: tidy_def post_def throw_simp set_ex_simp ex_blind_def Exception_has_def)

lemma tidy_condition_throw: "ex_blind I \<Longrightarrow> tidy S I (condition_throw b (set_ex f))"
  unfolding condition_throw_def by (intro tidy_intros tidy_throw)

lemma tidy_throw_runs:
  assumes "ex_blind I" "runs S True I c"
  shows "tidy S I (throw c)"
  unfolding tidy_def
proof (rule postI)
  fix l g f l' g' assume "I g" and b: "throw c (l, g) = (f, (l', g'))"
  from assms(2) [unfolded runs_def] \<open>I g\<close>
  show "(\<exists>x \<in> S. f = Stop x) \<or> I g' \<and> (f = Next \<and> has g' = has g \<or> f = Brk \<and> has g')"
    by (cases rule: postE [where l = l])
      (use b assms(1) in \<open>auto simp: throw_simp ex_blind_def Exception_has_def split: if_splits\<close>)
qed

lemma tidy_check [tidy_intros]: "tidy S I check"
  by (simp add: tidy_def post_def check_simp has_ex_simp)

lemma runs_check [runs_intros]: "runs S k I check"
  by (rule tidy_runs [OF tidy_check])

lemma ends_with_test [runs_intros]:
  assumes i: "runs S False I i" and e: "runs S False I e" and b: "runs S True I b"
  shows "ends S I (with_test i c e b)"
  unfolding ends_def
proof (rule postI)
  fix l g f l' g' assume "I g" and w: "with_test i c e b (l, g) = (f, (l', g'))"
  let ?goal = "(\<exists>x \<in> S. f = Stop x) \<or> I g' \<and> f = Next \<and> (has g \<longrightarrow> has g')"
  have clean: "?goal" if "I g2" "has g \<Longrightarrow> has g2" and
      r: "(case e (l2, g2) of (f3, s3) \<Rightarrow> if f3 = Brk \<or> f3 = Next then (Next, s3) else (f3, s3)) = (f, (l', g'))"
    for l2 g2
    using e [unfolded runs_def] \<open>I g2\<close> by (cases rule: postE [where l = l2]) (use that in \<open>auto split: if_splits\<close>)
  from i [unfolded runs_def] \<open>I g\<close> show ?goal
  proof (cases rule: postE [where l = l])
    case (ok f1 l1 g1)
    note i1 = ok
    show ?thesis
    proof (cases "f1 = Next")
      case True
      show ?thesis
      proof (cases "c (l1, g1)")
        case c: True
        from b [unfolded runs_def] \<open>I g1\<close> show ?thesis
        proof (cases rule: postE [where l = l1])
          case (ok f2 l2 g2)
          with i1 w True c show ?thesis by (intro clean [of g2 l2]) (auto simp: with_test_simp)
        qed (use w i1 True c in \<open>auto simp: with_test_simp\<close>)
      next
        case False
        with i1 w True show ?thesis by (intro clean [of g1 l1]) (auto simp: with_test_simp)
      qed
    qed (use i1 w in \<open>auto simp: with_test_simp\<close>)
  qed (use w in \<open>auto simp: with_test_simp\<close>)
qed

lemma runs_with_test [runs_intros]:
  "runs S False I i \<Longrightarrow> runs S False I e \<Longrightarrow> runs S True I b \<Longrightarrow> runs S k I (with_test i c e b)"
  by (rule ends_runs [OF ends_with_test])

lemma ends_with_seperated [runs_intros]:
  "runs S False I i \<Longrightarrow> runs S False I e \<Longrightarrow> runs S True I b \<Longrightarrow> ends S I (with_seperated i e b)"
  by (simp add: with_seperated_def runs_intros)

lemma runs_with_seperated [runs_intros]:
  "runs S False I i \<Longrightarrow> runs S False I e \<Longrightarrow> runs S True I b \<Longrightarrow> runs S k I (with_seperated i e b)"
  by (rule ends_runs [OF ends_with_seperated])

lemma ends_foreach [runs_intros]:
  assumes "\<And>x. runs S True I (body x)"
  shows "ends S I (foreach body xs)"
proof (induction xs)
  case (Cons x xs)
  show ?case unfolding ends_def
  proof (rule postI)
    fix l g f l' g' assume "I g" and b: "foreach body (x # xs) (l, g) = (f, (l', g'))"
    from assms [of x, unfolded runs_def] \<open>I g\<close>
    show "(\<exists>x \<in> S. f = Stop x) \<or> I g' \<and> f = Next \<and> (has g \<longrightarrow> has g')"
    proof (cases rule: postE [where l = l])
      case (ok f1 l1 g1)
      from Cons [unfolded ends_def] \<open>I g1\<close> show ?thesis
        by (cases rule: postE [where l = l1]) (use ok b in \<open>auto split: if_splits\<close>)
    qed (use b in auto)
  qed
qed (simp add: ends_def post_def)

lemma runs_foreach [runs_intros]: "(\<And>x. runs S True I (body x)) \<Longrightarrow> runs S k I (foreach body xs)"
  by (rule ends_runs [OF ends_foreach])

lemma ends_onerror:
  assumes "runs S True I h"
  shows "ends S I (handlers [onerror h])"
proof -
  have "ends S I (with_test skip (\<lambda>_. True) skip h)" using assms by (intro runs_intros)
  then show ?thesis by (simp add: ends_def post_def onerror_def)
qed

lemma ends_try [runs_intros]:
  assumes c: "runs S True I c" and h: "runs S True I h"
  shows "ends S I (try_catch c [onerror h])"
  unfolding ends_def
proof (rule postI)
  fix l g f l' g' assume "I g" and b: "try_catch c [onerror h] (l, g) = (f, (l', g'))"
  from c [unfolded runs_def] \<open>I g\<close> show "(\<exists>x \<in> S. f = Stop x) \<or> I g' \<and> f = Next \<and> (has g \<longrightarrow> has g')"
  proof (cases rule: postE [where l = l])
    case (ok f1 l1 g1)
    from ends_onerror [OF h, unfolded ends_def] \<open>I g1\<close> show ?thesis
      by (cases rule: postE [where l = l1])
        (use ok b in \<open>auto simp: try_catch_simp has_ex_simp split: if_splits simp del: handlers.simps\<close>)
  qed (use b in \<open>auto simp: try_catch_simp\<close>)
qed

subsection \<open>Functions\<close>

lemma rets_ret [runs_intros]: "rets S I (ret v)"
  by (simp add: rets_def post_def flow_simps)

lemma gives_ret [runs_intros]: "gives S I (ret v)"
  by (simp add: gives_def flow_simps)

lemma quiet_ret [tidy_intros]: "quiet S I (ret v)"
  by (simp add: quiet_def flow_simps)

lemma gives_fn [runs_intros]: "rets S I c \<Longrightarrow> gives S I (fn l c)"
  unfolding gives_def rets_def fn_def post_def
  by (auto split: prod.splits)

subsection \<open>Resources\<close>

text \<open>A function that acquires a resource gives \<open>None\<close> only with an exception set; \<open>J x\<close> is the
  invariant while \<open>x\<close> is held. The statement that releases it leads back to \<open>I\<close>.\<close>

definition acquires ::
  "stop set \<Rightarrow> ('a exw_scheme \<Rightarrow> bool) \<Rightarrow> ('x \<Rightarrow> 'a exw_scheme \<Rightarrow> bool) \<Rightarrow> ('a exw_scheme, 'x option) stmt \<Rightarrow> bool" where
  "acquires S I J f \<longleftrightarrow> (\<forall>g fl g'. I g \<longrightarrow> f g = (fl, g') \<longrightarrow> (\<exists>x \<in> S. fl = Stop x) \<or>
     (has g \<longrightarrow> has g') \<and> (fl = Ret None \<and> I g' \<and> has g' \<or> (\<exists>x. fl = Ret (Some x) \<and> J x g')))"

definition releases ::
  "stop set \<Rightarrow> ('a exw_scheme \<Rightarrow> bool) \<Rightarrow> ('a exw_scheme \<Rightarrow> bool) \<Rightarrow> ('l \<times> 'a exw_scheme, 'r) stmt \<Rightarrow> bool" where
  "releases S J I c \<longleftrightarrow> (\<forall>l g f l' g'. J g \<longrightarrow> c (l, g) = (f, (l', g')) \<longrightarrow> (\<exists>x \<in> S. f = Stop x) \<or>
     f = Next \<and> I g' \<and> (has g \<longrightarrow> has g'))"

lemma releases_ends: "ends S I c \<Longrightarrow> releases S I I c"
  unfolding ends_def post_def releases_def by blast

text \<open>A block that holds a resource, around a body that runs only without an exception.\<close>

lemma ends_holding:
  assumes f: "acquires S I J f"
    and body: "\<And>x. runs S True (J x) (b x)"
    and e: "\<And>x. releases S (J x) I (e (Some x))" and e0: "releases S I I (e None)"
  shows "ends S I (call f (\<lambda>u. with_test skip (\<lambda>s. \<not> has_ex s) (e u)
     (case u of None \<Rightarrow> halt Segv | Some x \<Rightarrow> b x)))" (is "ends S I ?c")
  unfolding ends_def
proof (rule postI)
  fix l g fl l' g' assume "I g" and c: "?c (l, g) = (fl, (l', g'))"
  let ?goal = "(\<exists>x \<in> S. fl = Stop x) \<or> I g' \<and> fl = Next \<and> (has g \<longrightarrow> has g')"
  have rel: "?goal" if r: "releases S K I d" and "K g2" "has g \<Longrightarrow> has g2" and
      d: "(case d (l2, g2) of (f3, s3) \<Rightarrow> if f3 = Brk \<or> f3 = Next then (Next, s3) else (f3, s3)) = (fl, (l', g'))"
    for K d l2 g2
  proof -
    obtain f3 l3 g3 where d3: "d (l2, g2) = (f3, (l3, g3))" by (metis prod.exhaust)
    from r \<open>K g2\<close> d3 have "(\<exists>x \<in> S. f3 = Stop x) \<or> f3 = Next \<and> I g3 \<and> (has g2 \<longrightarrow> has g3)"
      unfolding releases_def by blast
    with d d3 that(3) show ?thesis by auto
  qed
  obtain f1 g1 where f1: "f g = (f1, g1)" by fastforce
  from f \<open>I g\<close> f1 have "(\<exists>x \<in> S. f1 = Stop x) \<or>
     (has g \<longrightarrow> has g1) \<and> (f1 = Ret None \<and> I g1 \<and> has g1 \<or> (\<exists>x. f1 = Ret (Some x) \<and> J x g1))"
    unfolding acquires_def by blast
  then consider x where "x \<in> S" "f1 = Stop x" | "f1 = Ret None" "I g1" "has g1"
    | x where "f1 = Ret (Some x)" "J x g1" "has g \<longrightarrow> has g1" by blast
  then show ?goal
  proof cases
    case 2
    with c f1 show ?thesis
      by (intro rel [OF e0, of g1 l]) (auto simp: call_simp with_test_simp skip_simp has_ex_simp)
  next
    case (3 x)
    show ?thesis
    proof (cases "has g1")
      case True
      with c f1 3 show ?thesis
        by (intro rel [OF e, of x g1 l]) (auto simp: call_simp with_test_simp skip_simp has_ex_simp)
    next
      case False
      from body [of x, unfolded runs_def] \<open>J x g1\<close> show ?thesis
      proof (cases rule: postE [where l = l])
        case (ok f2 l2 g2)
        with c f1 3 False show ?thesis
          by (intro rel [OF e, of x g2 l2]) (auto simp: call_simp with_test_simp skip_simp has_ex_simp)
      qed (use c f1 3 False in \<open>auto simp: call_simp with_test_simp skip_simp has_ex_simp\<close>)
    qed
  qed (use c f1 in \<open>auto simp: call_simp\<close>)
qed

lemma runs_holding:
  assumes "acquires S I J f" "\<And>x. runs S True (J x) (b x)"
    and "\<And>x. releases S (J x) I (e (Some x))" "releases S I I (e None)"
  shows "runs S k I (call f (\<lambda>u. with_test skip (\<lambda>s. \<not> has_ex s) (e u)
     (case u of None \<Rightarrow> halt Segv | Some x \<Rightarrow> b x)))"
  by (rule ends_runs [OF ends_holding [OF assms]])

subsection \<open>Statements that leave the variables alone\<close>

named_theorems local_intros \<open>rules for statements that do not assign to the function's variables\<close>

definition pure_local :: "('l \<times> 'g, 'r) stmt \<Rightarrow> bool" where
  "pure_local c \<longleftrightarrow> (\<forall>s. fst (snd (c s)) = fst s)"

lemma pure_localD: "pure_local c \<Longrightarrow> c (l, g) = (f, (l', g')) \<Longrightarrow> l' = l"
  unfolding pure_local_def by (metis fst_conv snd_conv)

lemma pure_basic [local_intros]:
  "pure_local skip" "pure_local brk" "pure_local cont" "pure_local (halt x)" "pure_local (setg f)" "pure_local (ret v)"
  by (simp_all add: pure_local_def skip_def brk_def cont_def halt_def setg_def ret_def)

lemma pure_set_ex [local_intros]: "pure_local (set_ex f)"
  by (simp add: set_ex_def local_intros)

lemma pure_block_Nil [local_intros]: "pure_local (block [])"
  by (simp add: pure_local_def)

lemma pure_block_Cons [local_intros]: "pure_local c \<Longrightarrow> pure_local (block cs) \<Longrightarrow> pure_local (block (c # cs))"
  unfolding pure_local_def by (auto split: prod.split) (metis fst_conv snd_conv)+

lemma pure_ife [local_intros]: "pure_local c \<Longrightarrow> pure_local d \<Longrightarrow> pure_local (ife b c d)"
  by (simp add: pure_local_def ife_def)

lemma pure_whenc [local_intros]: "pure_local c \<Longrightarrow> pure_local (whenc b c)"
  by (simp add: whenc_def local_intros)

lemma pure_reads [local_intros]: "(\<And>a. pure_local (k a)) \<Longrightarrow> pure_local (reads f k)"
  by (simp add: pure_local_def reads_def)

lemma pure_call [local_intros]:
  assumes "\<And>v. pure_local (k v)" shows "pure_local (call f k)"
  unfolding pure_local_def
proof
  fix s :: "'b \<times> 'c"
  obtain fl g where "f (snd s) = (fl, g)" by fastforce
  with assms show "fst (snd (call f k s)) = fst s" by (cases fl) (auto simp: call_def pure_local_def)
qed

lemma pure_exec [local_intros]: "pure_local (exec f)"
  by (simp add: exec_def local_intros)

lemma pure_do_once [local_intros]: "pure_local c \<Longrightarrow> pure_local (do_once c)"
  unfolding pure_local_def do_once_def by (auto split: prod.split) (metis fst_conv snd_conv)+

lemma pure_reflow [local_intros]:
  assumes "pure_local i" "pure_local e" "pure_local b" shows "pure_local (reflow i c e b)"
proof -
  note d = pure_do_once [OF assms(3)]
  show ?thesis unfolding pure_local_def
  proof
    fix s :: "'a \<times> 'b"
    obtain f1 l1 g1 where 1: "i s = (f1, (l1, g1))" by (metis prod.exhaust)
    obtain f2 l2 g2 where 2: "do_once b (l1, g1) = (f2, (l2, g2))" by (metis prod.exhaust)
    have "l1 = fst s" "l2 = l1" using assms(1) d 1 2 by (metis pure_localD prod.collapse)+
    with 1 2 assms(2) show "fst (snd (reflow i c e b s)) = fst s"
      by (auto simp: reflow_def pure_local_def)
  qed
qed

lemma pure_check [local_intros]: "pure_local check"
  by (simp add: check_def local_intros)

lemma pure_throwable [local_intros]: "pure_local c \<Longrightarrow> pure_local (throwable c)"
  by (simp add: throwable_def do_after_def local_intros)

lemma pure_throw [local_intros]: "pure_local c \<Longrightarrow> pure_local (throw c)"
  by (simp add: throw_def local_intros)

lemma pure_condition_throw [local_intros]: "pure_local c \<Longrightarrow> pure_local (condition_throw b c)"
  by (simp add: condition_throw_def local_intros)

lemma pure_with_test [local_intros]:
  assumes "pure_local i" "pure_local e" "pure_local b" shows "pure_local (with_test i c e b)"
proof -
  have "pure_local (reflow i c (block [e, brk]) b)" using assms by (intro local_intros)
  then show ?thesis unfolding pure_local_def with_test_def
    by (auto split: prod.split) (metis fst_conv snd_conv)+
qed

lemma pure_with_seperated [local_intros]:
  "pure_local i \<Longrightarrow> pure_local e \<Longrightarrow> pure_local b \<Longrightarrow> pure_local (with_seperated i e b)"
  by (simp add: with_seperated_def local_intros)

end
