(* ===== verification/Curl_Laws.thy ===== *)
theory Curl_Laws
  imports Curl Flow_Laws
begin

text \<open>
  Laws of common/wrapper/curl.c: the invariant of the pool of handles, that a handle is
  taken, used and given back without leaks, and that no operation on libcurl touches the state of its
  clients.
\<close>

subsection \<open>The invariant of the pool\<close>

text \<open>A buffer an upload reads from is well formed.\<close>

definition sendable :: "'w libs \<Rightarrow> easy_opts \<Rightarrow> bool" where
  "sendable L m \<longleftrightarrow> (\<forall>b. m CURLOPT_READDATA = Some (VBuf b) \<longrightarrow> fetch_ok b (lib_chunk L))"

definition handles :: "addr stackw \<Rightarrow> addr list \<Rightarrow> addr list" where
  "handles p as = map (\<lambda>a. the (node_val p a)) as"

text \<open>\<open>pool_inv L U g\<close>: the live handles are those of the pool, each once, and those in use, \<open>U\<close>;
  every node on the heap belongs to the pool; new addresses are fresh.\<close>

definition pool_inv :: "'w libs \<Rightarrow> addr set \<Rightarrow> ('w, 'a) world_scheme \<Rightarrow> bool" where
  "pool_inv L U g \<longleftrightarrow>
     (\<exists>as. Stack_abs (pool g) as \<and> dom (nodes (pool g)) = set as \<and> distinct (handles (pool g) as) \<and>
        set (handles (pool g) as) \<inter> U = {} \<and> dom (easy g) = set (handles (pool g) as) \<union> U) \<and>
     (\<forall>a \<in> dom (easy g) \<union> dom (nodes (pool g)). a < next_addr g) \<and>
     (\<forall>h m. easy g h = Some m \<longrightarrow> sendable L m)"

lemma pool_inv_blind [simp]:
  "pool_inv L U (g\<lparr>ex := e\<rparr>) = pool_inv L U g"
  "pool_inv L U (g\<lparr>lib := w\<rparr>) = pool_inv L U g"
  "pool_inv L U (g\<lparr>last_transfer := t\<rparr>) = pool_inv L U g"
  by (simp_all add: pool_inv_def)

lemma sendable_empty: "sendable L Map.empty"
  by (simp add: sendable_def)

lemma pool_inv_easy:
  assumes "pool_inv L U g" "dom m = dom (easy g)" "\<And>h opts. m h = Some opts \<Longrightarrow> sendable L opts"
  shows "pool_inv L U (g\<lparr>easy := m\<rparr>)"
  using assms by (simp add: pool_inv_def)

lemma pool_inv_live: "pool_inv L U g \<Longrightarrow> h \<in> U \<Longrightarrow> \<exists>m. easy g h = Some m \<and> sendable L m"
  unfolding pool_inv_def by blast

lemma node_val_dom:
  assumes "node_val p = node_val q"
  shows "dom (nodes p) = dom (nodes q)"
proof (rule set_eqI)
  fix a
  have "(nodes p a = None) = (nodes q a = None)"
    using fun_cong [OF assms, of a] by (auto simp: node_val_def)
  then show "a \<in> dom (nodes p) \<longleftrightarrow> a \<in> dom (nodes q)" by (auto simp: domIff)
qed

text \<open>Taking a node from the pool.\<close>

lemma pool_inv_pop:
  assumes inv: "pool_inv L U g" and pop: "Stack_pop (pool g) = (Ret (Some a), p)"
  shows "\<exists>n. nodes p a = Some n \<and> nd_value n \<notin> U \<and>
    pool_inv L (insert (nd_value n) U)
      (g\<lparr>pool := p\<lparr>nodes := (nodes p)(a := None)\<rparr>, easy := (easy g)(nd_value n \<mapsto> Map.empty)\<rparr>)"
proof -
  from inv obtain as where as: "Stack_abs (pool g) as" "dom (nodes (pool g)) = set as"
    "distinct (handles (pool g) as)" "set (handles (pool g) as) \<inter> U = {}"
    "dom (easy g) = set (handles (pool g) as) \<union> U"
    unfolding pool_inv_def by blast
  have "as \<noteq> []" using handle_stack.pop_nil [of "pool g"] as(1) pop by auto
  then obtain a' bs where a': "as = a' # bs" by (cases as) auto
  from handle_stack.pop_cons [OF as(1) [unfolded a']] pop a' have a: "as = a # bs"
    and bs: "Stack_abs p bs" and v: "node_val p = node_val (pool g)" by auto
  from as(2) a node_val_dom [OF v] obtain n where n: "nodes p a = Some n" by auto
  have hv: "handles (pool g) as = nd_value n # handles p bs"
    using n v by (simp add: handles_def a node_val_def flip: v)
  from bs a as(1) have nin: "a \<notin> set bs" by (auto simp: Stack_abs_def)
  let ?p = "p\<lparr>nodes := (nodes p)(a := None)\<rparr>"
  have "next_of ((nodes p)(a := None)) b = next_of (nodes p) b" if "b \<in> set bs" for b
    using that nin by (auto simp: next_of_def)
  then have "Stack_abs ?p bs"
    using bs nin by (auto simp: Stack_abs_def intro: chain_cong)
  moreover have "dom (nodes ?p) = set bs"
    using node_val_dom [OF v] as(2) nin a by auto
  moreover have "handles ?p bs = handles p bs"
    using nin by (auto simp: handles_def node_val_def)
  ultimately have "pool_inv L (insert (nd_value n) U) (g\<lparr>pool := ?p, easy := (easy g)(nd_value n \<mapsto> Map.empty)\<rparr>)"
    using as hv inv a unfolding pool_inv_def
    by (auto simp: sendable_empty intro!: exI [of _ bs])
  moreover have "nd_value n \<notin> U" using as(4) hv by simp
  ultimately show ?thesis using n by blast
qed

text \<open>A new handle.\<close>

lemma pool_inv_new:
  assumes "pool_inv L U g"
  shows "next_addr g \<notin> U" and "pool_inv L (insert (next_addr g) U)
    (g\<lparr>lib := w, easy := (easy g)(next_addr g \<mapsto> Map.empty), next_addr := Suc (next_addr g)\<rparr>)"
proof -
  from assms have fresh: "\<And>a. a \<in> dom (easy g) \<union> dom (nodes (pool g)) \<Longrightarrow> a < next_addr g"
    unfolding pool_inv_def by blast
  from assms obtain as where as: "Stack_abs (pool g) as" "dom (nodes (pool g)) = set as"
    "distinct (handles (pool g) as)" "set (handles (pool g) as) \<inter> U = {}"
    "dom (easy g) = set (handles (pool g) as) \<union> U"
    unfolding pool_inv_def by blast
  have n: "next_addr g \<notin> set (handles (pool g) as) \<union> U" using fresh as(5) by force
  then show "next_addr g \<notin> U" by simp
  show "pool_inv L (insert (next_addr g) U)
    (g\<lparr>lib := w, easy := (easy g)(next_addr g \<mapsto> Map.empty), next_addr := Suc (next_addr g)\<rparr>)"
    using as n assms fresh unfolding pool_inv_def
    by (auto simp: sendable_empty less_Suc_eq intro!: exI [of _ as])
qed

text \<open>Freeing a handle in use, and giving it back to the pool.\<close>

lemma pool_inv_free:
  assumes inv: "pool_inv L (insert h U) g" and "h \<notin> U"
  shows "pool_inv L U (g\<lparr>easy := (easy g)(h := None)\<rparr>)"
proof -
  from inv obtain as where as: "Stack_abs (pool g) as" "dom (nodes (pool g)) = set as"
    "distinct (handles (pool g) as)" "set (handles (pool g) as) \<inter> insert h U = {}"
    "dom (easy g) = set (handles (pool g) as) \<union> insert h U"
    unfolding pool_inv_def by blast
  with inv \<open>h \<notin> U\<close> show ?thesis
    unfolding pool_inv_def by (auto intro!: exI [of _ as] split: if_splits)
qed

lemma pool_inv_push:
  assumes inv: "pool_inv L (insert h U) g" and h: "h \<notin> U"
    and p: "p = (pool g)\<lparr>nodes := (nodes (pool g))(next_addr g \<mapsto> \<lparr>nd_next = None, nd_value = h\<rparr>)\<rparr>"
  shows "\<exists>p'. Stack_push (next_addr g) p = (Ret (), p') \<and>
    pool_inv L U (g\<lparr>next_addr := Suc (next_addr g), pool := p'\<rparr>)"
proof -
  let ?n = "next_addr g"
  from inv have fresh: "\<And>a. a \<in> dom (easy g) \<union> dom (nodes (pool g)) \<Longrightarrow> a < ?n"
    unfolding pool_inv_def by blast
  from inv obtain as where as: "Stack_abs (pool g) as" "dom (nodes (pool g)) = set as"
    "distinct (handles (pool g) as)" "set (handles (pool g) as) \<inter> insert h U = {}"
    "dom (easy g) = set (handles (pool g) as) \<union> insert h U"
    unfolding pool_inv_def by blast
  have n: "?n \<notin> set as" using fresh as(2) by force
  have "next_of (nodes p) b = next_of (nodes (pool g)) b" if "b \<in> set as" for b
    using that n by (auto simp: next_of_def p)
  with as(1) have abs: "Stack_abs p as"
    by (auto simp: Stack_abs_def p intro: chain_cong)
  have "node_val p ?n = Some h" by (simp add: p node_val_def)
  from handle_stack.push_abs [OF abs this n] obtain p' where
    push: "Stack_push ?n p = (Ret (), p')" and abs': "Stack_abs p' (?n # as)" and v: "node_val p' = node_val p"
    by blast
  have d: "dom (nodes p') = insert ?n (set as)"
    using node_val_dom [OF v] as(2) by (simp add: p)
  have "handles p as = handles (pool g) as"
    using n by (auto simp: handles_def p node_val_def)
  then have hv: "handles p' (?n # as) = h # handles (pool g) as"
    by (simp add: handles_def v) (simp add: p node_val_def)
  have "pool_inv L U (g\<lparr>next_addr := Suc ?n, pool := p'\<rparr>)"
    using as abs' d hv inv h fresh unfolding pool_inv_def
    by (auto simp: less_Suc_eq intro!: exI [of _ "?n # as"])
  with push show ?thesis by blast
qed

lemma has_CurlException [simp]:
  "Exception_has (CurlException_init e code action opt rc)"
  "Exception_has (CurlUrlException_init e ucode uaction part)"
  by (auto simp: Exception_has_def CurlException_init_def CurlUrlException_init_def Exception_init_def
      Let_def split: CURLaction.split)

subsection \<open>Frames\<close>

lemma pure_setopt_or_die [local_intros]: "pure_local (curl_easy_setopt_or_die L h opt v)"
  unfolding curl_easy_setopt_or_die_def by (intro local_intros)

lemma pure_set_options [local_intros]: "pure_local (set_options L h os)"
proof (induction os)
  case (Cons x os)
  have "pure_local (case x of (die, opt, v) \<Rightarrow>
      if die then curl_easy_setopt_or_die L h opt v else exec (curl_easy_setopt L h opt v))"
    by (auto split: prod.split intro!: local_intros)
  with Cons show ?case unfolding set_options_def list.map by (intro pure_block_Cons)
qed (simp add: set_options_def pure_local_def)

lemma pure_scope_CURLU [local_intros]: "(\<And>u. pure_local (b u)) \<Longrightarrow> pure_local (scope_CURLU L url b)"
  unfolding scope_CURLU_def by (intro local_intros) (auto split: option.split intro!: local_intros)

lemma pure_url_set [local_intros]: "pure_local (curl_url_set_or_die L u part c flags)"
  unfolding curl_url_set_or_die_def by (intro local_intros)

lemma pure_set_url [local_intros]: "pure_local (set_url L h url path)"
  unfolding set_url_def by (intro local_intros) (auto split: option.split prod.split intro!: local_intros)

text \<open>\<open>framed P L U\<close>: the invariant of the pool together with a predicate \<open>P\<close> on the client's part
  of the state.\<close>

definition framed :: "(('w, 'a) world_scheme \<Rightarrow> bool) \<Rightarrow> 'w libs \<Rightarrow> addr set \<Rightarrow> ('w, 'a) world_scheme \<Rightarrow> bool" where
  "framed P L U g \<longleftrightarrow> pool_inv L U g \<and> P g"

definition opt_ok :: "'w libs \<Rightarrow> CURLoption \<Rightarrow> optval \<Rightarrow> bool" where
  "opt_ok L opt v \<longleftrightarrow> (\<forall>b. opt = CURLOPT_READDATA \<longrightarrow> v = VBuf b \<longrightarrow> fetch_ok b (lib_chunk L))"

lemma opt_ok_simps [simp]: "opt \<noteq> CURLOPT_READDATA \<Longrightarrow> opt_ok L opt v"
  "opt_ok L opt (VStr s)" "opt_ok L opt (VLong n)" "opt_ok L opt (VList xs)" "opt_ok L opt (VFun cb)" "opt_ok L opt VPtr"
  "opt_ok L CURLOPT_READDATA (VBuf b) = fetch_ok b (lib_chunk L)"
  by (simp_all add: opt_ok_def)

text \<open>The part of \<open>curl_easy_perform\<close> after the request: the callbacks.\<close>

definition deliver ::
  "easy_opts \<Rightarrow> ('l, 'w, 'a) data_callback \<Rightarrow> ('l, 'w, 'a) data_callback \<Rightarrow> transfer \<Rightarrow> 'l \<Rightarrow>
   (('w, 'a) world_scheme, int \<times> 'l) stmt" where
  "deliver m hcb wcb t l g =
     (case feed (callback_for m CURLOPT_HEADERFUNCTION hcb) (t_headers t) l g of
        (Ret (ok, l1), g2) \<Rightarrow>
          if \<not> ok then (Ret (t_abort t, l1), g2)
          else (case feed (callback_for m CURLOPT_WRITEFUNCTION wcb) (t_chunks t) l1 g2 of
                  (Ret (ok2, l2), g3) \<Rightarrow> (Ret (if ok2 then t_code t else t_abort t, l2), g3)
                | (Stop x, g3) \<Rightarrow> (Stop x, g3)
                | (_, g3) \<Rightarrow> (Stop Segv, g3))
      | (Stop x, g2) \<Rightarrow> (Stop x, g2)
      | (_, g2) \<Rightarrow> (Stop Segv, g2))"

lemma perform_eq:
  assumes m: "easy g h = Some m" and u: "upload_body L m g = (Ret body, g)"
    and p: "lib_perform L \<lparr>rq_opts = m, rq_body = body\<rparr> (lib g) = (t, w)"
  shows "curl_easy_perform L h hcb wcb l g =
    deliver m hcb wcb t l (g\<lparr>lib := w, last_transfer := (last_transfer g)(h := t)\<rparr>)"
proof -
  let ?g = "g\<lparr>lib := w, last_transfer := (last_transfer g)(h := t)\<rparr>"
  obtain f1 g1 where 1: "feed (callback_for m CURLOPT_HEADERFUNCTION hcb) (t_headers t) l ?g = (f1, g1)"
    by fastforce
  show ?thesis
  proof (cases f1)
    case (Ret v)
    obtain ok l1 where v: "v = (ok, l1)" by fastforce
    obtain f2 g2 where 2: "feed (callback_for m CURLOPT_WRITEFUNCTION wcb) (t_chunks t) l1 g1 = (f2, g2)"
      by fastforce
    show ?thesis
      by (cases f2) (use 1 2 m u p Ret v in
        \<open>auto simp: curl_easy_perform_def deliver_def flow_simps lib_call_def split: prod.split\<close>)
  qed (use 1 m u p in \<open>auto simp: curl_easy_perform_def deliver_def flow_simps lib_call_def\<close>)
qed

text \<open>What a client may rely on while it uses libcurl: predicates that do not look at the
  exception, libcurl's state and the handles survive.\<close>

locale curl_frame =
  fixes P :: "('w, 'a) world_scheme \<Rightarrow> bool"
  assumes P_ex: "P (g\<lparr>ex := e\<rparr>) = P g"
    and P_lib: "P (g\<lparr>lib := w\<rparr>) = P g"
    and P_pool: "P (g\<lparr>pool := p\<rparr>) = P g"
    and P_easy: "P (g\<lparr>easy := m\<rparr>) = P g"
    and P_transfer: "P (g\<lparr>last_transfer := t\<rparr>) = P g"
    and P_addr: "P g \<Longrightarrow> next_addr g < n \<Longrightarrow> P (g\<lparr>next_addr := n\<rparr>)"
begin

lemmas P_blind = P_ex P_lib P_pool P_easy P_transfer

lemma framed_blind:
  "framed P L U (g\<lparr>ex := e\<rparr>) = framed P L U g"
  "framed P L U (g\<lparr>lib := w\<rparr>) = framed P L U g"
  "framed P L U (g\<lparr>last_transfer := t\<rparr>) = framed P L U g"
  by (simp_all add: framed_def P_blind)

lemma framed_ex_blind: "ex_blind (framed P L U)"
  by (simp add: ex_blind_def framed_blind)

lemmas framed_throw [tidy_intros] = tidy_throw [OF framed_ex_blind] tidy_condition_throw [OF framed_ex_blind]

lemmas framed_throw_runs [runs_intros] = framed_throw [THEN tidy_runs]

lemmas framed_set_ex = ends_set_ex [OF framed_ex_blind]

lemma quiet_lib_call [tidy_intros]: "quiet S (framed P L U) (lib_call f)"
  by (auto simp: quiet_def lib_call_def framed_blind split: prod.splits)

lemmas gives_lib_call [runs_intros] = quiet_gives [OF quiet_lib_call]

lemma quiet_setopt [tidy_intros]:
  assumes "opt_ok L opt v"
  shows "quiet S (framed P L U) (curl_easy_setopt L h opt v)"
  unfolding quiet_def
proof (intro allI impI)
  fix g fl g' assume I: "framed P L U g" and r: "curl_easy_setopt L h opt v g = (fl, g')"
  obtain code w where c: "lib_setopt L opt v (lib g) = (code, w)" by fastforce
  let ?m = "(easy g)(h := map_option (\<lambda>m. m(opt \<mapsto> v)) (easy g h))"
  from I have I': "pool_inv L U (g\<lparr>lib := w\<rparr>)" "P (g\<lparr>lib := w\<rparr>)" by (simp_all add: framed_def P_lib)
  have "dom ?m = dom (easy (g\<lparr>lib := w\<rparr>))" by (auto simp: domIff split: if_splits)
  moreover have "sendable L opts" if "?m k = Some opts" for k opts
    using that I'(1) assms
    by (auto simp: pool_inv_def sendable_def opt_ok_def split: if_splits)
  ultimately have "framed P L U (g\<lparr>lib := w, easy := ?m\<rparr>)"
    unfolding framed_def P_easy by (intro conjI pool_inv_easy I')
  with r c show "(\<exists>x\<in>S. fl = Stop x) \<or> framed P L U g' \<and> (\<exists>v. fl = Ret v) \<and> has g' = has g"
    using I' by (auto simp: curl_easy_setopt_def framed_def split: if_splits)
qed

lemmas gives_setopt [runs_intros] = quiet_gives [OF quiet_setopt]

lemma tidy_setopt_or_die [tidy_intros]:
  "opt_ok L opt v \<Longrightarrow> tidy S (framed P L U) (curl_easy_setopt_or_die L h opt v)"
  unfolding curl_easy_setopt_or_die_def by (intro tidy_intros)

lemmas runs_setopt_or_die [runs_intros] = tidy_runs [OF tidy_setopt_or_die]

lemma gives_slist_append [runs_intros]: "gives S (framed P L U) (curl_slist_append_e L' xs x)"
  unfolding curl_slist_append_e_def
  by (intro runs_intros) (auto intro!: runs_intros framed_set_ex simp: has_CurlException)

lemma gives_slist_weak [runs_intros]: "gives S (framed P L U) (curl_slist_append_weak L' xs x)"
  unfolding curl_slist_append_weak_def by (intro runs_intros)

lemma gives_unescape [runs_intros]: "gives S (framed P L U) (curl_easy_unescape_e L' x)"
  unfolding curl_easy_unescape_e_def
  by (intro runs_intros framed_set_ex) (simp add: has_CurlException)

lemma gives_url_cleanup [runs_intros]: "gives S (framed P L U) (curl_url_cleanup L' u)"
  unfolding curl_url_cleanup_def by (intro runs_intros)

lemma tidy_url_set [tidy_intros]: "tidy S (framed P L U) (curl_url_set_or_die L' u part c fl)"
  unfolding curl_url_set_or_die_def by (intro tidy_intros)

lemmas runs_url_set [runs_intros] = tidy_runs [OF tidy_url_set]

lemma acquires_url_dup: "acquires S (framed P L U) (\<lambda>_. framed P L U) (curl_url_dup_e L' u)"
  by (auto simp: acquires_def curl_url_dup_e_def flow_simps lib_call_def framed_blind has_CurlException
      split: prod.splits if_splits option.splits)

lemma ends_scope_CURLU [runs_intros]:
  assumes "\<And>u. runs S True (framed P L U) (b u)"
  shows "ends S (framed P L U) (scope_CURLU L' url b)"
  unfolding scope_CURLU_def
  by (rule ends_holding [OF acquires_url_dup assms]; intro releases_ends runs_intros)

lemmas runs_scope_CURLU [runs_intros] = ends_runs [OF ends_scope_CURLU]

lemma tidy_set_url [tidy_intros]: "tidy S (framed P L U) (set_url L h url path)"
  unfolding set_url_def
  by (intro tidy_intros runs_intros | (auto split: prod.splits option.splits intro!: runs_intros)[1])+

lemma tidy_setopt_either [tidy_intros]:
  "opt_ok L opt v \<Longrightarrow> tidy S (framed P L U)
    (if d then curl_easy_setopt_or_die L h opt v else exec (curl_easy_setopt L h opt v))"
  by (auto intro!: tidy_intros)

lemma tidy_set_options [tidy_intros]:
  assumes "\<And>d opt v. (d, opt, v) \<in> set os \<Longrightarrow> opt_ok L opt v"
  shows "tidy S (framed P L U) (set_options L h os)"
  using assms
proof (induction os)
  case (Cons x os)
  obtain d opt v where x: "x = (d, opt, v)" by (metis prod.exhaust)
  have ok: "opt_ok L opt v" using Cons.prems x by auto
  note ih = Cons.IH [unfolded set_options_def]
  show ?case unfolding set_options_def list.map x prod.case
    by (intro tidy_block_Cons tidy_setopt_either ok ih) (use Cons.prems in auto)
qed (simp add: set_options_def tidy_intros)

lemma take_handle_cases:
  assumes "framed P L U g"
  obtains h g1 where "(take_handle L :: (addr option \<times> ('w, 'a) world_scheme, addr option) stmt) (l, g) = (Next, (Some h, g1))" "h \<notin> U"
      "framed P L (insert h U) g1" "has g1 = has g" "easy g1 h = Some Map.empty"
  | g1 where "(take_handle L :: (addr option \<times> ('w, 'a) world_scheme, addr option) stmt) (l, g) = (Brk, (None, g1))" "framed P L U g1" "has g1"
proof -
  have inv: "pool_inv L U g" and p: "P g" using assms by (simp_all add: framed_def)
  then obtain as where as: "Stack_abs (pool g) as" unfolding pool_inv_def by blast
  show thesis
  proof (cases as)
    case Nil
    obtain ok w where n: "lib_easy_init L (lib g) = (ok, w)" by fastforce
    have pop: "on_pool Stack_pop g = (Ret None, g)"
      using handle_stack.pop_nil [OF as [unfolded Nil]] by (simp add: on_pool_def)
    show thesis
    proof (cases ok)
      case True
      let ?g = "g\<lparr>lib := w, easy := (easy g)(next_addr g \<mapsto> Map.empty), next_addr := Suc (next_addr g)\<rparr>"
      have "(take_handle L :: (addr option \<times> ('w, 'a) world_scheme, addr option) stmt) (l, g) = (Next, (Some (next_addr g), ?g))"
        using pop n True by (simp add: take_handle_def flow_simps curl_easy_init_def)
      moreover have "framed P L (insert (next_addr g) U) ?g"
        using pool_inv_new(2) [OF inv, of w] p by (simp add: framed_def P_blind P_addr)
      ultimately show thesis using that(1) pool_inv_new(1) [OF inv] by simp
    next
      case False
      have "(take_handle L :: (addr option \<times> ('w, 'a) world_scheme, addr option) stmt) (l, g) =
        (Brk, (None, g\<lparr>lib := w, ex := (CurlException_init (ex g) 0 CURL_INIT CURLOPT_URL 0)\<lparr>ex_set := 1\<rparr>\<rparr>))"
        using pop n False by (simp add: take_handle_def flow_simps curl_easy_init_def)
      with that(2) assms show thesis by (simp add: framed_blind Exception_has_def)
    qed
  next
    case (Cons a bs)
    from handle_stack.pop_cons [OF as [unfolded Cons]] obtain q where q: "Stack_pop (pool g) = (Ret (Some a), q)"
      by blast
    from pool_inv_pop [OF inv q] obtain n where n: "nodes q a = Some n" "nd_value n \<notin> U"
      and i: "pool_inv L (insert (nd_value n) U)
        (g\<lparr>pool := q\<lparr>nodes := (nodes q)(a := None)\<rparr>, easy := (easy g)(nd_value n \<mapsto> Map.empty)\<rparr>)" (is "pool_inv _ _ ?g")
      by blast
    have "(take_handle L :: (addr option \<times> ('w, 'a) world_scheme, addr option) stmt) (l, g) = (Next, (Some (nd_value n), ?g))"
      using q n by (simp add: take_handle_def flow_simps on_pool_def)
    moreover have "framed P L (insert (nd_value n) U) ?g" using i p by (simp add: framed_def P_blind)
    ultimately show thesis using that(1) n by simp
  qed
qed

text \<open>\<open>curl_easy_init_common\<close> ends: it gives a handle, which is then in use, unless an exception is
  set.\<close>

lemma init_common_cases:
  assumes I: "framed P L U g"
  obtains h g1 where "curl_easy_init_common L url path options g = (Ret (Some h), g1)" "h \<notin> U"
      "framed P L (insert h U) g1" "\<not> has g1" "\<not> has g"
  | g1 where "curl_easy_init_common L url path options g = (Ret None, g1)" "framed P L U g1" "has g1"
proof -
  let ?os = "case options of None \<Rightarrow> [] | Some opt \<Rightarrow> common_options opt"
  let ?rest = "\<lambda>h. block [exec (curl_easy_setopt L h CURLOPT_ERRORBUFFER VPtr), set_url L h url path,
    set_options L h ?os, set_options L h fixed_options] ::
      (addr option \<times> ('w, 'a) world_scheme, addr option) stmt"
  show thesis using I
  proof (cases rule: take_handle_cases [where l = None])
    case (1 h g1)
    have "tidy {} (framed P L (insert h U)) (?rest h)"
      by (intro tidy_intros) (auto simp: fixed_options_def common_options_def split: option.splits if_splits)
    moreover have "pure_local (?rest h)"
      by (intro local_intros pure_set_url pure_set_options)
    ultimately consider g2 where "?rest h (Some h, g1) = (Next, (Some h, g2))" "framed P L (insert h U) g2" "has g2 = has g1"
      | g2 where "?rest h (Some h, g1) = (Brk, (Some h, g2))" "framed P L (insert h U) g2" "has g2"
      using 1(3) unfolding tidy_def
      by (elim postE [where l = "Some h"]) (auto dest: pure_localD)
    then show thesis
    proof cases
      case a: (1 g2)
      show thesis
      proof (cases "has g2")
        case True
        let ?g = "g2\<lparr>easy := (easy g2)(h := None)\<rparr>"
        have "curl_easy_init_common L url path options g = (Ret None, ?g)"
          using 1(1) a True by (simp add: curl_easy_init_common_def flow_simps onerror_def curl_easy_cleanup_def)
        moreover have "framed P L U ?g"
          using a(2) 1(2) pool_inv_free by (auto simp: framed_def P_easy)
        ultimately show thesis using that(2) True by simp
      next
        case False
        have "curl_easy_init_common L url path options g = (Ret (Some h), g2)"
          using 1(1) a False by (simp add: curl_easy_init_common_def flow_simps)
        then show thesis using that(1) a 1 False by simp
      qed
    next
      case b: (2 g2)
      let ?g = "g2\<lparr>easy := (easy g2)(h := None)\<rparr>"
      have "curl_easy_init_common L url path options g = (Ret None, ?g)"
        using 1(1) b by (simp add: curl_easy_init_common_def flow_simps onerror_def curl_easy_cleanup_def)
      moreover have "framed P L U ?g"
        using b(2) 1(2) pool_inv_free by (auto simp: framed_def P_easy)
      ultimately show thesis using that(2) b(3) by simp
    qed
  next
    case (2 g1)
    then have "curl_easy_init_common L url path options g = (Ret None, g1)"
      by (simp add: curl_easy_init_common_def flow_simps onerror_def curl_easy_cleanup_def)
    with that(2) 2 show thesis by simp
  qed
qed

lemma acquires_init_common:
  "acquires S (framed P L U) (\<lambda>h g. h \<notin> U \<and> framed P L (insert h U) g) (curl_easy_init_common L url path options)"
  unfolding acquires_def
proof (intro allI impI)
  fix g fl g' assume I: "framed P L U g" and r: "curl_easy_init_common L url path options g = (fl, g')"
  from I show "(\<exists>x\<in>S. fl = Stop x) \<or> (has g \<longrightarrow> has g') \<and> (fl = Ret None \<and> framed P L U g' \<and> has g' \<or>
      (\<exists>h. fl = Ret (Some h) \<and> h \<notin> U \<and> framed P L (insert h U) g'))"
    by (cases rule: init_common_cases [where url = url and path = path and options = options]) (use r in auto)
qed

text \<open>\<open>curl_easy_cleanup_common\<close> gives the handle back, to the pool or to libcurl.\<close>

lemma cleanup_common:
  assumes "framed P L (insert h U) g" "h \<notin> U"
  shows "\<exists>g'. curl_easy_cleanup_common L (Some h) g = (Ret (), g') \<and> framed P L U g' \<and> ex g' = ex g"
proof -
  obtain ok w where m: "lib_malloc L (lib g) = (ok, w)" by fastforce
  have inv: "pool_inv L (insert h U) (g\<lparr>lib := w\<rparr>)" and p: "P g"
    using assms(1) by (simp_all add: framed_def)
  show ?thesis
  proof (cases ok)
    case True
    let ?n = "next_addr g"
    let ?p = "(pool g)\<lparr>nodes := (nodes (pool g))(?n \<mapsto> \<lparr>nd_next = None, nd_value = h\<rparr>)\<rparr>"
    from pool_inv_push [OF inv assms(2), of ?p] obtain p' where push: "Stack_push ?n ?p = (Ret (), p')"
      and i: "pool_inv L U (g\<lparr>lib := w, next_addr := Suc ?n, pool := p'\<rparr>)" by auto
    have "curl_easy_cleanup_common L (Some h) g = (Ret (), g\<lparr>lib := w, next_addr := Suc ?n, pool := p'\<rparr>)"
      using m True push by (simp add: curl_easy_cleanup_common_def flow_simps lib_call_def on_pool_def)
    with i p show ?thesis by (simp add: framed_def P_blind P_addr)
  next
    case False
    have "curl_easy_cleanup_common L (Some h) g = (Ret (), g\<lparr>lib := w, easy := (easy g)(h := None)\<rparr>)"
      using m False by (simp add: curl_easy_cleanup_common_def flow_simps lib_call_def curl_easy_cleanup_def)
    with pool_inv_free [OF inv assms(2)] p show ?thesis by (simp add: framed_def P_blind)
  qed
qed

lemma releases_cleanup:
  "releases S (\<lambda>g. h \<notin> U \<and> framed P L (insert h U) g) (framed P L U) (exec (curl_easy_cleanup_common L (Some h)))"
  unfolding releases_def
proof (intro allI impI)
  fix l g f l' g'
  assume J: "h \<notin> U \<and> framed P L (insert h U) g"
    and r: "exec (curl_easy_cleanup_common L (Some h)) (l, g) = (f, (l', g'))"
  from cleanup_common [of L h U g] J obtain g2 where
    "curl_easy_cleanup_common L (Some h) g = (Ret (), g2)" "framed P L U g2" "ex g2 = ex g" by blast
  with r show "(\<exists>x\<in>S. f = Stop x) \<or> f = Next \<and> framed P L U g' \<and> (has g \<longrightarrow> has g')"
    by (simp add: flow_simps)
qed

lemma runs_conj: "b \<Longrightarrow> runs S k I c \<Longrightarrow> runs S k (\<lambda>g. b \<and> I g) c"
  by simp

lemma ends_with_curl [runs_intros]:
  assumes "\<And>h. h \<notin> U \<Longrightarrow> runs S True (framed P L (insert h U)) (body h)"
  shows "ends S (framed P L U) (with_curl L url path options body)"
  unfolding with_curl_def
proof (rule ends_holding [OF acquires_init_common])
  show "runs S True (\<lambda>g. h \<notin> U \<and> framed P L (insert h U) g) (body h)" for h
    using assms [of h] by (cases "h \<in> U") (auto simp: runs_def post_def)
  show "releases S (\<lambda>g. h \<notin> U \<and> framed P L (insert h U) g) (framed P L U) (exec (curl_easy_cleanup_common L (Some h)))" for h
    by (rule releases_cleanup)
  show "releases S (framed P L U) (framed P L U) (exec (curl_easy_cleanup_common L None))"
    by (intro releases_ends runs_intros) (simp add: curl_easy_cleanup_common_def runs_intros)
qed

lemmas runs_with_curl [runs_intros] = ends_runs [OF ends_with_curl]

lemma gives_feed [runs_intros]:
  assumes "\<And>c n l. gives S I (cb c n l)"
  shows "gives S I (feed cb cs l)"
proof (induction cs arbitrary: l)
  case (Cons c cs)
  show ?case unfolding gives_def
  proof (intro allI impI)
    fix g fl g' assume "I g" and r: "feed cb (c # cs) l g = (fl, g')"
    from assms [of c "of_nat (length c)" l] \<open>I g\<close>
    show "(\<exists>x\<in>S. fl = Stop x) \<or> I g' \<and> (\<exists>v. fl = Ret v) \<and> (has g \<longrightarrow> has g')"
    proof (cases rule: givesE)
      case (ok v g1)
      obtain n b where v: "v = (n, b)" by fastforce
      from Cons [of b] \<open>I g1\<close> show ?thesis
        by (cases rule: givesE) (use ok r v in \<open>auto split: if_splits\<close>)
    qed (use r in auto)
  qed
qed (auto simp: gives_def)

lemma quiet_feed:
  assumes "\<And>c n l. quiet S I (cb c n l)"
  shows "quiet S I (feed cb cs l)"
proof (induction cs arbitrary: l)
  case (Cons c cs)
  show ?case unfolding quiet_def
  proof (intro allI impI)
    fix g fl g' assume "I g" and r: "feed cb (c # cs) l g = (fl, g')"
    from assms [of c "of_nat (length c)" l] \<open>I g\<close>
    show "(\<exists>x\<in>S. fl = Stop x) \<or> I g' \<and> (\<exists>v. fl = Ret v) \<and> has g' = has g"
    proof (cases rule: quietE)
      case (ok v g1)
      obtain n b where v: "v = (n, b)" by fastforce
      from Cons [of b] \<open>I g1\<close> show ?thesis
        by (cases rule: quietE) (use ok r v in \<open>auto split: if_splits\<close>)
    qed (use r in auto)
  qed
qed (auto simp: quiet_def)

lemma upload_body_ok:
  assumes "lib_chunk L \<noteq> 0" "sendable L m"
  shows "\<exists>body. upload_body L m g = (Ret body, g)"
proof (cases "\<exists>b. m CURLOPT_READDATA = Some (VBuf b)")
  case True
  then obtain b where b: "m CURLOPT_READDATA = Some (VBuf b)" by blast
  with assms(2) have "fetch_ok b (lib_chunk L)" by (simp add: sendable_def)
  moreover have "length (Buffer_rest b) < Suc (length (bdata b))" by (simp add: Buffer_rest_def)
  ultimately obtain b' where
    "drain (Suc (length (bdata b))) Buffer_fetch (lib_chunk L) b g = (Ret (Some (Buffer_rest b, b')), g)"
    using fetch_buffer.drain_all [OF _ assms(1)] by metis
  with b show ?thesis by (simp add: upload_body_def flow_simps del: drain.simps)
next
  case False
  then show ?thesis
    by (auto simp: upload_body_def flow_simps split: option.splits optval.splits)
qed

lemma deliver_gives:
  assumes cb: "\<And>c k l. gives S (framed P L U) (hcb c k l)" "\<And>c k l. gives S (framed P L U) (wcb c k l)"
  shows "gives S (framed P L U) (deliver m hcb wcb t l)"
  unfolding gives_def
proof (intro allI impI)
  fix g fl g' assume I: "framed P L U g" and r: "deliver m hcb wcb t l g = (fl, g')"
  have cb': "\<And>opt c k l. gives S (framed P L U) (callback_for m opt hcb c k l)"
    "\<And>opt c k l. gives S (framed P L U) (callback_for m opt wcb c k l)"
    using cb by (auto simp: callback_for_def no_callback_def intro!: gives_ret)
  from gives_feed [OF cb'(1)] I
  show "(\<exists>x\<in>S. fl = Stop x) \<or> framed P L U g' \<and> (\<exists>v. fl = Ret v) \<and> (has g \<longrightarrow> has g')"
  proof (cases rule: givesE [where c = "feed (callback_for m CURLOPT_HEADERFUNCTION hcb) (t_headers t) l"])
    case (ok v g2)
    obtain b1 l1 where v: "v = (b1, l1)" by fastforce
    from gives_feed [OF cb'(2)] ok(2) show ?thesis
      by (cases rule: givesE [where c = "feed (callback_for m CURLOPT_WRITEFUNCTION wcb) (t_chunks t) l1"])
        (use ok v r in \<open>auto simp: deliver_def split: if_splits\<close>)
  qed (use r in \<open>auto simp: deliver_def\<close>)
qed

lemma deliver_quiet:
  assumes cb: "\<And>c k l. quiet S (framed P L U) (hcb c k l)" "\<And>c k l. quiet S (framed P L U) (wcb c k l)"
  shows "quiet S (framed P L U) (deliver m hcb wcb t l)"
  unfolding quiet_def
proof (intro allI impI)
  fix g fl g' assume I: "framed P L U g" and r: "deliver m hcb wcb t l g = (fl, g')"
  have cb': "\<And>opt c k l. quiet S (framed P L U) (callback_for m opt hcb c k l)"
    "\<And>opt c k l. quiet S (framed P L U) (callback_for m opt wcb c k l)"
    using cb by (auto simp: callback_for_def no_callback_def intro!: quiet_ret)
  from quiet_feed [OF cb'(1)] I
  show "(\<exists>x\<in>S. fl = Stop x) \<or> framed P L U g' \<and> (\<exists>v. fl = Ret v) \<and> has g' = has g"
  proof (cases rule: quietE [where c = "feed (callback_for m CURLOPT_HEADERFUNCTION hcb) (t_headers t) l"])
    case (ok v g2)
    obtain b1 l1 where v: "v = (b1, l1)" by fastforce
    from quiet_feed [OF cb'(2)] ok(2) show ?thesis
      by (cases rule: quietE [where c = "feed (callback_for m CURLOPT_WRITEFUNCTION wcb) (t_chunks t) l1"])
        (use ok v r in \<open>auto simp: deliver_def split: if_splits\<close>)
  qed (use r in \<open>auto simp: deliver_def\<close>)
qed

lemma perform_steps:
  assumes I: "framed P L U g" and h: "h \<in> U" and n: "lib_chunk L \<noteq> 0"
  obtains m t g1 where "framed P L U g1" "ex g1 = ex g"
    "curl_easy_perform L h hcb wcb l g = deliver m hcb wcb t l g1"
proof -
  from I have "pool_inv L U g" by (simp add: framed_def)
  from pool_inv_live [OF this h] obtain m where m: "easy g h = Some m" "sendable L m" by blast
  from upload_body_ok [OF n m(2)] obtain body where u: "upload_body L m g = (Ret body, g)" by blast
  obtain t w where p: "lib_perform L \<lparr>rq_opts = m, rq_body = body\<rparr> (lib g) = (t, w)" by fastforce
  show thesis
    by (rule that [OF _ _ perform_eq [OF m(1) u p]]) (use I in \<open>simp_all add: framed_blind\<close>)
qed

lemma gives_perform [runs_intros]:
  assumes h: "h \<in> U" and n: "lib_chunk L \<noteq> 0"
    and cb: "\<And>c k l. gives S (framed P L U) (hcb c k l)" "\<And>c k l. gives S (framed P L U) (wcb c k l)"
  shows "gives S (framed P L U) (curl_easy_perform L h hcb wcb l)"
  unfolding gives_def
proof (intro allI impI)
  fix g fl g' assume I: "framed P L U g" and r: "curl_easy_perform L h hcb wcb l g = (fl, g')"
  from perform_steps [OF I h n] obtain m t g1 where g1: "framed P L U g1" "ex g1 = ex g" and
    p: "curl_easy_perform L h hcb wcb l g = deliver m hcb wcb t l g1" .
  from deliver_gives [OF cb] g1(1)
  show "(\<exists>x\<in>S. fl = Stop x) \<or> framed P L U g' \<and> (\<exists>v. fl = Ret v) \<and> (has g \<longrightarrow> has g')"
    by (cases rule: givesE [where c = "deliver m hcb wcb t l"]) (use p r g1 in auto)
qed

lemma quiet_perform [tidy_intros]:
  assumes h: "h \<in> U" and n: "lib_chunk L \<noteq> 0"
    and cb: "\<And>c k l. quiet S (framed P L U) (hcb c k l)" "\<And>c k l. quiet S (framed P L U) (wcb c k l)"
  shows "quiet S (framed P L U) (curl_easy_perform L h hcb wcb l)"
  unfolding quiet_def
proof (intro allI impI)
  fix g fl g' assume I: "framed P L U g" and r: "curl_easy_perform L h hcb wcb l g = (fl, g')"
  from perform_steps [OF I h n] obtain m t g1 where g1: "framed P L U g1" "ex g1 = ex g" and
    p: "curl_easy_perform L h hcb wcb l g = deliver m hcb wcb t l g1" .
  from deliver_quiet [OF cb] g1(1)
  show "(\<exists>x\<in>S. fl = Stop x) \<or> framed P L U g' \<and> (\<exists>v. fl = Ret v) \<and> has g' = has g"
    by (cases rule: quietE [where c = "deliver m hcb wcb t l"]) (use p r g1 in auto)
qed

lemma tidy_perform_or_die [tidy_intros]:
  assumes "h \<in> U" "lib_chunk L \<noteq> 0"
    and "\<And>c k l. quiet S (framed P L U) (hcb c k l)" "\<And>c k l. quiet S (framed P L U) (wcb c k l)"
  shows "tidy S (framed P L U) (curl_easy_perform_or_die L h hcb wcb)"
  unfolding curl_easy_perform_or_die_def condition_throw_def
  using assms
  by (intro tidy_intros quiet_perform)
    (auto split: prod.splits intro!: tidy_intros runs_intros tidy_throw_runs framed_ex_blind ends_runs [OF framed_set_ex])

lemma runs_perform_or_die [runs_intros]:
  assumes "h \<in> U" "lib_chunk L \<noteq> 0"
    and "\<And>c k l. gives S (framed P L U) (hcb c k l)" "\<And>c k l. gives S (framed P L U) (wcb c k l)"
  shows "runs S k (framed P L U) (curl_easy_perform_or_die L h hcb wcb)"
  unfolding curl_easy_perform_or_die_def condition_throw_def
  using assms
  by (intro runs_intros gives_perform)
    (auto split: prod.splits intro!: runs_intros tidy_runs [OF tidy_throw_runs] framed_ex_blind ends_runs [OF framed_set_ex])

lemma quiet_no_callback [tidy_intros]: "quiet S I (no_callback c k l)"
  unfolding no_callback_def by (rule quiet_ret)

lemma gives_no_callback [runs_intros]: "gives S I (no_callback c k l)"
  unfolding no_callback_def by (rule gives_ret)

end

subsection \<open>What an operation on libcurl leaves alone, and what is set on a handle\<close>

interpretation client: curl_frame "\<lambda>g. world.more g = x" for x
  by unfold_locales simp_all

definition only_opts :: "(CURLoption \<times> optval) set \<Rightarrow> addr \<Rightarrow> ('w, 'a) world_scheme \<Rightarrow> bool" where
  "only_opts A h g \<longleftrightarrow> (\<exists>m. easy g h = Some m \<and> (\<forall>opt v. m opt = Some v \<longrightarrow> (opt, v) \<in> A))"

lemma only_opts_blind:
  "only_opts A h (g\<lparr>ex := e\<rparr>) = only_opts A h g" "only_opts A h (g\<lparr>lib := w\<rparr>) = only_opts A h g"
  by (simp_all add: only_opts_def)

lemma keeps_only_lib [keeps_intros]: "keeps (only_opts A h) (lib_call f)"
  by (auto simp: keeps_def lib_call_def only_opts_blind split: prod.splits)

lemma keeps_only_set_ex [keeps_intros]: "keeps (\<lambda>s. only_opts A h (snd s)) (set_ex f)"
  by (auto simp: keeps_def set_ex_def setg_def only_opts_blind)

lemma keeps_only_setopt [keeps_intros]:
  "(opt, v) \<in> A \<Longrightarrow> keeps (only_opts A h) (curl_easy_setopt L h opt v)"
  by (auto simp: keeps_def curl_easy_setopt_def only_opts_def split: prod.splits)

lemma keeps_exec [keeps_intros]: "keeps P f \<Longrightarrow> keeps (\<lambda>s. P (snd s)) (exec f)"
  unfolding exec_def by (intro keeps_intros)

lemma keeps_throw [keeps_intros]:
  "(\<And>g e. P g \<Longrightarrow> P (g\<lparr>ex := e\<rparr>)) \<Longrightarrow> keeps (\<lambda>s. P (snd s)) c \<Longrightarrow> keeps (\<lambda>s. P (snd s)) (throw c)"
  unfolding throw_def set_ex_def by (intro keeps_intros keeps_setg)

lemma keeps_only_throw [keeps_intros]:
  "keeps (\<lambda>s. only_opts A h (snd s)) c \<Longrightarrow> keeps (\<lambda>s. only_opts A h (snd s)) (condition_throw b c)"
  unfolding condition_throw_def by (intro keeps_intros) (simp_all add: only_opts_blind)

lemma keeps_with_seperated [keeps_intros]:
  "keeps P i \<Longrightarrow> keeps P e \<Longrightarrow> keeps P b \<Longrightarrow> keeps P (with_seperated i e b)"
  unfolding with_seperated_def by (intro keeps_intros)

lemma keeps_only_or_die [keeps_intros]:
  "(opt, v) \<in> A \<Longrightarrow> keeps (\<lambda>s. only_opts A h (snd s)) (curl_easy_setopt_or_die L h opt v)"
  unfolding curl_easy_setopt_or_die_def by (intro keeps_intros)

lemma keeps_only_set_options [keeps_intros]:
  "(\<And>d opt v. (d, opt, v) \<in> set os \<Longrightarrow> (opt, v) \<in> A) \<Longrightarrow>
   keeps (\<lambda>s. only_opts A h (snd s)) (set_options L h os)"
  unfolding set_options_def
  by (rule keeps_block) (auto split: prod.splits intro!: keeps_intros)


lemma keeps_only_url [keeps_intros]:
  "keeps (only_opts A h) (curl_url_dup_e L u)" "keeps (only_opts A h) (curl_url_cleanup L v)"
  unfolding curl_url_dup_e_def curl_url_cleanup_def by (intro keeps_fn keeps_intros)+

lemma keeps_only_scope [keeps_intros]:
  "(\<And>u. keeps (\<lambda>s. only_opts A h (snd s)) (b u)) \<Longrightarrow> keeps (\<lambda>s. only_opts A h (snd s)) (scope_CURLU L url b)"
  unfolding scope_CURLU_def by (intro keeps_intros) (auto split: option.split intro!: keeps_intros)

lemma keeps_only_url_set [keeps_intros]:
  "keeps (\<lambda>s. only_opts A h (snd s)) (curl_url_set_or_die L u part c flags)"
  unfolding curl_url_set_or_die_def by (intro keeps_intros) (simp_all add: only_opts_blind)

lemma keeps_only_set_url [keeps_intros]:
  assumes "\<And>s. (CURLOPT_URL, VStr (Some s)) \<in> A"
  shows "keeps (\<lambda>s. only_opts A h (snd s)) (set_url L h url path)"
  unfolding set_url_def
  by (intro keeps_intros) (auto split: option.split prod.split simp: only_opts_blind assms intro!: keeps_intros)

text \<open>The options a handle may have when it is handed out.\<close>

definition init_options :: "networkfs_opts option \<Rightarrow> (CURLoption \<times> optval) set" where
  "init_options options =
     {(CURLOPT_ERRORBUFFER, VPtr)} \<union> range (\<lambda>s. (CURLOPT_URL, VStr (Some s))) \<union>
     {(opt, v). \<exists>die. (die, opt, v) \<in> set ((case options of None \<Rightarrow> [] | Some opt \<Rightarrow> common_options opt) @ fixed_options)}"

subsection \<open>A library to try the theorems on\<close>

text \<open>Every call succeeds; the state is the log of the requests, to which \<open>reply\<close> answers.\<close>

definition demo_lib :: "(request \<Rightarrow> transfer) \<Rightarrow> request list libs" where
  "demo_lib reply = \<lparr>
     lib_malloc = (\<lambda>w. (True, w)), lib_easy_init = (\<lambda>w. (True, w)), lib_setopt = (\<lambda>_ _ w. (0, w)),
     lib_perform = (\<lambda>rq w. (reply rq, w @ [rq])), lib_slist_append = (\<lambda>_ _ w. (True, w)),
     lib_url_new = (\<lambda>w. (Some 0, w)), lib_url_dup = (\<lambda>_ w. (Some 0, w)), lib_url_free = (\<lambda>_ w. w),
     lib_url_set = (\<lambda>_ _ _ _ w. (CURLUE_OK, w)), lib_url_get = (\<lambda>_ _ w. ((CURLUE_OK, ''http://h/''), w)),
     lib_unescape = (\<lambda>s w. (Some s, w)), lib_xml_create = (\<lambda>_ w. (True, w)), lib_xml_chunk = (\<lambda>_ w. (True, w)),
     lib_xml_doc = (\<lambda>_. None), lib_time = (\<lambda>_ _. None), lib_chunk = 16384, lib_uninit = 0,
     lib_uninit_bytes = (\<lambda>n. replicate n (CHR 0x00)), lib_uninit_stat = stat0\<rparr>"

definition reply_ok :: "request \<Rightarrow> transfer" where
  "reply_ok rq = \<lparr>t_headers = [], t_chunks = [], t_code = 0, t_abort = 23, t_response_code = 200,
     t_effective_url = ''http://h/'', t_redirect_url = None\<rparr>"

text \<open>The state after loading: no handle exists.\<close>

definition world0 :: "'w \<Rightarrow> 'w world" where
  "world0 w = \<lparr>ex = ex_initial, lib = w, pool = \<lparr>nodes = Map.empty, stack = Stack_init\<rparr>, easy = Map.empty,
     last_transfer = (\<lambda>_. reply_ok \<lparr>rq_opts = Map.empty, rq_body = []\<rparr>), next_addr = 0\<rparr>"

lemma pool_inv_world0: "pool_inv L {} (world0 w)"
  unfolding pool_inv_def
  by (auto simp: world0_def Stack_abs_def Stack_init_def handles_def intro!: exI [of _ "[]"])

text \<open>A run of \<open>curl_easy_init_common\<close> on it.\<close>

lemma demo_init:
  "curl_easy_init_common (demo_lib reply) u path None (world0 w) =
    (Ret (Some 0), (world0 w)\<lparr>easy := [0 \<mapsto> [CURLOPT_ERRORBUFFER \<mapsto> VPtr, CURLOPT_URL \<mapsto> VStr (Some ''http://h/''),
       CURLOPT_USERAGENT \<mapsto> VStr (Some ''networkfs/0.0''), CURLOPT_FAILONERROR \<mapsto> VLong 1,
       CURLOPT_FOLLOWLOCATION \<mapsto> VLong 1, CURLOPT_NETRC \<mapsto> VLong 1]], next_addr := 1\<rparr>)"
  by (cases "relative_path path")
    (simp_all add: curl_easy_init_common_def take_handle_def on_pool_def Stack_pop_def flow_simps world0_def
      ensure_synchronized_spin_def spin_lock_def set_lock_def Stack_init_def curl_easy_init_def demo_lib_def
      set_url_def scope_CURLU_def curl_url_dup_e_def lib_call_def curl_url_cleanup_def curl_easy_setopt_def
      curl_easy_setopt_or_die_def curl_url_set_or_die_def set_options_def fixed_options_def ex_initial_def
      Exception_has_def)

subsection \<open>Properties\<close>

lemma init_common_only:
  assumes "pool_inv L U g" and "curl_easy_init_common L url path options g = (Ret (Some h), g1)"
  shows "\<exists>m. easy g1 h = Some m \<and> (\<forall>opt v. m opt = Some v \<longrightarrow> (opt, v) \<in> init_options options)"
proof -
  let ?A = "init_options options"
  let ?rest = "\<lambda>h. block [exec (curl_easy_setopt L h CURLOPT_ERRORBUFFER VPtr), set_url L h url path,
    set_options L h (case options of None \<Rightarrow> [] | Some opt \<Rightarrow> common_options opt), set_options L h fixed_options] ::
      (addr option \<times> ('a, 'b) world_scheme, addr option) stmt"
  have pure: "pure_local (?rest k)" for k
    by (intro local_intros pure_set_url pure_set_options)
  have k: "keeps (\<lambda>s. only_opts ?A k (snd s)) (?rest k)" for k
    by (intro keeps_intros) (auto simp: init_options_def)
  have "framed (\<lambda>k. world.more k = world.more g) L U g" using assms(1) by (simp add: framed_def)
  then show ?thesis
  proof (cases rule: client.take_handle_cases [where l = None])
    case (1 h' g2)
    have "only_opts ?A h' g2" using 1(5) by (simp add: only_opts_def)
    obtain f l3 g3 where r: "?rest h' (Some h', g2) = (f, (l3, g3))" by (metis prod.exhaust)
    have l3: "l3 = Some h'" using pure_localD [OF pure r] .
    have "tidy {} (framed (\<lambda>k. world.more k = world.more g) L (insert h' U)) (?rest h')"
      by (intro tidy_intros) (auto simp: fixed_options_def common_options_def split: option.splits if_splits)
    from postD [OF this [unfolded tidy_def] 1(3) r] have "f = Next \<or> f = Brk" by blast
    have "only_opts ?A h' g3" using keepsD [OF k, of h' "(Some h', g2)" f "(l3, g3)"] r \<open>only_opts ?A h' g2\<close> by simp
    moreover have "h' = h \<and> g3 = g1"
      using assms(2) 1(1) r l3 \<open>f = Next \<or> f = Brk\<close>
      by (auto simp: curl_easy_init_common_def flow_simps onerror_def split: if_splits)
    ultimately show ?thesis by (auto simp: only_opts_def)
  next
    case (2 g2)
    with assms(2) show ?thesis by (simp add: curl_easy_init_common_def flow_simps onerror_def)
  qed
qed

text \<open>In particular no data to send is left on it.\<close>

lemma handle_no_data:
  assumes "pool_inv L U g" "curl_easy_init_common L url path options g = (Ret (Some h), g1)" "easy g1 h = Some m"
  shows "m CURLOPT_READDATA = None"
proof -
  have "(CURLOPT_READDATA, v) \<notin> init_options options" for v
    by (auto simp: init_options_def common_options_def fixed_options_def split: option.splits if_splits)
  with init_common_only [OF assms(1,2)] assms(3) show ?thesis by (metis option.exhaust option.inject)
qed

text \<open>C15: taking a handle from the pool and giving it back. From any state in which the live handles
  are those of the pool and those in use (\<open>U\<close>), \<open>curl_easy_init_common\<close> returns, with a handle nobody
  else uses or with an exception set; whenever that handle is given back, the in-use set is the
  old one again: no handle is leaked, lost or handed out twice, and the client's part of the
  state is untouched.\<close>

theorem curl_handle_lease:
  assumes "pool_inv L U g"
  shows "\<exists>r g1. curl_easy_init_common L url path options g = (Ret r, g1) \<and> world.more g1 = world.more g \<and>
    (case r of
       None \<Rightarrow> Exception_has (ex g1) \<and> pool_inv L U g1
     | Some h \<Rightarrow> \<not> Exception_has (ex g1) \<and> h \<notin> U \<and> pool_inv L (insert h U) g1 \<and>
         (\<forall>g2. pool_inv L (insert h U) g2 \<longrightarrow> (\<exists>g3. curl_easy_cleanup_common L (Some h) g2 = (Ret (), g3) \<and>
            pool_inv L U g3 \<and> ex g3 = ex g2 \<and> world.more g3 = world.more g2)))"
proof -
  have "framed (\<lambda>k. world.more k = world.more g) L U g" using assms by (simp add: framed_def)
  then show ?thesis
  proof (cases rule: client.init_common_cases [where url = url and path = path and options = options])
    case (1 h g1)
    have "\<exists>g3. curl_easy_cleanup_common L (Some h) g2 = (Ret (), g3) \<and> pool_inv L U g3 \<and> ex g3 = ex g2 \<and>
        world.more g3 = world.more g2" if "pool_inv L (insert h U) g2" for g2
      using client.cleanup_common [of "world.more g2" L h U g2] that 1(2) by (auto simp: framed_def)
    with 1 show ?thesis by (auto simp: framed_def)
  next
    case (2 g1)
    then show ?thesis by (auto simp: framed_def)
  qed
qed

theorem curl_handle_lease_witness:
  "\<exists>r g1. curl_easy_init_common (demo_lib reply_ok) 0 (Some ''/a'') None (world0 []) = (Ret r, g1) \<and>
    world.more g1 = () \<and>
    (case r of
       None \<Rightarrow> Exception_has (ex g1) \<and> pool_inv (demo_lib reply_ok) {} g1
     | Some h \<Rightarrow> \<not> Exception_has (ex g1) \<and> h \<notin> {} \<and> pool_inv (demo_lib reply_ok) {h} g1 \<and>
         (\<forall>g2. pool_inv (demo_lib reply_ok) {h} g2 \<longrightarrow>
           (\<exists>g3. curl_easy_cleanup_common (demo_lib reply_ok) (Some h) g2 = (Ret (), g3) \<and>
            pool_inv (demo_lib reply_ok) {} g3 \<and> ex g3 = ex g2 \<and> world.more g3 = world.more g2)))"
  using curl_handle_lease [OF pool_inv_world0, of "demo_lib reply_ok" 0 "Some ''/a''" None "[]"] by simp

text \<open>C16: a handle that is handed out carries only options for the request at hand: nothing is left
  of the requests it served before (no upload flag, range, header list or callback).\<close>

theorem curl_handle_clean:
  assumes "pool_inv L U g" and "curl_easy_init_common L url path options g = (Ret (Some h), g1)"
  shows "\<exists>m. easy g1 h = Some m \<and> (\<forall>opt v. m opt = Some v \<longrightarrow> (opt, v) \<in> init_options options)"
  using assms by (rule init_common_only)

theorem curl_handle_clean_witness:
  "\<exists>g1 m. curl_easy_init_common (demo_lib reply_ok) 0 (Some ''/a'') None (world0 []) = (Ret (Some 0), g1) \<and>
    easy g1 0 = Some m \<and> (\<forall>opt v. m opt = Some v \<longrightarrow> (opt, v) \<in> init_options None)"
proof -
  obtain g1 where g1: "curl_easy_init_common (demo_lib reply_ok) 0 (Some ''/a'') None (world0 []) = (Ret (Some 0), g1)"
    by (simp add: demo_init)
  with curl_handle_clean [OF pool_inv_world0 g1] show ?thesis by blast
qed

end
