(* ===== verification/Dav_Laws.thy ===== *)
theory Dav_Laws
  imports Dav_Oper Curl_Laws
begin

text \<open>
  Laws of the WebDAV methods of proto/dav/method.c: which of them end whatever the server
  answers, and what they do to the read-write lock that guards the table of file locks.
\<close>

subsection \<open>The invariant of the lock table\<close>

text \<open>Every lock of the table has an object of its own on the heap, with its path and the token of
  the server.\<close>

definition lock_entry :: "('w, 'a) davw_scheme \<Rightarrow> string \<Rightarrow> addr \<Rightarrow> bool" where
  "lock_entry g p a \<longleftrightarrow> a < next_addr g \<and>
     (\<exists>fl t. locks g a = Some fl \<and> fl_path fl = Some p \<and> fl_token fl = Some t)"

definition lock_wf :: "('w, 'a) davw_scheme \<Rightarrow> bool" where
  "lock_wf g \<longleftrightarrow> distinct (map fst (sv_tree g)) \<and> distinct (map snd (sv_tree g)) \<and>
     (\<forall>(p, a) \<in> set (sv_tree g). lock_entry g p a)"

text \<open>\<open>dav_inv opts r w\<close>: the file system's options, the state of the read-write lock (readers and
  writer), and a well-formed table.\<close>

definition dav_inv :: "networkfs_opts \<Rightarrow> nat \<Rightarrow> bool \<Rightarrow> ('w, 'a) davw_scheme \<Rightarrow> bool" where
  "dav_inv opts r w g \<longleftrightarrow> sv_options g = opts \<and> sv_readers g = r \<and> sv_writer g = w \<and> lock_wf g"

lemma lock_entry_addr: "lock_entry g p a \<Longrightarrow> next_addr g < n \<Longrightarrow> lock_entry (g\<lparr>next_addr := n\<rparr>) p a"
  by (auto simp: lock_entry_def)

lemma lock_wf_addr: "lock_wf g \<Longrightarrow> next_addr g < n \<Longrightarrow> lock_wf (g\<lparr>next_addr := n\<rparr>)"
  unfolding lock_wf_def using lock_entry_addr by fastforce

lemma lock_wf_find: "lock_wf g \<Longrightarrow> tfind p (sv_tree g) = Some a \<Longrightarrow> lock_entry g p a"
  unfolding lock_wf_def tfind_def by (fastforce dest: map_of_SomeD)

lemma lock_wf_delete:
  assumes wf: "lock_wf g" and a: "tfind p (sv_tree g) = Some a"
  shows "lock_wf (g\<lparr>sv_tree := tdelete p (sv_tree g), locks := (locks g)(a := None)\<rparr>)"
proof -
  have mem: "(p, a) \<in> set (sv_tree g)" using a by (auto simp: tfind_def dest: map_of_SomeD)
  have inj: "inj_on snd (set (sv_tree g))" using wf by (simp add: lock_wf_def distinct_map)
  have "b \<noteq> a" if "(q, b) \<in> set (sv_tree g)" "q \<noteq> p" for q b
    using inj_onD [OF inj _ that(1) mem] that(2) by auto
  with wf show ?thesis
    unfolding lock_wf_def tdelete_def
    by (auto simp: lock_entry_def distinct_map inj_on_def)
qed

lemma lock_entry_blind [simp]:
  "lock_entry (g\<lparr>ex := e\<rparr>) p a = lock_entry g p a" "lock_entry (g\<lparr>lib := l\<rparr>) p a = lock_entry g p a"
  "lock_entry (g\<lparr>pool := q\<rparr>) p a = lock_entry g p a" "lock_entry (g\<lparr>easy := m\<rparr>) p a = lock_entry g p a"
  "lock_entry (g\<lparr>last_transfer := t\<rparr>) p a = lock_entry g p a"
  "lock_entry (g\<lparr>sv_readers := r\<rparr>) p a = lock_entry g p a" "lock_entry (g\<lparr>sv_writer := w\<rparr>) p a = lock_entry g p a"
  by (simp_all add: lock_entry_def)

interpretation server: curl_frame "dav_inv opts r w" for opts r w
  by unfold_locales (auto simp: dav_inv_def lock_wf_def lock_entry_addr)

subsection \<open>Parts of methods\<close>

text \<open>A client of the server record whose predicate survives libcurl.\<close>

locale dav_frame = curl_frame P for P :: "('w, 'a) davw_scheme \<Rightarrow> bool"
begin

lemma ends_with_server [runs_intros]:
  assumes "\<And>h. h \<notin> U \<Longrightarrow> runs S True (framed P L (insert h U)) (body h)"
  shows "ends S (framed P L U) (with_server L path body)"
  unfolding with_server_def
  by (intro runs_intros) (auto split: prod.split intro!: runs_intros assms)

lemmas runs_with_server [runs_intros] = ends_runs [OF ends_with_server]

lemma tidy_setopt [tidy_intros]: "opt_ok L opt v \<Longrightarrow> tidy S (framed P L U) (setopt L h opt v)"
  unfolding setopt_def by (intro tidy_intros)

lemmas runs_setopt [runs_intros] = tidy_runs [OF tidy_setopt]

lemma tidy_setopt_list [tidy_intros]: "tidy S (framed P L U) (setopt_list L h)"
  unfolding setopt_list_def by (intro tidy_intros) simp

lemmas runs_setopt_list [runs_intros] = tidy_runs [OF tidy_setopt_list]

lemma tidy_setopt_upload [tidy_intros]:
  "fetch_ok b (lib_chunk L) \<Longrightarrow> tidy S (framed P L U) (setopt_upload L h b)"
  unfolding setopt_upload_def by (intro tidy_intros) simp_all

lemmas runs_setopt_upload [runs_intros] = tidy_runs [OF tidy_setopt_upload]

lemma runs_assign_list [runs_intros]:
  "(\<And>l. gives S (framed P L U) (f l)) \<Longrightarrow> runs S k (framed P L U) (assign_list f)"
  unfolding assign_list_def by (intro runs_intros)

lemma ends_scope_slist [runs_intros]:
  "runs S True (framed P L U) b \<Longrightarrow> ends S (framed P L U) (scope_slist L' x b)"
  unfolding scope_slist_def
  by (intro runs_intros) (auto split: option.split intro!: runs_intros)

lemmas runs_scope_slist [runs_intros] = ends_runs [OF ends_scope_slist]

lemma ends_with_range [runs_intros]:
  "(\<And>s. runs S True (framed P L U) (b s)) \<Longrightarrow> ends S (framed P L U) (with_range off sz b)"
  unfolding with_range_def by (intro runs_intros)

lemmas runs_with_range [runs_intros] = ends_runs [OF ends_with_range]

lemma rets_ret_status [runs_intros]: "rets S (framed P L U) ret_status"
  unfolding ret_status_def by (intro runs_intros)

lemma gives_malloc_e [runs_intros]: "gives S (framed P L U) (malloc_e L' name)"
  unfolding malloc_e_def by (intro runs_intros framed_set_ex) simp

lemma gives_unlock_raw [runs_intros]:
  "lib_chunk L \<noteq> 0 \<Longrightarrow> gives S (framed P L U) (dav_unlock_raw L path (Some t))"
  unfolding dav_unlock_raw_def by (intro runs_intros | simp)+

lemma gives_head [runs_intros]:
  "lib_chunk L \<noteq> 0 \<Longrightarrow> gives S (framed P L U) (dav_head L path sz)"
  unfolding dav_head_def dav_head_callback_def by (intro runs_intros | simp)+

end

interpretation server_dav: dav_frame "dav_inv opts r w" for opts r w ..

subsection \<open>The If header\<close>

definition if_header :: "string \<Rightarrow> string" where
  "if_header token = ''If: (<'' @ token @ ''>)''"

lemma snprintf_if_header: "snprintf (9 + length token) (''If: (<'' @ token @ ''>)'') = if_header token"
  by (simp add: snprintf_def if_header_def)

lemma header_if_none:
  "tfind path (sv_tree g) = None \<Longrightarrow> dav_header_if L l path lt g = (Ret l, g)"
  by (simp add: dav_header_if_def flow_simps)

lemma header_if_some:
  assumes "tfind path (sv_tree g) = Some a" "locks g a = Some fl" "fl_token fl = Some t"
    and "lib_slist_append L l (if_header t) (lib g) = (ok, w)"
  shows "dav_header_if L l path lt g =
    (if \<not> ok then (Ret [], g\<lparr>lib := w, ex := CurlException_init (ex g) 0 CURL_SLIST_APPEND CURLOPT_URL 0\<rparr>)
     else (Ret (l @ [if_header t]),
       if lt = RW_LOCK_WRITE
       then g\<lparr>lib := w, sv_tree := tdelete path (sv_tree g), locks := (locks g)(a := None)\<rparr>
       else g\<lparr>lib := w\<rparr>))"
  using assms
  by (simp add: dav_header_if_def flow_simps snprintf_if_header [simplified] curl_slist_append_e_def lib_call_def)

lemma gives_header_if [runs_intros]: "gives S (framed (dav_inv opts r w) L U) (dav_header_if L' l path lt)"
  unfolding gives_def
proof (intro allI impI)
  fix g fl g' assume I: "framed (dav_inv opts r w) L U g" and e: "dav_header_if L' l path lt g = (fl, g')"
  show "(\<exists>x\<in>S. fl = Stop x) \<or> framed (dav_inv opts r w) L U g' \<and> (\<exists>v. fl = Ret v) \<and> (has g \<longrightarrow> has g')"
  proof (cases "tfind path (sv_tree g)")
    case None
    with I e header_if_none [OF None, of L' l lt] show ?thesis by auto
  next
    case (Some a)
    from I have wf: "lock_wf g" by (simp add: framed_def dav_inv_def)
    from lock_wf_find [OF wf Some] obtain f t where f: "locks g a = Some f" "fl_token f = Some t"
      by (auto simp: lock_entry_def)
    obtain ok w' where w: "lib_slist_append L' l (if_header t) (lib g) = (ok, w')" by fastforce
    have "pool_inv L U (g\<lparr>lib := w', sv_tree := tdelete path (sv_tree g), locks := (locks g)(a := None)\<rparr>)"
      using I by (simp add: framed_def pool_inv_def)
    moreover have "dav_inv opts r w (g\<lparr>lib := w', sv_tree := tdelete path (sv_tree g), locks := (locks g)(a := None)\<rparr>)"
      using I lock_wf_delete [of "g\<lparr>lib := w'\<rparr>" path a] wf Some by (simp add: framed_def dav_inv_def lock_wf_def)
    ultimately show ?thesis
      using header_if_some [OF Some f w, of lt] e I
      by (auto simp: framed_def server.P_blind split: if_splits)
  qed
qed

lemma tidy_add_if [tidy_intros]: "tidy S (framed (dav_inv opts r w) L U) (add_if L' path lt)"
  unfolding add_if_def by (intro tidy_intros server_dav.runs_assign_list gives_header_if)

lemmas runs_add_if [runs_intros] = tidy_runs [OF tidy_add_if]

subsection \<open>Methods under the read-write lock\<close>

text \<open>The part of \<open>__dav_method\<close> between taking and giving back the lock.\<close>

definition method_request :: "'w libs \<Rightarrow> string \<Rightarrow> string \<Rightarrow> LockType \<Rightarrow> addr \<Rightarrow> ('w, 'a, int) davs" where
  "method_request L path mth lock_type curl =
     throwable (scope_slist L None (block [
       whenc (\<lambda>s. locking s \<and> lock_type \<noteq> RW_LOCK_NONE) (block [
         add_if L path lock_type,
         setopt_list L curl]),
       curl_easy_setopt_or_die L curl CURLOPT_CUSTOMREQUEST (VStr (Some mth)),
       setopt L curl CURLOPT_NOBODY (VLong 1),
       curl_easy_perform_or_die L curl no_callback no_callback]))"

lemma tidy_method_request:
  "lib_chunk L \<noteq> 0 \<Longrightarrow> h \<in> U \<Longrightarrow>
   tidy S (framed (dav_inv opts r w) L U) (method_request L path mth lt h)"
  unfolding method_request_def by (intro tidy_intros runs_intros server_dav.runs_scope_slist | simp)+

lemma with_server_some:
  assumes "curl_easy_init_common L (sv_baseuh g) path (Some (sv_options g)) g = (Ret (Some h), g1)" "\<not> has g1"
    and "body h (l, g1) = (f, (l2, g2))" "f = Next \<or> f = Brk \<or> f = Cont"
    and "curl_easy_cleanup_common L (Some h) g2 = (Ret (), g3)"
  shows "with_server L path body (l, g) = (Next, (l2, g3))"
  using assms by (auto simp: with_server_def with_curl_def flow_simps)

lemma with_server_stop:
  assumes "curl_easy_init_common L (sv_baseuh g) path (Some (sv_options g)) g = (Ret (Some h), g1)" "\<not> has g1"
    and "body h (l, g1) = (Stop x, (l2, g2))"
  shows "with_server L path body (l, g) = (Stop x, (l2, g2))"
  using assms by (auto simp: with_server_def with_curl_def flow_simps)

lemma with_server_none:
  assumes "curl_easy_init_common L (sv_baseuh g) path (Some (sv_options g)) g = (Ret None, g1)" "has g1"
  shows "with_server L path body (l, g) = (Next, (l, g1))"
  using assms by (simp add: with_server_def with_curl_def flow_simps curl_easy_cleanup_common_def)

text \<open>The state of the read-write lock, and what taking it makes of it.\<close>

definition rw :: "('w, 'a) davw_scheme \<Rightarrow> nat \<times> bool" where
  "rw g = (sv_readers g, sv_writer g)"

fun rw_taken :: "LockType \<Rightarrow> nat \<times> bool \<Rightarrow> nat \<times> bool" where
  "rw_taken RW_LOCK_NONE x = x"
| "rw_taken RW_LOCK_READ (r, w) = (Suc r, w)"
| "rw_taken RW_LOCK_WRITE (r, w) = (r, True)"

definition rw_free :: "LockType \<Rightarrow> ('w, 'a) davw_scheme \<Rightarrow> bool" where
  "rw_free lt g \<longleftrightarrow> \<not> sv_writer g \<and> (lt = RW_LOCK_WRITE \<longrightarrow> sv_readers g = 0)"

definition set_rw :: "nat \<times> bool \<Rightarrow> ('w, 'a) davw_scheme \<Rightarrow> ('w, 'a) davw_scheme" where
  "set_rw x g = g\<lparr>sv_readers := fst x, sv_writer := snd x\<rparr>"

lemma take_rwlock_free: "rw_free lt g \<Longrightarrow> take_rwlock lt (l, g) = (Next, (l, set_rw (rw_taken lt (rw g)) g))"
  by (cases lt) (auto simp: take_rwlock_def flow_simps rw_free_def set_rw_def rw_def)

lemma take_rwlock_busy:
  "lt \<noteq> RW_LOCK_NONE \<Longrightarrow> \<not> rw_free lt g \<Longrightarrow> take_rwlock lt (l, g) = (Stop Blocked, (l, g))"
  by (cases lt) (auto simp: take_rwlock_def flow_simps rw_free_def)

lemma rw_unlock_taken:
  "rw_free lt g \<Longrightarrow> lt \<noteq> RW_LOCK_NONE \<Longrightarrow> rw g' = rw_taken lt (rw g) \<Longrightarrow> rw_unlock (l, g') = (Next, (l, set_rw (rw g) g'))"
  by (cases lt) (auto simp: flow_simps rw_free_def set_rw_def rw_def)

lemma framed_dav_inv:
  "framed (dav_inv opts r w) L U g \<longleftrightarrow> pool_inv L U g \<and> lock_wf g \<and> sv_options g = opts \<and> rw g = (r, w)"
  by (auto simp: framed_def dav_inv_def rw_def)

lemma set_rw_simps [simp]:
  "pool_inv L U (set_rw x g) = pool_inv L U g" "lock_wf (set_rw x g) = lock_wf g"
  "sv_options (set_rw x g) = sv_options g" "rw (set_rw x g) = x" "ex (set_rw x g) = ex g"
  by (cases x; simp add: set_rw_def pool_inv_def lock_wf_def rw_def lock_entry_def)+

lemma dav_method_body:
  "dav_method L path mth lt = fn (dframe0 L) (block [
     with_server L (Some path) (\<lambda>curl. block [
       whenc (\<lambda>s. locking s \<and> lt \<noteq> RW_LOCK_NONE) (take_rwlock lt),
       method_request L path mth lt curl,
       whenc (\<lambda>s. locking s \<and> lt \<noteq> RW_LOCK_NONE) rw_unlock]),
     ret_status])"
  by (simp add: dav_method_def method_request_def)

definition method_body :: "'w libs \<Rightarrow> string \<Rightarrow> string \<Rightarrow> LockType \<Rightarrow> addr \<Rightarrow> ('w, 'a, int) davs" where
  "method_body L path mth lt curl = block [
     whenc (\<lambda>s. locking s \<and> lt \<noteq> RW_LOCK_NONE) (take_rwlock lt),
     method_request L path mth lt curl,
     whenc (\<lambda>s. locking s \<and> lt \<noteq> RW_LOCK_NONE) rw_unlock]"

lemma method_body_cases:
  fixes g :: "('w, 'a) davw_scheme"
  assumes I: "framed (dav_inv opts r w) L U g" "h \<in> U" and n: "lib_chunk L \<noteq> 0" and e: "\<not> has g"
    and lk: "use_lock opts" "lt \<noteq> RW_LOCK_NONE" "rw_free lt g"
  obtains (fine) l' g' where "method_body L path mth lt h (l, g) = (Next, (l', g'))" "\<not> has g'" "framed (dav_inv opts r w) L U g'"
  | (bad) l' g' where "method_body L path mth lt h (l, g) = (Brk, (l', g'))" "has g'"
      "case rw_taken lt (r, w) of (r', w') \<Rightarrow> framed (dav_inv opts r' w') L U g'"
proof -
  obtain r' w' where rw': "rw_taken lt (r, w) = (r', w')" by fastforce
  let ?J = "framed (dav_inv opts r' w') L U"
  let ?g = "set_rw (r', w') g"
  have g: "rw g = (r, w)" "sv_options g = opts" using I(1) by (simp_all add: framed_dav_inv)
  have take: "(take_rwlock lt :: ('w, 'a, int) davs) (l, g) = (Next, (l, ?g))"
    using take_rwlock_free [OF lk(3)] g(1) rw' by simp
  have lkg: "locking (l, g)" using lk g by (simp add: locking_def)
  have "?J ?g" using I(1) by (simp add: framed_dav_inv)
  with tidy_method_request [OF n I(2), of "{}" opts r' w' path mth lt, unfolded tidy_def] show thesis
  proof (cases rule: postE [where l = l])
    case (ok f l3 g3)
    have g3: "sv_options g3 = opts" "rw g3 = rw_taken lt (rw g)" "pool_inv L U g3" "lock_wf g3"
      using ok(2) rw' g(1) by (simp_all add: framed_dav_inv)
    from ok(3) consider (go) "f = Next" "\<not> has g3" | (stop) "f = Brk" "has g3" using e by auto
    then show thesis
    proof cases
      case go
      have "(rw_unlock :: ('w, 'a, int) davs) (l3, g3) = (Next, (l3, set_rw (rw g) g3))"
        by (rule rw_unlock_taken [OF lk(3,2) g3(2)])
      then have "method_body L path mth lt h (l, g) = (Next, (l3, set_rw (rw g) g3))"
        using take lkg lk ok(1) go g3(1) by (simp add: method_body_def whenc_simp locking_def)
      then show thesis by (rule fine) (use g3 g go in \<open>simp_all add: framed_dav_inv\<close>)
    next
      case stop
      have "method_body L path mth lt h (l, g) = (Brk, (l3, g3))"
        using take lkg lk ok(1) stop g3(1) by (simp add: method_body_def whenc_simp locking_def)
      then show thesis by (rule bad) (use ok(2) rw' stop in auto)
    qed
  qed simp
qed

text \<open>Both ends of \<open>__dav_method\<close> when the lock is used and can be taken.\<close>

lemma dav_method_run:
  assumes h: "curl_easy_init_common L (sv_baseuh g) (Some path) (Some (sv_options g)) g = (Ret (Some h), g1)" "\<not> has g1" "h \<notin> U"
    and b: "method_body L path mth lt h (dframe0 L, g1) = (f, (l3, g3))" "f = Next \<or> f = Brk \<or> f = Cont"
    and I: "framed (dav_inv opts r w) L (insert h U) g3"
  obtains g4 where "dav_method L path mth lt g = (Ret (if has g3 then 1 else 0), g4)" "framed (dav_inv opts r w) L U g4" "ex g4 = ex g3"
proof -
  from server.cleanup_common [OF I h(3)] obtain g4 where g4:
    "curl_easy_cleanup_common L (Some h) g3 = (Ret (), g4)" "framed (dav_inv opts r w) L U g4" "ex g4 = ex g3" by auto
  have "dav_method L path mth lt g = (Ret (if has g3 then 1 else 0), g4)"
    using with_server_some [where body = "method_body L path mth lt", OF h(1,2) b g4(1)] g4(3)
    by (simp add: dav_method_body method_body_def [abs_def] flow_simps ret_status_def TEST_SUCCESS_def)
  with g4 that show thesis by blast
qed

lemma dav_method_cases:
  assumes inv: "pool_inv L U g" "lock_wf g" and n: "lib_chunk L \<noteq> 0"
    and lk: "use_lock (sv_options g)" "lt \<noteq> RW_LOCK_NONE" "rw_free lt g"
  obtains g' where "dav_method L path mth lt g = (Ret 0, g')" "\<not> has g'" "pool_inv L U g'" "lock_wf g'"
      "sv_options g' = sv_options g" "rw g' = rw g"
  | g' where "dav_method L path mth lt g = (Ret 1, g')" "has g'" "pool_inv L U g'" "lock_wf g'"
      "sv_options g' = sv_options g"
      "rw g' = (if fst (curl_easy_init_common L (sv_baseuh g) (Some path) (Some (sv_options g)) g) = Ret None
                then rw g else rw_taken lt (rw g))"
proof -
  obtain r w where rw: "rw g = (r, w)" by fastforce
  obtain r' w' where rw': "rw_taken lt (r, w) = (r', w')" by fastforce
  have "framed (dav_inv (sv_options g) r w) L U g" using inv rw by (simp add: framed_dav_inv)
  then show thesis
  proof (cases rule: server.init_common_cases [where url = "sv_baseuh g" and path = "Some path" and options = "Some (sv_options g)"])
    case (1 h g1)
    have "rw_free lt g1" using 1(3) rw lk(3) by (auto simp: framed_dav_inv rw_free_def rw_def)
    with 1(3) insertI1 n 1(4) lk(1,2) show thesis
    proof (cases rule: method_body_cases [where l = "dframe0 L" and path = path and mth = mth])
      case (fine l3 g3)
      from dav_method_run [OF 1(1,4,2) fine(1) _ fine(3)] fine(2) obtain g4 where
        "dav_method L path mth lt g = (Ret 0, g4)" "framed (dav_inv (sv_options g) r w) L U g4" "ex g4 = ex g3" by auto
      then show thesis by (intro that(1) [of g4]) (use fine(2) rw in \<open>auto simp: framed_dav_inv\<close>)
    next
      case (bad l3 g3)
      from bad(3) rw' have I: "framed (dav_inv (sv_options g) r' w') L (insert h U) g3" by simp
      from dav_method_run [OF 1(1,4,2) bad(1) _ I] bad(2) obtain g4 where
        "dav_method L path mth lt g = (Ret 1, g4)" "framed (dav_inv (sv_options g) r' w') L U g4" "ex g4 = ex g3" by auto
      then show thesis by (intro that(2) [of g4]) (use bad(2) rw rw' 1(1) in \<open>auto simp: framed_dav_inv\<close>)
    qed
  next
    case (2 g1)
    have "dav_method L path mth lt g = (Ret 1, g1)"
      using 2(3)
      by (simp add: dav_method_body flow_simps with_server_none [OF 2(1,3)] ret_status_def TEST_SUCCESS_def)
    then show thesis using that(2) 2 rw by (simp add: framed_dav_inv)
  qed
qed

end
