(* ===== verification/Dav_Demo.thy ===== *)
theory Dav_Demo
  imports Dav_Laws
begin

text \<open>A small server and client on which the theorems about the WebDAV client are tried.\<close>

definition opts0 :: networkfs_opts where
  "opts0 = \<lparr>baseurl = None, username = None, password = None, use_ssl = 0, ssl_version = 0, ip_version = 0,
     uid = 0, gid = 0, fmask = 91, dmask = 18, interface = None, timeout = 0, connect_timeout = 0,
     initial_timeout = 0, no_verify_hostname = False, no_verify_peer = False, cert = None, cert_type = None,
     key = None, key_type = None, key_password = None, engine = None, cacert = None, capath = None,
     ciphers = None, proxy = None, proxy_userpwd = None, proxytype = 0, proxyauth = 0, proxytunnel = False,
     use_lock = True\<rparr>"

text \<open>A client with a table of locks, no thread inside it and no handle yet.\<close>

definition client0 :: "(string \<times> addr) list \<Rightarrow> (addr \<rightharpoonup> FileLock) \<Rightarrow> addr \<Rightarrow> request list davw" where
  "client0 t m n = \<lparr>ex = ex_initial, lib = [], pool = \<lparr>nodes = Map.empty, stack = Stack_init\<rparr>, easy = Map.empty,
     last_transfer = (\<lambda>_. reply_ok \<lparr>rq_opts = Map.empty, rq_body = []\<rparr>), next_addr = n,
     sv_baseuh = 0, sv_options = opts0, sv_tree = t, sv_readers = 0, sv_writer = False, sv_server = None,
     sv_version = None, sv_allow = (\<lambda>_. True), locks = m\<rparr>"

definition idle0 :: "request list davw" where
  "idle0 = client0 [] Map.empty 0"

definition held0 :: "request list davw" where
  "held0 = client0 [(''/a'', 0)] [0 \<mapsto> \<lparr>fl_path = Some ''/a'', fl_token = Some ''t'', fl_cnt = 1\<rparr>] 1"

text \<open>Answers: success, an HTTP error, and to a LOCK request a token with the document of
  \<open>lock_doc\<close>.\<close>

definition reply_error :: "int \<Rightarrow> request \<Rightarrow> transfer" where
  "reply_error code rq = (reply_ok rq)\<lparr>t_code := 22, t_response_code := code\<rparr>"

definition element :: "string \<Rightarrow> xml list \<Rightarrow> xml" where
  "element n cs = XNode n None None [] cs"

definition lock_doc :: xml where
  "lock_doc = element ''prop'' [element ''lockdiscovery'' [element ''activelock''
     [element ''timeout'' [],
      element ''locktoken'' [element ''href'' [XNode ''text'' None (Some ''t'') [] []]]]]]"

definition reply_lock :: "request \<Rightarrow> transfer" where
  "reply_lock rq = (reply_ok rq)\<lparr>t_headers := [''Lock-Token: <t>''], t_chunks := [''<D:prop/>'']\<rparr>"

definition lock_lib :: "request list libs" where
  "lock_lib = (demo_lib reply_lock)\<lparr>lib_xml_doc := (\<lambda>_. Some lock_doc)\<rparr>"

lemma pool_inv_client0: "pool_inv L {} (client0 t m n)"
  unfolding pool_inv_def
  by (auto simp: client0_def Stack_abs_def Stack_init_def handles_def intro!: exI [of _ "[]"])

lemma lock_wf_client0:
  "lock_wf idle0" "lock_wf held0"
  by (simp_all add: lock_wf_def lock_entry_def idle0_def held0_def client0_def)

lemma use_lock_client0 [simp]: "use_lock (sv_options (client0 t m n))" "rw (client0 t m n) = (0, False)"
  by (simp_all add: client0_def opts0_def rw_def)

text \<open>What \<open>curl_easy_init_common\<close> sets on a new handle.\<close>

definition easy0 :: easy_opts where
  "easy0 = [CURLOPT_ERRORBUFFER \<mapsto> VPtr, CURLOPT_URL \<mapsto> VStr (Some ''http://h/''), CURLOPT_USERNAME \<mapsto> VStr None,
     CURLOPT_PASSWORD \<mapsto> VStr None,
       CURLOPT_USERAGENT \<mapsto> VStr (Some ''networkfs/0.0''), CURLOPT_FAILONERROR \<mapsto> VLong 1,
       CURLOPT_FOLLOWLOCATION \<mapsto> VLong 1, CURLOPT_NETRC \<mapsto> VLong 1]"

lemmas demo_run = take_handle_def on_pool_def Stack_pop_def flow_simps
      ensure_synchronized_spin_def spin_lock_def set_lock_def Stack_init_def curl_easy_init_def demo_lib_def
      set_url_def scope_CURLU_def curl_url_dup_e_def lib_call_def curl_url_cleanup_def curl_easy_setopt_def
      curl_easy_setopt_or_die_def curl_url_set_or_die_def set_options_def fixed_options_def ex_initial_def
      Exception_has_def

lemma demo_init_client:
  "curl_easy_init_common (demo_lib reply) u path (Some opts0) (client0 t m n) =
    (Ret (Some n), (client0 t m n)\<lparr>easy := [n \<mapsto> easy0], next_addr := Suc n\<rparr>)"
  by (cases "relative_path path")
    (simp_all add: curl_easy_init_common_def demo_run client0_def common_options_def opts0_def easy0_def)

text \<open>Running a method on the demo library.\<close>

lemma client0_simps [simp]:
  "sv_options (client0 t m n) = opts0" "sv_baseuh (client0 t m n) = 0" "ex (client0 t m n) = ex_initial"
  "sv_tree (client0 t m n) = t" "locks (client0 t m n) = m" "sv_readers (client0 t m n) = 0" "\<not> sv_writer (client0 t m n)"
  "lib (client0 t m n) = []" "next_addr (client0 t m n) = n" "use_lock opts0"
  "pool (client0 t m n) = \<lparr>nodes = Map.empty, stack = Stack_init\<rparr>"
  by (simp_all add: client0_def opts0_def)

lemmas demo_method_run = dav_method_def with_server_def with_curl_def take_rwlock_def scope_slist_def add_if_def assign_list_def
  dav_header_if_def setopt_list_def setopt_def curl_easy_perform_or_die_def curl_easy_perform_def upload_body_def
  callback_for_def no_callback_def curl_easy_cleanup_common_def Stack_push_def ret_status_def TEST_SUCCESS_def locking_def
  synchronized_spin_def

lemma demo_lib_simps [simp]:
  "lib_malloc (demo_lib r) = (\<lambda>w. (True, w))" "lib_setopt (demo_lib r) = (\<lambda>_ _ w. (0, w))"
  "lib_perform (demo_lib r) = (\<lambda>rq w. (r rq, w @ [rq]))" "lib_slist_append (demo_lib r) = (\<lambda>_ _ w. (True, w))"
  "lib_chunk (demo_lib r) = 16384" "lib_unescape (demo_lib r) = (\<lambda>x w. (Some x, w))"
  "lib_xml_create (demo_lib r) = (\<lambda>_ w. (True, w))" "lib_xml_chunk (demo_lib r) = (\<lambda>_ w. (True, w))"
  "lib_easy_init (demo_lib r) = (\<lambda>w. (True, w))" "lib_url_dup (demo_lib r) = (\<lambda>_ w. (Some 0, w))"
  "lib_url_free (demo_lib r) = (\<lambda>_ w. w)" "lib_url_set (demo_lib r) = (\<lambda>_ _ _ _ w. (CURLUE_OK, w))"
  "lib_url_get (demo_lib r) = (\<lambda>_ _ w. ((CURLUE_OK, ''http://h/''), w))"
  by (simp_all add: demo_lib_def)

lemmas demo_steps = demo_method_run demo_init_client flow_simps tfind_def curl_easy_setopt_def
    curl_easy_setopt_or_die_def lib_call_def on_pool_def easy0_def reply_error_def reply_ok_def
    spin_lock_def set_lock_def Stack_init_def

text \<open>On the demo library a handle can always be had.\<close>

lemma demo_setopt:
  "curl_easy_setopt (demo_lib r) h opt v g = (Ret 0, g\<lparr>easy := (easy g)(h := map_option (\<lambda>m. m(opt \<mapsto> v)) (easy g h))\<rparr>)"
  by (simp add: curl_easy_setopt_def)

lemma demo_set_options: "\<exists>m. set_options (demo_lib r) h os (l, g) = (Next, (l, g\<lparr>easy := m\<rparr>))"
proof (induction os arbitrary: g)
  case Nil
  show ?case by (auto simp: set_options_def intro!: exI [of _ "easy g"])
next
  case (Cons x os)
  obtain die opt v where x: "x = (die, opt, v)" by (metis prod.exhaust)
  let ?m = "(easy g)(h := map_option (\<lambda>m. m(opt \<mapsto> v)) (easy g h))"
  from Cons [of "g\<lparr>easy := ?m\<rparr>"] show ?case
    by (cases die) (simp_all add: set_options_def x curl_easy_setopt_or_die_def demo_setopt flow_simps)
qed

lemma demo_set_url:
  assumes "\<not> has g"
  shows "\<exists>m. set_url (demo_lib r) h url path (l, g) = (Next, (l, g\<lparr>easy := m\<rparr>))"
  using assms
  by (cases "relative_path path")
    (auto simp: set_url_def scope_CURLU_def curl_url_dup_e_def lib_call_def curl_url_cleanup_def curl_url_set_or_die_def
      curl_easy_setopt_or_die_def demo_setopt flow_simps)

lemma demo_init_any:
  fixes g :: "(request list, 'a) world_scheme"
  assumes "pool_inv (demo_lib r) U g" "\<not> has g"
  shows "\<exists>h g'. curl_easy_init_common (demo_lib r) url path options g = (Ret (Some h), g')"
proof -
  let ?err = "\<lambda>h m. m(h := map_option (\<lambda>m. m(CURLOPT_ERRORBUFFER \<mapsto> VPtr)) (m h))"
  let ?os = "case options of None \<Rightarrow> [] | Some opt \<Rightarrow> common_options opt"
  let ?url = "\<lambda>h. set_url (demo_lib r) h url path :: (addr option \<times> (request list, 'a) world_scheme, addr option) stmt"
  let ?set = "\<lambda>h os. set_options (demo_lib r) h os :: (addr option \<times> (request list, 'a) world_scheme, addr option) stmt"
  have "framed (\<lambda>k. world.more k = world.more g) (demo_lib r) U g" using assms by (simp add: framed_def)
  then show ?thesis
  proof (cases rule: client.take_handle_cases [where l = None])
    case (1 h g1)
    then have e: "\<not> has g1" using assms(2) by simp
    obtain m2 where 2: "?url h (Some h, g1\<lparr>easy := ?err h (easy g1)\<rparr>) = (Next, (Some h, g1\<lparr>easy := m2\<rparr>))"
      using demo_set_url [of "g1\<lparr>easy := ?err h (easy g1)\<rparr>" r h url path "Some h"] e by auto
    obtain m3 where 3: "?set h ?os (Some h, g1\<lparr>easy := m2\<rparr>) = (Next, (Some h, g1\<lparr>easy := m3\<rparr>))"
      using demo_set_options [of r h ?os "Some h" "g1\<lparr>easy := m2\<rparr>"] by auto
    obtain m4 where 4: "?set h fixed_options (Some h, g1\<lparr>easy := m3\<rparr>) = (Next, (Some h, g1\<lparr>easy := m4\<rparr>))"
      using demo_set_options [of r h fixed_options "Some h" "g1\<lparr>easy := m3\<rparr>"] by auto
    have "curl_easy_init_common (demo_lib r) url path options g = (Ret (Some h), g1\<lparr>easy := m4\<rparr>)"
      using 1(1) 2 3 4 e by (simp add: curl_easy_init_common_def demo_setopt flow_simps)
    then show ?thesis by blast
  next
    case (2 g1)
    from 2(1) show ?thesis
      by (simp add: take_handle_def call_simp on_pool_def split: prod.splits)
         (auto simp: flow_simps curl_easy_init_def split: option.splits prod.splits elim!: after_call.elims)
  qed
qed

end
