(* ===== verification/Option_Spec.thy ===== *)
theory Option_Spec
  imports Options
begin

text \<open>
  The table \<open>option_spec\<close> of networkfs.c that is handed to \<open>fuse_opt_parse\<close>, and the layout of the
  record it fills in. The parser itself is libfuse's; what it stores for an option without a format is
  a parameter.
\<close>

subsection \<open>The record\<close>

text \<open>The members of \<open>struct networkfs_opts\<close> and \<open>struct _networkfs_opts\<close> with their offsets: eight bytes
  for a pointer, a \<open>long\<close> or a \<open>double\<close> (a 64-bit system), four for the numbers of users and modes, one for a flag.\<close>

datatype field =
  F_baseurl | F_username | F_password | F_use_ssl | F_ssl_version | F_ip_version | F_uid | F_gid | F_fmask | F_dmask
| F_dir_timeout | F_interface | F_timeout | F_connect_timeout | F_initial_timeout | F_no_verify_hostname
| F_no_verify_peer | F_cert | F_cert_type | F_key | F_key_type | F_key_password | F_engine | F_cacert | F_capath
| F_ciphers | F_proxy | F_proxy_userpwd | F_proxytype | F_proxyauth | F_proxytunnel | F_use_lock
| F_scheme | F_port | F_proxyanyauth | F_proxybasic | F_proxydigest | F_proxyntlm | F_uid_set | F_gid_set
| F_set_uid | F_set_gid | F_entry_timeout_set | F_negative_timeout_set | F_attr_timeout_set | F_hide_password
| F_show_help

fun field_offset :: "field \<Rightarrow> nat" where
  "field_offset F_baseurl = 0" | "field_offset F_username = 8" | "field_offset F_password = 16"
| "field_offset F_use_ssl = 24" | "field_offset F_ssl_version = 32" | "field_offset F_ip_version = 40"
| "field_offset F_uid = 48" | "field_offset F_gid = 52" | "field_offset F_fmask = 56" | "field_offset F_dmask = 60"
| "field_offset F_dir_timeout = 64" | "field_offset F_interface = 72" | "field_offset F_timeout = 80"
| "field_offset F_connect_timeout = 88" | "field_offset F_initial_timeout = 96"
| "field_offset F_no_verify_hostname = 104" | "field_offset F_no_verify_peer = 105"
| "field_offset F_cert = 112" | "field_offset F_cert_type = 120" | "field_offset F_key = 128"
| "field_offset F_key_type = 136" | "field_offset F_key_password = 144" | "field_offset F_engine = 152"
| "field_offset F_cacert = 160" | "field_offset F_capath = 168" | "field_offset F_ciphers = 176"
| "field_offset F_proxy = 184" | "field_offset F_proxy_userpwd = 192" | "field_offset F_proxytype = 200"
| "field_offset F_proxyauth = 208" | "field_offset F_proxytunnel = 216" | "field_offset F_use_lock = 217"
| "field_offset F_scheme = 224" | "field_offset F_port = 232"
| "field_offset F_proxyanyauth = 240" | "field_offset F_proxybasic = 241" | "field_offset F_proxydigest = 242"
| "field_offset F_proxyntlm = 243" | "field_offset F_uid_set = 244" | "field_offset F_gid_set = 245"
| "field_offset F_set_uid = 246" | "field_offset F_set_gid = 247" | "field_offset F_entry_timeout_set = 248"
| "field_offset F_negative_timeout_set = 249" | "field_offset F_attr_timeout_set = 250"
| "field_offset F_hide_password = 251" | "field_offset F_show_help = 252"

definition opts_size :: nat where
  "opts_size = 256"

subsection \<open>The table\<close>

text \<open>\<open>NETWORKFS_OPT (t, p, v)\<close>: template, member and value; the entries of \<open>FUSE_OPT_KEY\<close>, which call
  \<open>networkfs_opt_proc\<close>, have no member.\<close>

definition option_spec :: "(string \<times> field option \<times> int) list" where
  "option_spec = [
     (''scheme=%s'', Some F_scheme, 1), (''port=%s'', Some F_port, 1), (''user=%s'', Some F_username, 1),
     (''username=%s'', Some F_username, 1), (''password=%s'', Some F_password, 1),
     (''hide_password'', Some F_hide_password, 1), (''no_hide_password'', Some F_hide_password, 0),
     (''use_lock'', Some F_use_lock, 1),
     (''fmask=%o'', Some F_fmask, 1), (''dmask=%o'', Some F_dmask, 1),
     (''uid=%d'', Some F_uid, 1), (''gid=%d'', Some F_gid, 1),
     (''set_uid'', Some F_set_uid, 1), (''set_gid'', Some F_set_gid, 1),
     (''entry_timeout='', Some F_entry_timeout_set, 1), (''negative_timeout='', Some F_negative_timeout_set, 1),
     (''attr_timeout='', Some F_attr_timeout_set, 1), (''dir_timeout=%lf'', Some F_dir_timeout, 1),
     (''interface=%s'', Some F_interface, 1),
     (''ipv4'', Some F_ip_version, 1), (''ipv6'', Some F_ip_version, 2),
     (''proxy=%s'', Some F_proxy, 1), (''proxytunnel'', Some F_proxytunnel, 1),
     (''proxy_anyauth'', Some F_proxyanyauth, 1), (''proxy_basic'', Some F_proxybasic, 1),
     (''proxy_digest'', Some F_proxydigest, 1), (''proxy_ntlm'', Some F_proxyntlm, 1),
     (''httpproxy'', Some F_proxytype, 0), (''socks4'', Some F_proxytype, 4), (''socks5'', Some F_proxytype, 5),
     (''proxy_user=%s'', Some F_proxy_userpwd, 1),
     (''ssl'', Some F_use_ssl, 3), (''ssl_control'', Some F_use_ssl, 2), (''ssl_try'', Some F_use_ssl, 1),
     (''timeout=%ld'', Some F_timeout, 1), (''connect_timeout=%ld'', Some F_connect_timeout, 1),
     (''initial_timeout=%ld'', Some F_initial_timeout, 1),
     (''tlsv1.3'', Some F_ssl_version, 7), (''tlsv1.2'', Some F_ssl_version, 6), (''tlsv1.1'', Some F_ssl_version, 5),
     (''tlsv1.0'', Some F_ssl_version, 4), (''tlsv1'', Some F_ssl_version, 1), (''sslv3'', Some F_ssl_version, 3),
     (''no_verify_hostname'', Some F_no_verify_hostname, 1), (''no_verify_peer'', Some F_no_verify_peer, 1),
     (''cert=%s'', Some F_cert, 1), (''cert_type=%s'', Some F_cert_type, 1), (''key=%s'', Some F_key, 1),
     (''key_type=%s'', Some F_key_type, 1), (''pass=%s'', Some F_key_password, 1), (''engine=%s'', Some F_engine, 1),
     (''cacert=%s'', Some F_cacert, 1), (''capath=%s'', Some F_capath, 1), (''ciphers=%s'', Some F_ciphers, 1),
     (''-h'', Some F_show_help, 1), (''--help'', Some F_show_help, 1),
     (''-V'', None, 0), (''--version'', None, 0)]"

subsection \<open>Types\<close>

text \<open>The types of the members, and the members in the order of the declaration.\<close>

datatype ctype = C_pointer | C_long | C_u32 | C_double | C_bool

fun field_type :: "field \<Rightarrow> ctype" where
  "field_type F_use_ssl = C_long" | "field_type F_ssl_version = C_long" | "field_type F_ip_version = C_long"
| "field_type F_uid = C_u32" | "field_type F_gid = C_u32" | "field_type F_fmask = C_u32" | "field_type F_dmask = C_u32"
| "field_type F_dir_timeout = C_double"
| "field_type F_timeout = C_long" | "field_type F_connect_timeout = C_long" | "field_type F_initial_timeout = C_long"
| "field_type F_no_verify_hostname = C_bool" | "field_type F_no_verify_peer = C_bool"
| "field_type F_proxytype = C_long" | "field_type F_proxyauth = C_long" | "field_type F_proxytunnel = C_bool"
| "field_type F_use_lock = C_bool"
| "field_type F_proxyanyauth = C_bool" | "field_type F_proxybasic = C_bool" | "field_type F_proxydigest = C_bool"
| "field_type F_proxyntlm = C_bool" | "field_type F_uid_set = C_bool" | "field_type F_gid_set = C_bool"
| "field_type F_set_uid = C_bool" | "field_type F_set_gid = C_bool" | "field_type F_entry_timeout_set = C_bool"
| "field_type F_negative_timeout_set = C_bool" | "field_type F_attr_timeout_set = C_bool"
| "field_type F_hide_password = C_bool" | "field_type F_show_help = C_bool"
| "field_type _ = C_pointer"

fun ctype_size :: "ctype \<Rightarrow> nat" where
  "ctype_size C_u32 = 4" | "ctype_size C_bool = 1" | "ctype_size _ = 8"

definition opts_members :: "field list" where
  "opts_members = [
     F_baseurl, F_username, F_password, F_use_ssl, F_ssl_version, F_ip_version, F_uid, F_gid, F_fmask, F_dmask,
     F_dir_timeout, F_interface, F_timeout, F_connect_timeout, F_initial_timeout, F_no_verify_hostname,
     F_no_verify_peer, F_cert, F_cert_type, F_key, F_key_type, F_key_password, F_engine, F_cacert, F_capath,
     F_ciphers, F_proxy, F_proxy_userpwd, F_proxytype, F_proxyauth, F_proxytunnel, F_use_lock,
     F_scheme, F_port, F_proxyanyauth, F_proxybasic, F_proxydigest, F_proxyntlm, F_uid_set, F_gid_set,
     F_set_uid, F_set_gid, F_entry_timeout_set, F_negative_timeout_set, F_attr_timeout_set, F_hide_password,
     F_show_help]"

text \<open>Where a C compiler puts them: each at the next multiple of its size.\<close>

fun layout :: "nat \<Rightarrow> field list \<Rightarrow> (field \<times> nat) list" where
  "layout n [] = []"
| "layout n (f # fs) =
     (let k = ctype_size (field_type f); off = (n + k - 1) div k * k in (f, off) # layout (off + k) fs)"

text \<open>The conversion of a template, and the type of the variable it needs.\<close>

definition conversion :: "string \<Rightarrow> ctype option" where
  "conversion t = (let c = dropWhile (\<lambda>c. c \<noteq> CHR ''%'') t in
     if c = ''%s'' then Some C_pointer else if c = ''%d'' \<or> c = ''%o'' then Some C_u32
     else if c = ''%ld'' then Some C_long else if c = ''%lf'' then Some C_double else None)"

fun fits :: "ctype option \<Rightarrow> ctype \<Rightarrow> bool" where
  "fits (Some c) t \<longleftrightarrow> c = t"
| "fits None t \<longleftrightarrow> t = C_bool \<or> t = C_long"

lemma layout_members: "layout 0 opts_members = map (\<lambda>f. (f, field_offset f)) opts_members"
  by code_simp

lemma members_all: "f \<in> set opts_members"
  by (cases f) (simp_all add: opts_members_def)

lemma option_spec_fits:
  "list_all (\<lambda>(t, f, v). case f of None \<Rightarrow> True | Some f \<Rightarrow> fits (conversion t) (field_type f)) option_spec"
  by code_simp



subsection \<open>Options without a format\<close>

text \<open>\<open>store off v mem\<close> is what libfuse makes of the memory of the record for an option without a format.\<close>

type_synonym bytes = "8 word list"

definition process_opt :: "(nat \<Rightarrow> int \<Rightarrow> bytes \<Rightarrow> bytes) \<Rightarrow> string \<Rightarrow> bytes \<Rightarrow> bytes" where
  "process_opt store t mem =
     (case map_of option_spec t of
        Some (Some f, v) \<Rightarrow> store (field_offset f) v mem
      | _ \<Rightarrow> mem)"

definition flag_set :: "field \<Rightarrow> bytes \<Rightarrow> bool" where
  "flag_set f mem \<longleftrightarrow> mem ! field_offset f \<noteq> 0"

text \<open>An \<open>int\<close>, lowest byte first.\<close>

definition int_bytes :: "int \<Rightarrow> bytes" where
  "int_bytes v = map (\<lambda>k. word_of_int (v div 256 ^ k)) [0, 1, 2, 3]"

definition int_store :: "nat \<Rightarrow> int \<Rightarrow> bytes \<Rightarrow> bytes" where
  "int_store off v mem = take off mem @ int_bytes v @ drop (off + 4) mem"

text \<open>What libfuse promises: the variable of an option without a format is an \<open>int\<close>.\<close>

definition stores_int :: "(nat \<Rightarrow> int \<Rightarrow> bytes \<Rightarrow> bytes) \<Rightarrow> bool" where
  "stores_int store \<longleftrightarrow> (\<forall>off v mem. off + 4 \<le> length mem \<longrightarrow> store off v mem = int_store off v mem)"

lemma field_offset_fits: "field_offset f + 4 \<le> opts_size"
  by (cases f) (simp_all add: opts_size_def)

lemma int_store_nth:
  assumes "off + 4 \<le> length mem" "off < i" "i \<le> off + 3" "0 \<le> v" "v < 256"
  shows "int_store off v mem ! i = 0"
proof -
  from assms(2,3) have "i = off + 1 \<or> i = off + 2 \<or> i = off + 3" by auto
  moreover have "v div 256 = 0" "v div 65536 = 0" "v div 16777216 = 0" using assms(4,5) by simp_all
  ultimately show ?thesis using assms(1) by (auto simp: int_store_def int_bytes_def nth_append)
qed

lemma spec_value_range:
  assumes "map_of option_spec t = Some (Some f, v)"
  shows "0 \<le> v \<and> v < 256"
proof -
  have "\<forall>(t, f, v) \<in> set option_spec. 0 \<le> v \<and> v < 256" by (simp add: option_spec_def)
  with map_of_SomeD [OF assms] show ?thesis by auto
qed



subsection \<open>The help text\<close>

text \<open>The lines \<open>usage\<close> prints.\<close>

definition usage_lines :: "string list" where
  "usage_lines = [
     ''NetworkFS options:'',
     ''    -o scheme=STR          set/override server scheme'',
     ''    -o port=STR            set/override server port'',
     ''    -o user=STR            set/override server username'',
     ''    -o username=STR        set/override server username'',
     ''    -o password=STR        set/override server password'',
     ''    -o (no_)hide_password  (do not) hide password from ps (yes)'',
     ''    -o use_lock            use WebDAV lock'',
     ''    -o set_uid             override existing uid'',
     ''    -o set_gid             override existing gid'',
     ''    -o fmask=M             set file permissions (octal, 0133)'',
     ''    -o dmask=M             set file permissions (octal, 0022)'',
     ''    -o entry_timeout=T     cache timeout for names (30.0s)'',
     ''    -o negative_timeout=T  cache timeout for deleted names (10.0s)'',
     ''    -o attr_timeout=T      cache timeout for attributes (30.0s)'',
     ''    -o dir_timeout=T       cache timeout for dir list (10.0s)'',
     ''    -o interface=STR       specify network interface/address to use'',
     ''    -o ipv4                resolve name to IPv4 address'',
     ''    -o ipv6                resolve name to IPv6 address'',
     ''    -o proxy=STR           use host:port HTTP proxy'',
     ''    -o proxytunnel         operate through a HTTP proxy tunnel (using CONNECT)'',
     ''    -o proxy_anyauth       pick '' @ [CHR 0x22] @ ''any'' @ [CHR 0x22] @ '' proxy authentication method'',
     ''    -o proxy_basic         use Basic authentication on the proxy'',
     ''    -o proxy_digest        use Digest authentication on the proxy'',
     ''    -o proxy_ntlm          use NTLM authentication on the proxy'',
     ''    -o httpproxy           use a HTTP proxy (default)'',
     ''    -o socks4              use a SOCKS4 proxy'',
     ''    -o socks5              use a SOCKS5 proxy'',
     ''    -o proxy_user=STR      set proxy user and password'',
     ''    -o ssl                 enable SSL/TLS for both control and data connections'',
     ''    -o ssl_control         enable SSL/TLS only for control connection'',
     ''    -o ssl_try             try SSL/TLS first but connect anyway'',
     ''    -o tlsv1.[0|1|2|3]     use TLSv1.[0|1|2|3] (SSL)'',
     ''    -o tlsv1               use TLSv1 (SSL)'',
     ''    -o sslv3               use SSLv3 (SSL)'',
     ''    -o no_verify_hostname  does not verify the hostname (SSL)'',
     ''    -o no_verify_peer      does not verify the peer (SSL)'',
     ''    -o cert=STR            client certificate file (SSL)'',
     ''    -o cert_type=STR       certificate file type (DER/PEM/ENG) (SSL)'',
     ''    -o key=STR             private key file name (SSL)'',
     ''    -o key_type=STR        private key file type (DER/PEM/ENG) (SSL)'',
     ''    -o pass=STR            pass phrase for the private key (SSL)'',
     ''    -o engine=STR          crypto engine to use (SSL)'',
     ''    -o cacert=STR          file with CA certificates to verify the peer (SSL)'',
     ''    -o capath=STR          CA directory to verify peer against (SSL)'',
     ''    -o ciphers=STR         SSL ciphers to use (SSL)'',
     ''    -o timeout=T           maximum time allowed for operation in seconds'',
     ''    -o connect_timeout=T   maximum time allowed for connection in seconds'',
     ''    -o initial_timeout=T   maximum time allowed for the first connection in'',
     ''                           seconds (5s)'',
     []]"

definition usage :: "string \<Rightarrow> string" where
  "usage progname = ''usage: '' @ progname @ '' [options] <url> <mountpoint>'' @ [CHR 0x0A, CHR 0x0A] @
     concat (map (\<lambda>l. l @ [CHR 0x0A]) usage_lines)"

text \<open>\<open>show_version\<close>; the versions of libcurl and libfuse are parameters.\<close>

definition show_version :: "string \<Rightarrow> nat \<Rightarrow> nat \<Rightarrow> string \<Rightarrow> string" where
  "show_version curl_version major minor progname =
     progname @ '' 0.0 libcurl/'' @ curl_version @ '' fuse/'' @ ushow 10 major @ ''.'' @ ushow 10 minor @ [CHR 0x0A]"

text \<open>The option a line documents, up to the equals sign.\<close>

definition documented :: "string \<Rightarrow> string option" where
  "documented line =
     (if take 7 line = ''    -o '' then Some (takeWhile (\<lambda>c. c \<noteq> CHR '' '' \<and> c \<noteq> CHR ''='') (drop 7 line)) else None)"

definition template_name :: "string \<Rightarrow> string" where
  "template_name t = takeWhile (\<lambda>c. c \<noteq> CHR ''='') t"

text \<open>Two lines stand for several options.\<close>

definition usage_expand :: "string \<Rightarrow> string list" where
  "usage_expand d = (if d = ''(no_)hide_password'' then [''hide_password'', ''no_hide_password'']
     else if d = ''tlsv1.[0|1|2|3]'' then [''tlsv1.0'', ''tlsv1.1'', ''tlsv1.2'', ''tlsv1.3''] else [d])"

definition documented_options :: "string list" where
  "documented_options = concat (map usage_expand (List.map_filter documented usage_lines))"

text \<open>The help text and the table agree: the options the help text documents are those of the table,
  but for \<open>uid\<close> and \<open>gid\<close>, which libfuse's own help explains, and the switches for help and version.\<close>

theorem usage_complete:
  "set documented_options \<union> {''uid'', ''gid'', ''-h'', ''--help'', ''-V'', ''--version''} = set (map (template_name \<circ> fst) option_spec)"
  by code_simp

end
