(* ===== verification/Messages.thy ===== *)
theory Messages
  imports Curl
begin

text \<open>
  What is printed of an exception: \<open>Exception_fputs\<close> of common/grammar/exception.c and the \<open>fputs\<close>
  entries of the virtual tables in exception.c, malloc.c, networkfs.c and common/wrapper/curl.c. A
  text is a list of pieces with the stream they go to. The place of the throw, the symbols of the
  backtraces and the numbers and texts of libcurl are arguments.
\<close>

subsection \<open>Streams\<close>

datatype channel = Stream | Stdout

type_synonym printed = "(channel \<times> string) list"

abbreviation newline :: string where "newline \<equiv> [CHR 0x0A]"

definition on_channel :: "channel \<Rightarrow> printed \<Rightarrow> string" where
  "on_channel c out = concat (map snd (filter (\<lambda>p. fst p = c) out))"

text \<open>What the texts take from elsewhere: the place of the throw, the symbols of the two backtraces
  (\<open>None\<close> when \<open>backtrace_symbols\<close> fails, and then what \<open>backtrace_symbols_fd\<close> writes), the name of an
  unknown class, libcurl's error texts and option numbers, and the error buffer of the exception.\<close>

record surroundings =
  ct_file :: "string option"
  ct_func :: "string option"
  ct_line :: nat
  ct_symbols :: "string list option"
  ct_here :: "string list option"
  ct_raw :: string
  ct_address :: string
  ct_strerror :: "int \<Rightarrow> string"
  ct_option :: "CURLoption \<Rightarrow> int"
  ct_info :: int
  ct_error_buf :: string

subsection \<open>The texts of the classes\<close>

definition Exception_fputs_what :: "exception \<Rightarrow> string" where
  "Exception_fputs_what e =
     (case ex_what e of None \<Rightarrow> ''(no message)'' @ newline | Some w \<Rightarrow> w @ newline)"

definition Exception_fputs_malloc :: "exception \<Rightarrow> string" where
  "Exception_fputs_malloc e =
     ''Fail to allocate memory'' @ (case ex_what e of None \<Rightarrow> [] | Some w \<Rightarrow> '' for '' @ w) @
     '', possible out of memory'' @ newline"

definition Exception_fputs_curl :: "surroundings \<Rightarrow> exception \<Rightarrow> string" where
  "Exception_fputs_curl ct e =
     (let msg = (if ct_error_buf ct = [] then ct_strerror ct (ex_code e) else ct_error_buf ct) @ newline
      in case ex_action e of
           CURL_INIT \<Rightarrow> ''Error init curl'' @ newline
         | CURL_SLIST_APPEND \<Rightarrow> ''Error appending to curl list'' @ newline
         | CURL_UNESCAPE \<Rightarrow> ''Error esacpe curl URL'' @ newline
         | CURL_SETOPT \<Rightarrow> ''Error setting curl '' @ sshow (ct_option ct (ex_option e)) @ '': '' @ msg
         | CURL_PERFORM \<Rightarrow> ''Error performing curl: '' @ msg
         | CURL_INFO \<Rightarrow> ''Error getting curl info '' @ sshow (ct_info ct) @ '': '' @ msg)"

fun part_text :: "CURLUPart \<Rightarrow> string" where
  "part_text CURLUPART_URL = ''full url''" | "part_text CURLUPART_SCHEME = ''scheme''"
| "part_text CURLUPART_USER = ''user''" | "part_text CURLUPART_PASSWORD = ''password''"
| "part_text CURLUPART_OPTIONS = ''options''" | "part_text CURLUPART_HOST = ''host''"
| "part_text CURLUPART_PORT = ''port''" | "part_text CURLUPART_PATH = ''path''"
| "part_text CURLUPART_QUERY = ''query''" | "part_text CURLUPART_FRAGMENT = ''fragment''"
| "part_text (CURLUPART_other n) = ''(Unknown part)''"

fun ucode_text :: "CURLUcode \<Rightarrow> string" where
  "ucode_text CURLUE_OK = ''OK''" | "ucode_text CURLUE_BAD_HANDLE = ''Bad handle''"
| "ucode_text CURLUE_BAD_PARTPOINTER = ''Bad partpointer''"
| "ucode_text CURLUE_MALFORMED_INPUT = ''Malformed input''"
| "ucode_text CURLUE_BAD_PORT_NUMBER = ''Bad port number''"
| "ucode_text CURLUE_UNSUPPORTED_SCHEME = ''Unsupported scheme''"
| "ucode_text CURLUE_URLDECODE = ''URL decode''" | "ucode_text CURLUE_OUT_OF_MEMORY = ''Out of memory''"
| "ucode_text CURLUE_USER_NOT_ALLOWED = ''User not allowed''"
| "ucode_text CURLUE_UNKNOWN_PART = ''Unknown part''" | "ucode_text CURLUE_NO_SCHEME = ''No scheme''"
| "ucode_text CURLUE_NO_USER = ''No user''" | "ucode_text CURLUE_NO_PASSWORD = ''No password''"
| "ucode_text CURLUE_NO_OPTIONS = ''No options''" | "ucode_text CURLUE_NO_HOST = ''No host''"
| "ucode_text CURLUE_NO_PORT = ''No port''" | "ucode_text CURLUE_NO_QUERY = ''No query''"
| "ucode_text CURLUE_NO_FRAGMENT = ''No fragment''" | "ucode_text (CURLUE_other n) = ''Unknown error code''"

definition Exception_fputs_curlurl :: "exception \<Rightarrow> string" where
  "Exception_fputs_curlurl e =
     (let text = (\<lambda>s_action. ''Error '' @ s_action @ '' URL '' @ part_text (ex_part e) @ '': '' @
                    ucode_text (ex_ucode e) @ newline)
      in case ex_uaction e of
           CURLU_INIT \<Rightarrow> ''Error init URL'' @ newline
         | CURLU_DUP \<Rightarrow> ''Error duplicate URL'' @ newline
         | CURLU_SET \<Rightarrow> text ''getting''
         | CURLU_GET \<Rightarrow> text ''setting'')"

text \<open>The entries \<open>name\<close> and \<open>fputs\<close> of the virtual tables.\<close>

fun vtable_name :: "vtable \<Rightarrow> string" where
  "vtable_name UnspecifiedException_vt = ''UnspecifiedException''"
| "vtable_name MallocException_vt = ''MallocException''"
| "vtable_name NetworkFSException_vt = ''NetworkFSException''"
| "vtable_name CurlException_vt = ''CurlException''"
| "vtable_name CurlUrlException_vt = ''CurlUrlException''"

fun vtable_fputs :: "surroundings \<Rightarrow> vtable \<Rightarrow> (exception \<Rightarrow> string) option" where
  "vtable_fputs ct UnspecifiedException_vt = Some Exception_fputs_what"
| "vtable_fputs ct MallocException_vt = Some Exception_fputs_malloc"
| "vtable_fputs ct NetworkFSException_vt = None"
| "vtable_fputs ct CurlException_vt = Some (Exception_fputs_curl ct)"
| "vtable_fputs ct CurlUrlException_vt = Some Exception_fputs_curlurl"

subsection \<open>The whole text\<close>

text \<open>The symbols go to standard output, whatever the stream is.\<close>

definition Exception_fputs_backtrace_symbols :: "surroundings \<Rightarrow> string list option \<Rightarrow> printed" where
  "Exception_fputs_backtrace_symbols ct funcs =
     (case funcs of
        None \<Rightarrow> [(Stream, ''  (backtrace_symbols failed)'' @ newline), (Stream, ct_raw ct)]
      | Some fs \<Rightarrow> map (\<lambda>f. (Stdout, ''  at '' @ f @ newline)) fs)"

definition place_text :: "surroundings \<Rightarrow> string" where
  "place_text ct =
     ''Exception at file '' @ [CHR 0x22] @ (case ct_file ct of None \<Rightarrow> ''(unknown)'' | Some s \<Rightarrow> s) @ [CHR 0x22] @
     '', line '' @ sshow (int (ct_line ct)) @ '', in '' @
     (case ct_func ct of None \<Rightarrow> ''(unknown)'' | Some s \<Rightarrow> s) @ newline"

definition type_text :: "surroundings \<Rightarrow> exception \<Rightarrow> string" where
  "type_text ct e =
     (case ex_vtable e of
        None \<Rightarrow> snprintf 37 (''UnknownException('' @ ct_address ct @ '')'')
      | Some t \<Rightarrow> vtable_name t)"

definition what_text :: "surroundings \<Rightarrow> exception \<Rightarrow> string" where
  "what_text ct e =
     (case (case ex_vtable e of None \<Rightarrow> None | Some t \<Rightarrow> vtable_fputs ct t) of
        None \<Rightarrow> ''(no fputs for exception)'' @ newline
      | Some f \<Rightarrow> f e)"

definition Exception_fputs :: "surroundings \<Rightarrow> exception \<Rightarrow> printed" where
  "Exception_fputs ct e =
     [(Stream, place_text ct)] @
     Exception_fputs_backtrace_symbols ct (ct_symbols ct) @
     [(Stream, ''Printed at:'' @ newline)] @
     Exception_fputs_backtrace_symbols ct (ct_here ct) @
     [(Stream, type_text ct e @ '': ''), (Stream, what_text ct e)]"

text \<open>The destructor of the program prints an exception nobody handled.\<close>

definition Exception_destructor :: "surroundings \<Rightarrow> exception \<Rightarrow> printed \<times> exception" where
  "Exception_destructor ct e =
     (if ex_set e \<noteq> 0 then ((Stream, ''Unhandled '') # Exception_fputs ct e, Exception_destory e) else ([], e))"

subsection \<open>Laws\<close>

lemma backtrace_stream: "on_channel Stream (Exception_fputs_backtrace_symbols ct (Some fs)) = []"
  by (simp add: Exception_fputs_backtrace_symbols_def on_channel_def o_def)

lemma on_channel_append: "on_channel c (xs @ ys) = on_channel c xs @ on_channel c ys"
  by (simp add: on_channel_def)

text \<open>When the symbols can be had, the stream gets the place, the class and its text but none of the
  symbols. The text of a \<open>NetworkFSException\<close> is lost, its table has no \<open>fputs\<close>.\<close>

lemma Exception_fputs_stream:
  assumes "ct_symbols ct = Some a" "ct_here ct = Some b"
  shows "on_channel Stream (Exception_fputs ct e) =
    place_text ct @ ''Printed at:'' @ newline @ type_text ct e @ '': '' @ what_text ct e"
proof -
  have "on_channel Stream ((Stream, s) # out) = s @ on_channel Stream out" "on_channel Stream [] = []" for s out
    by (simp_all add: on_channel_def)
  with assms show ?thesis by (simp add: Exception_fputs_def on_channel_append backtrace_stream)
qed

lemma what_text_lost: "ex_vtable e = Some NetworkFSException_vt \<Longrightarrow> what_text ct e = ''(no fputs for exception)'' @ newline"
  by (simp add: what_text_def)

text \<open>The messages about parts of a URL name the wrong action.\<close>

lemma curlurl_swapped:
  assumes "ex_uaction e = CURLU_SET"
  shows "\<exists>rest. Exception_fputs_curlurl e = ''Error getting URL '' @ rest"
  using assms by (simp add: Exception_fputs_curlurl_def)

end
