(* ===== verification/Curl_Ssl.thy ===== *)
theory Curl_Ssl
  imports Curl
begin

text \<open>
  \<open>curl_url_set_ssl\<close> of common/wrapper/curl.h, which nothing calls. The test of the result of \<open>malloc\<close> is
  the wrong way round, so that the lines behind it are only reached with a null pointer.
\<close>

definition curl_url_set_ssl :: "'w libs \<Rightarrow> addr \<Rightarrow> int \<Rightarrow> (('w, 'a) world_scheme, CURLUcode) stmt" where
  "curl_url_set_ssl L h version =
     fn () (block [
       whenc (\<lambda>_. version = 0) (ret CURLUE_OK),
       call (lib_call (lib_url_get L h CURLUPART_SCHEME)) (\<lambda>(res, scheme). block [
         whenc (\<lambda>_. res \<noteq> CURLUE_OK) (ret res),
         whenc (\<lambda>_. scheme = []) (halt Segv),
         whenc (\<lambda>_. last scheme = CHR ''s'') (ret CURLUE_OK),
         call (lib_call (lib_malloc L)) (\<lambda>new_scheme. block [
           whenc (\<lambda>_. new_scheme) (ret (CURLUE_other 27)),
           halt Segv])])])"

text \<open>It never turns a scheme into the one with TLS: success means that there was nothing to do.\<close>

lemma curl_url_set_ssl_success:
  assumes "curl_url_set_ssl L h v g = (Ret CURLUE_OK, g')" "v \<noteq> 0" "lib_url_get L h CURLUPART_SCHEME (lib g) = ((c, s), w)"
  shows "c = CURLUE_OK \<and> last s = CHR ''s'' \<and> g' = g\<lparr>lib := w\<rparr>"
  using assms by (auto simp: curl_url_set_ssl_def flow_simps lib_call_def split: if_splits prod.splits)

end
