(* ===== verification/Dav_Lock_Laws.thy ===== *)
theory Dav_Lock_Laws
  imports Dav_Demo
begin

text \<open>
  \<open>dav_lock\<close> and \<open>dav_unlock\<close> count the users of a lock: what they promise when they are run
  one after the other, and what goes wrong when two threads interleave.
\<close>

subsection \<open>Reference counts\<close>

text \<open>The number of users of a path, as the table has it.\<close>

definition lock_count :: "('w, 'a) davw_scheme \<Rightarrow> string \<Rightarrow> int" where
  "lock_count g path =
     (case tfind path (sv_tree g) of
        None \<Rightarrow> 0
      | Some a \<Rightarrow> (case locks g a of None \<Rightarrow> 0 | Some fl \<Rightarrow> fl_cnt fl))"

lemma dav_lock_unused: "\<not> use_lock (sv_options g) \<Longrightarrow> dav_lock L path g = (Ret 0, g)"
  by (simp add: dav_lock_def flow_simps locking_def)

lemma dav_unlock_unused: "\<not> use_lock (sv_options g) \<Longrightarrow> dav_unlock L path g = (Ret 0, g)"
  by (simp add: dav_unlock_def flow_simps locking_def)

lemma dav_lock_held:
  assumes "use_lock (sv_options g)" "\<not> sv_writer g"
    and "tfind path (sv_tree g) = Some a" "locks g a = Some fl"
  shows "dav_lock L path g = (Ret 0, g\<lparr>locks := (locks g)(a \<mapsto> fl\<lparr>fl_cnt := fl_cnt fl + 1\<rparr>)\<rparr>)"
  using assms
  by (simp add: dav_lock_def lock_lookup_def synchronized_rdlock_def set_filelock_def with_filelock_def
      flow_simps locking_def)

lemma unlock_count_found:
  assumes "\<not> sv_writer g" "tfind path (sv_tree g) = Some a" "locks g a = Some fl"
  shows "unlock_count path (u, g) =
    (Next, (u\<lparr>u_filelock := (if fl_cnt fl - 1 > 0 then None else Some a)\<rparr>,
      g\<lparr>locks := (locks g)(a \<mapsto> fl\<lparr>fl_cnt := fl_cnt fl - 1\<rparr>)\<rparr>))"
  using assms
  by (simp add: unlock_count_def synchronized_rdlock_def set_filelock_def with_filelock_def flow_simps)

lemma dav_unlock_shared:
  assumes "use_lock (sv_options g)" "\<not> sv_writer g"
    and "tfind path (sv_tree g) = Some a" "locks g a = Some fl" "fl_cnt fl > 1"
  shows "dav_unlock L path g = (Ret 0, g\<lparr>locks := (locks g)(a \<mapsto> fl\<lparr>fl_cnt := fl_cnt fl - 1\<rparr>)\<rparr>)"
  using assms unlock_count_found [OF assms(2-4), where 'c = int]
  by (simp add: dav_unlock_def flow_simps locking_def uframe0_def)

lemma dav_unlock_missing:
  assumes "use_lock (sv_options g)" "\<not> sv_writer g" "tfind path (sv_tree g) = None"
  shows "dav_unlock L path g = (Ret 1, g\<lparr>ex := UnspecifiedException_init (ex g) ''release cannot find file lock''\<rparr>)"
  using assms
  by (simp add: dav_unlock_def unlock_count_def synchronized_rdlock_def flow_simps locking_def uframe0_def unspecified_def)

lemma dav_unlock_last:
  assumes "use_lock (sv_options g)" "\<not> sv_writer g" "sv_readers g = 0"
    and f: "tfind path (sv_tree g) = Some a" "locks g a = Some fl" "fl_cnt fl \<le> 1"
    and u: "dav_unlock_raw L (fl_path fl) (fl_token fl)
      (g\<lparr>locks := (locks g)(a \<mapsto> fl\<lparr>fl_cnt := fl_cnt fl - 1\<rparr>), sv_tree := tdelete path (sv_tree g)\<rparr>) = (Ret res, g2)"
  shows "dav_unlock L path g = (Ret res, g2\<lparr>locks := (locks g2)(a := None)\<rparr>)"
proof -
  have r: "(unlock_remove path :: (uframe \<times> ('a, 'b) davw_scheme, int) stmt)
      (uframe0\<lparr>u_filelock := Some a\<rparr>, g\<lparr>locks := (locks g)(a \<mapsto> fl\<lparr>fl_cnt := fl_cnt fl - 1\<rparr>)\<rparr>) =
    (Next, (uframe0\<lparr>u_filelock := Some a\<rparr>,
      g\<lparr>locks := (locks g)(a \<mapsto> fl\<lparr>fl_cnt := fl_cnt fl - 1\<rparr>), sv_tree := tdelete path (sv_tree g)\<rparr>))"
    using assms by (simp add: unlock_remove_def synchronized_wrlock_def with_filelock_def flow_simps)
  show ?thesis
    using assms r unlock_count_found [OF assms(2) f(1,2), where 'c = int and u = uframe0]
    by (simp add: dav_unlock_def flow_simps locking_def unlock_send_def with_filelock_def free_filelock_def uframe0_def)
qed

subsection \<open>LOCK and UNLOCK requests\<close>

text \<open>The whole server record survives a request.\<close>

definition server_is :: "('w, 'a) davw_scheme \<Rightarrow> ('w, 'a) davw_scheme \<Rightarrow> bool" where
  "server_is s g \<longleftrightarrow> sv_baseuh g = sv_baseuh s \<and> sv_options g = sv_options s \<and> sv_tree g = sv_tree s \<and>
     sv_readers g = sv_readers s \<and> sv_writer g = sv_writer s \<and> sv_server g = sv_server s \<and>
     sv_version g = sv_version s \<and> sv_allow g = sv_allow s \<and> locks g = locks s \<and>
     next_addr s \<le> next_addr g"

interpretation snapshot: dav_frame "server_is s" for s
  by unfold_locales (auto simp: server_is_def)

lemma server_is_refl [simp]: "server_is g g"
  by (simp add: server_is_def)

context dav_frame
begin

lemma gives_SimpleString_new [runs_intros]: "gives S (framed P L U) (SimpleString_new L' str)"
  unfolding SimpleString_new_def by (intro runs_intros)

lemma gives_lock_callback [runs_intros]: "gives S (framed P L U) (dav_lock_callback L' c n l)"
  unfolding dav_lock_callback_def by (intro runs_intros)

lemma gives_parse_xml [runs_intros]: "gives S (framed P L U) (curl_parse_xml L' c n l)"
  unfolding gives_def
  by (auto simp: curl_parse_xml_def flow_simps lib_call_def framed_blind onerror_def
      split: prod.splits if_splits option.splits)

lemma runs_unspecified [runs_intros]: "ends S (framed P L U) (unspecified what)"
  unfolding unspecified_def by (rule framed_set_ex) simp

lemma tidy_unspecified [tidy_intros]: "tidy S (framed P L U) (throw (unspecified what))"
  unfolding unspecified_def by (intro tidy_intros)

lemma runs_check_lockdiscovery [runs_intros]:
  assumes "Segv \<in> S"
  shows "runs S True (framed P L U) (check_lockdiscovery token n)"
  unfolding check_lockdiscovery_def using assms
  by (auto split: prod.split option.split intro!: runs_intros runs_halt tidy_runs [OF tidy_unspecified])

lemma runs_lock_tail:
  assumes "Segv \<in> S"
  shows "runs S True (framed P L U) (case x of
      (Some cs, Some token) \<Rightarrow> (case doc cs of
         None \<Rightarrow> throw (unspecified ''Failed to parse'')
       | Some root \<Rightarrow> foreach (check_lockdiscovery token) (x_children root))
    | _ \<Rightarrow> halt Segv)"
  using assms
  by (auto split: prod.split option.split intro!: runs_intros runs_halt tidy_runs [OF tidy_unspecified])

end

lemma pure_unspecified [local_intros]: "pure_local (unspecified w)"
  unfolding unspecified_def by (rule pure_set_ex)

lemma pure_foreach [local_intros]:
  assumes "\<And>x. pure_local (b x)" shows "pure_local (foreach b xs)"
proof (induction xs)
  case (Cons x xs)
  show ?case unfolding pure_local_def
  proof
    fix s :: "'b \<times> 'c"
    obtain f l1 g1 where 1: "b x s = (f, (l1, g1))" by (metis prod.exhaust)
    then have "l1 = fst s" using assms by (metis pure_localD prod.collapse)
    with 1 Cons show "fst (snd (foreach b (x # xs) s)) = fst s" by (auto simp: pure_local_def)
  qed
qed (simp add: pure_local_def)

lemma pure_lock_tail: "pure_local (case x of
      (Some cs, Some token) \<Rightarrow> (case doc cs of
         None \<Rightarrow> throw (unspecified ''Failed to parse'')
       | Some root \<Rightarrow> foreach (check_lockdiscovery token) (x_children root))
    | _ \<Rightarrow> halt Segv)"
  by (auto split: prod.split option.split simp: check_lockdiscovery_def intro!: local_intros)

lemma pure_lock_answer: "pure_local (lock_answer L)"
  unfolding lock_answer_def by (intro local_intros pure_lock_tail)

text \<open>What is relied on of libcurl's read loop: it asks for at least one and less than $2^{63}$
  bytes.\<close>

definition lib_sane :: "'w libs \<Rightarrow> bool" where
  "lib_sane L \<longleftrightarrow> lib_chunk L \<noteq> 0 \<and> unat (lib_chunk L) < 2 ^ 63"

lemma fetch_ok_init:
  assumes "lib_sane L" "length d < 2 ^ 63"
  shows "fetch_ok (Buffer_init_exist d (of_nat (length d)) False) (lib_chunk L)"
proof -
  have u: "unat (of_nat (length d) :: u64) = length d"
    using assms(2) by (intro unat_of_nat_u64) simp
  have "length d + unat (lib_chunk L) < 2 ^ 64" using assms by (simp add: lib_sane_def)
  with u show ?thesis by (simp add: fetch_ok_def Buffer_init_exist_wf) (simp add: Buffer_init_exist_def)
qed

lemma length_lock_body: "length lock_body < 2 ^ 63"
  by (simp add: lock_body_def xml_head_def crlf_def quoted_def)

context dav_frame
begin

lemma runs_lock_request:
  "lib_sane L \<Longrightarrow> fetch_ok buf (lib_chunk L) \<Longrightarrow> runs S k (framed P L U) (lock_request L path buf)"
  unfolding lock_request_def lib_sane_def by (intro runs_intros | simp)+

lemma runs_lock_answer: "runs {Segv} True (framed P L U) (lock_answer L')"
  unfolding lock_answer_def condition_throw_def
  by (intro runs_intros runs_lock_tail tidy_runs [OF tidy_unspecified]) simp

lemma lock_answer_cases:
  assumes "framed P L U g"
  obtains (crash) g' where "lock_answer L' (l, g) = (Stop Segv, (l, g'))"
  | (answered) f g' where "lock_answer L' (l, g) = (f, (l, g'))" "f = Next \<or> f = Brk \<or> f = Cont"
      "framed P L U g'" "has g \<Longrightarrow> has g'" "f_token l = None \<Longrightarrow> has g'"
proof -
  obtain f l' g' where r: "lock_answer L' (l, g) = (f, (l', g'))" by (metis prod.exhaust)
  have l': "l' = l" using pure_localD [OF pure_lock_answer r] .
  have "f_token l = None \<Longrightarrow> has g'"
    using r by (auto simp: lock_answer_def flow_simps unspecified_def)
  with postD [OF runs_lock_answer [unfolded runs_def] assms r] show thesis
    using crash answered r l' by auto
qed

text \<open>Every end of \<open>__dav_lock\<close>: a token, or an exception and no token; answers without a body and
  empty \<open>href\<close> elements crash it.\<close>

lemma dav_lock_raw_cases:
  assumes I: "framed P L U g" and L: "lib_sane L"
  obtains (crash) g' where "dav_lock_raw L path g = (Stop Segv, g')"
  | (locked) t g' where "dav_lock_raw L path g = (Ret (Some t), g')" "\<not> has g'" "framed P L U g'"
  | (failed) g' where "dav_lock_raw L path g = (Ret None, g')" "has g'" "framed P L U g'"
proof (cases "has g")
  case True
  then have "dav_lock_raw L path g = (Ret None, g)"
    by (simp add: dav_lock_raw_def with_buffer_def flow_simps onerror_def)
  then show thesis using failed True I by simp
next
  case no: False
  let ?b = "Buffer_init_exist lock_body (of_nat (length lock_body)) False"
  let ?l = "(dframe0 L)\<lparr>f_ctxt := None\<rparr>"
  note def = dav_lock_raw_def with_buffer_def flow_simps onerror_def
  have req: "runs {} False (framed P L U) (lock_request L path ?b)"
    by (intro runs_lock_request L fetch_ok_init length_lock_body)
  from req [unfolded runs_def] I show thesis
  proof (cases rule: postE [where l = ?l])
    case (ok f l1 g1)
    show thesis
    proof (cases "has g1")
      case True
      have "dav_lock_raw L path g = (Ret None, g1)"
        using ok True no by (auto simp: def)
      then show thesis using failed True ok by simp
    next
      case False
      from ok(2) show thesis
      proof (cases rule: lock_answer_cases [where l = l1 and L' = L])
        case (crash g2)
        have "dav_lock_raw L path g = (Stop Segv, g2)"
          using ok False no crash by (auto simp: def)
        then show thesis using that(1) by simp
      next
        case (answered f2 g2)
        have "dav_lock_raw L path g = (Ret (if has g2 then None else f_token l1), g2)"
          using ok False no answered(1,2) by (auto simp: def)
        then show thesis using that(2,3) answered by (cases "f_token l1"; cases "has g2") auto
      qed
    qed
  qed simp
qed

end

lemma pool_inv_dav [simp]:
  "pool_inv L U (g\<lparr>sv_tree := t\<rparr>) = pool_inv L U g" "pool_inv L U (g\<lparr>locks := m\<rparr>) = pool_inv L U g"
  "pool_inv L U (g\<lparr>sv_writer := w\<rparr>) = pool_inv L U g" "pool_inv L U (g\<lparr>sv_readers := r\<rparr>) = pool_inv L U g"
  by (simp_all add: pool_inv_def)

lemma framed_server_is: "framed (server_is s) L U g \<longleftrightarrow> pool_inv L U g \<and> server_is s g"
  by (simp add: framed_def)

text \<open>The part of \<open>dav_lock\<close> under the write lock, when the path is not in the table yet.\<close>

lemma lock_insert_cases:
  assumes c: "c = (lock_insert L path a :: (addr option \<times> ('w, 'a) davw_scheme, int) stmt)" and I: "pool_inv L U g" and L: "lib_sane L" and rw: "sv_readers g = 0" "\<not> sv_writer g"
    and t: "tfind path (sv_tree g) = None" and a: "locks g a = Some fl" and no: "\<not> has g"
  obtains (crash) l' g' where "c (Some a, g) = (Stop Segv, (l', g'))"
  | (entered) tk g' where "c (Some a, g) = (Next, (Some a, g'))" "\<not> has g'" "pool_inv L U g'"
      "server_is (g\<lparr>sv_tree := tsearch path a (sv_tree g), locks := (locks g)(a \<mapsto> fl\<lparr>fl_token := Some tk\<rparr>)\<rparr>) g'"
  | (failed) tk g' where "c (Some a, g) = (Next, (Some a, g'))" "has g'" "pool_inv L U g'"
      "server_is (g\<lparr>locks := (locks g)(a \<mapsto> fl\<lparr>fl_token := tk\<rparr>)\<rparr>) g'"
proof -
  let ?g1 = "g\<lparr>sv_writer := True\<rparr>"
  let ?set = "\<lambda>k tk. k\<lparr>locks := (locks k)(a \<mapsto> fl\<lparr>fl_token := tk\<rparr>)\<rparr>"
  note def = c lock_insert_def synchronized_wrlock_def set_filelock_def with_filelock_def flow_simps rw t
  have "framed (server_is ?g1) L U ?g1" using I by (simp add: framed_def server_is_def)
  then show thesis using L
  proof (cases rule: snapshot.dav_lock_raw_cases [where path = path])
    case (crash g')
    then show thesis using that(1) by (simp add: def)
  next
    case (failed g2)
    have k: "server_is ?g1 g2" "pool_inv L U g2" using failed(3) by (simp_all add: framed_def)
    then have "locks g2 a = Some fl" using a by (simp add: server_is_def)
    then have "c (Some a, g) = (Next, (Some a, (?set g2 None)\<lparr>sv_writer := False\<rparr>))"
      using failed k(1) by (simp add: def server_is_def)
    from that(3) [of _ None, OF this] show thesis using failed k rw by (simp add: server_is_def)
  next
    case (locked tk g2)
    have k: "server_is ?g1 g2" "pool_inv L U g2" using locked(3) by (simp_all add: framed_def)
    then have a2: "locks g2 a = Some fl" using a by (simp add: server_is_def)
    obtain ok w where m: "lib_malloc L (lib g2) = (ok, w)" by fastforce
    show thesis
    proof (cases ok)
      case True
      have "c (Some a, g) = (Next, (Some a,
          (?set g2 (Some tk))\<lparr>lib := w, sv_tree := tsearch path a (sv_tree g2), sv_writer := False\<rparr>))"
        using locked k(1) a2 m True by (simp add: def server_is_def lib_call_def)
      from that(2) [OF this] show thesis using locked k rw by (simp add: server_is_def)
    next
      case False
      have "c (Some a, g) = (Next, (Some a,
          (?set g2 (Some tk))\<lparr>lib := w, ex := (MallocException_init (ex g2) (Some ''filelock table insert''))\<lparr>ex_set := 1\<rparr>,
             sv_writer := False\<rparr>))"
        using locked k(1) a2 m False by (simp add: def server_is_def lib_call_def)
      from that(3) [of _ "Some tk", OF this] show thesis using locked k rw by (simp add: server_is_def)
    qed
  qed
qed

lemma pool_inv_addr: "pool_inv L U g \<Longrightarrow> next_addr g \<le> n \<Longrightarrow> pool_inv L U (g\<lparr>next_addr := n\<rparr>)"
  unfolding pool_inv_def by (elim conjE, intro conjI) (simp_all, metis less_le_trans)

lemma server_is_trans: "server_is s g \<Longrightarrow> server_is g g' \<Longrightarrow> server_is s g'"
  by (simp add: server_is_def)

text \<open>\<open>dav_lock\<close>'s second half up to the write lock: it fails and has touched only its own object, or the
  object is ready. Then the part under the write lock runs, and after a failure the lock is given back.\<close>

lemmas lock_create_steps = lock_create_def malloc_FileLock_def malloc_e_def set_filelock_def with_filelock_def
  free_filelock_def onerror_def lib_call_def flow_simps

abbreviation lock_ready :: "'w \<Rightarrow> string \<Rightarrow> ('w, 'a) davw_scheme \<Rightarrow> ('w, 'a) davw_scheme" where
  "lock_ready w path g \<equiv> g\<lparr>next_addr := Suc (next_addr g), lib := w,
     locks := (locks g)(next_addr g \<mapsto> \<lparr>fl_path = Some path, fl_token = None, fl_cnt = 1\<rparr>)\<rparr>"

lemma lock_create_start:
  assumes c: "c = (lock_create L path :: (addr option \<times> ('w, 'a) davw_scheme, int) stmt)" and I: "pool_inv L U g"
  obtains (failed) l' m g' where "c (None, g) = (Next, (l', g'))" "has g'" "pool_inv L U g'"
      "server_is (g\<lparr>locks := m\<rparr>) g'" "\<And>b. b \<noteq> next_addr g \<Longrightarrow> m b = locks g b"
  | (ready) w w2 where "lib_malloc L (lib g) = (True, w)" "lib_malloc L w = (True, w2)" "\<not> has g" "pool_inv L U (lock_ready w2 path g)"
proof -
  let ?a = "next_addr g"
  let ?free = "\<lambda>k. k\<lparr>locks := (locks k)(?a := None)\<rparr>"
  note def = c lock_create_steps
  obtain ok w where m: "lib_malloc L (lib g) = (ok, w)" by fastforce
  obtain ok2 w2 where m2: "lib_malloc L w = (ok2, w2)" by fastforce
  let ?g1 = "g\<lparr>lib := w, next_addr := Suc ?a, locks := (locks g)(?a \<mapsto> \<lparr>fl_path = None, fl_token = None, fl_cnt = 1\<rparr>)\<rparr>"
  consider (oom) "\<not> ok" | (stale) ok "has g" | (dup) ok "\<not> has g" "\<not> ok2" | (fine) ok ok2 "\<not> has g" by blast
  then show thesis
  proof cases
    case oom
    then have "c (None, g) = (Next, (None, g\<lparr>lib := w, ex := MallocException_init (ex g) (Some ''struct FileLock'')\<rparr>))"
      using m by (simp add: def)
    from failed [OF this, of "locks g"] show thesis using I by (simp add: server_is_def)
  next
    case stale
    then have "c (None, g) = (Next, (Some ?a, ?free ?g1))" using m by (simp add: def)
    from failed [OF this, of "(locks g)(?a := None)"] show thesis
      using I stale by (simp add: server_is_def pool_inv_addr)
  next
    case dup
    have "c (None, g) = (Next, (Some ?a, (?free ?g1)\<lparr>lib := w2,
        ex := (MallocException_init (ex g) (Some ''path dup''))\<lparr>ex_set := 1\<rparr>\<rparr>))"
      using m m2 dup by (simp add: def)
    from failed [OF this, of "(locks g)(?a := None)"] show thesis
      using I by (simp add: server_is_def pool_inv_addr)
  next
    case fine
    then show thesis using ready m m2 I by (simp add: pool_inv_addr)
  qed
qed

lemma lock_create_ready:
  assumes c: "c = (lock_create L path :: (addr option \<times> ('w, 'a) davw_scheme, int) stmt)"
    and m: "lib_malloc L (lib g) = (True, w)" "lib_malloc L w = (True, w2)" "\<not> has g"
    and i: "(lock_insert L path (next_addr g) :: (addr option \<times> ('w, 'a) davw_scheme, int) stmt)
      (Some (next_addr g), lock_ready w2 path g) = (f, (l', g'))"
  shows "f = Next \<Longrightarrow> \<not> has g' \<Longrightarrow> c (None, g) = (Next, (l', g'))"
    "f = Stop x \<Longrightarrow> c (None, g) = (Stop x, (l', g'))"
  using m i by (simp_all add: c lock_create_steps)

lemma lock_create_undo:
  assumes c: "c = (lock_create L path :: (addr option \<times> ('w, 'a) davw_scheme, int) stmt)" and n: "lib_chunk L \<noteq> 0"
    and m: "lib_malloc L (lib g) = (True, w)" "lib_malloc L w = (True, w2)" "\<not> has g"
    and i: "(lock_insert L path (next_addr g) :: (addr option \<times> ('w, 'a) davw_scheme, int) stmt)
      (Some (next_addr g), lock_ready w2 path g) = (Next, (Some (next_addr g), g'))"
    and g': "has g'" "pool_inv L U g'" "locks g' (next_addr g) = Some \<lparr>fl_path = p, fl_token = tk, fl_cnt = 1\<rparr>"
  obtains g3 where "c (None, g) = (Next, (Some (next_addr g), g3\<lparr>locks := (locks g3)(next_addr g := None)\<rparr>))"
    "has g3" "pool_inv L U g3" "server_is g' g3"
proof -
  have "framed (server_is g') L U g'" using g' by (simp add: framed_def)
  with n obtain r g3 where u: "dav_unlock_raw L (Some path) (Some (the tk)) g' = (Ret r, g3)"
      "pool_inv L U g3" "server_is g' g3" "has g3"
    using g'(1) snapshot.gives_unlock_raw [of L "{}" g' U "Some path" "the tk"]
    by (auto simp: framed_def elim!: givesE [where g = g'])
  let ?k = "if tk = None then g' else g3"
  have "c (None, g) = (Next, (Some (next_addr g), ?k\<lparr>locks := (locks ?k)(next_addr g := None)\<rparr>))"
    using i g' m u by (cases tk) (simp_all add: c lock_create_steps server_is_def)
  from that [OF this] show thesis using g' u by simp
qed

lemma lock_create_cases:
  assumes c: "c = (lock_create L path :: (addr option \<times> ('w, 'a) davw_scheme, int) stmt)" and I: "pool_inv L U g" and L: "lib_sane L" and rw: "sv_readers g = 0" "\<not> sv_writer g"
    and t: "tfind path (sv_tree g) = None"
  obtains (crash) l' g' where "c (None, g) = (Stop Segv, (l', g'))"
  | (created) tk g' where "c (None, g) = (Next, (Some (next_addr g), g'))" "\<not> has g'" "pool_inv L U g'"
      "server_is (g\<lparr>next_addr := Suc (next_addr g), sv_tree := tsearch path (next_addr g) (sv_tree g),
         locks := (locks g)(next_addr g \<mapsto> \<lparr>fl_path = Some path, fl_token = Some tk, fl_cnt = 1\<rparr>)\<rparr>) g'"
  | (failed) l' m g' where "c (None, g) = (Next, (l', g'))" "has g'" "pool_inv L U g'"
      "server_is (g\<lparr>locks := m\<rparr>) g'" "\<And>b. b \<noteq> next_addr g \<Longrightarrow> m b = locks g b"
  using c I
proof (cases rule: lock_create_start)
  case (ready w w2)
  let ?g2 = "lock_ready w2 path g"
  have n: "lib_chunk L \<noteq> 0" using L by (simp add: lib_sane_def)
  have pre: "sv_readers ?g2 = 0" "\<not> sv_writer ?g2" "tfind path (sv_tree ?g2) = None"
      "locks ?g2 (next_addr g) = Some \<lparr>fl_path = Some path, fl_token = None, fl_cnt = 1\<rparr>" "\<not> has ?g2"
    using ready rw t by simp_all
  note run = lock_create_ready [OF c ready(1-3)]
  from refl ready(4) L pre show thesis
  proof (cases rule: lock_insert_cases [where path = path and a = "next_addr g"])
    case (crash l' g')
    then show thesis using that(1) run(2) by blast
  next
    case (entered tk g')
    from that(2) [OF run(1) [OF entered(1) refl entered(2)] entered(2,3)] show thesis using entered(4) by (simp add: server_is_def)
  next
    case (failed tk g')
    have "locks g' (next_addr g) = Some \<lparr>fl_path = Some path, fl_token = tk, fl_cnt = 1\<rparr>"
      using failed(4) by (simp add: server_is_def)
    from lock_create_undo [OF c n ready(1-3) failed(1-3) this] obtain g3 where
      g3: "c (None, g) = (Next, (Some (next_addr g), g3\<lparr>locks := (locks g3)(next_addr g := None)\<rparr>))"
        "has g3" "pool_inv L U g3" "server_is g' g3" .
    from that(3) [OF g3(1), of "(locks g)(next_addr g := None)"] show thesis
      using failed g3 by (auto simp: server_is_def)
  qed
qed (erule that(3), assumption+)

text \<open>Another thread was faster: its lock is counted and the object freed.\<close>

lemma lock_create_found:
  assumes c: "c = (lock_create L path :: (addr option \<times> ('w, 'a) davw_scheme, int) stmt)" and I: "pool_inv L U g"
    and rw: "sv_readers g = 0" "\<not> sv_writer g" and t: "tfind path (sv_tree g) = Some b" "locks g b = Some fl" "b < next_addr g"
  obtains (counted) g' where "c (None, g) = (Next, (None, g'))" "\<not> has g'" "pool_inv L U g'"
      "server_is (g\<lparr>locks := (locks g)(b \<mapsto> fl\<lparr>fl_cnt := fl_cnt fl + 1\<rparr>, next_addr g := None)\<rparr>) g'"
  | (failed) l' m g' where "c (None, g) = (Next, (l', g'))" "has g'" "pool_inv L U g'"
      "server_is (g\<lparr>locks := m\<rparr>) g'" "\<And>b. b \<noteq> next_addr g \<Longrightarrow> m b = locks g b"
  using c I
proof (cases rule: lock_create_start)
  case (ready w w2)
  let ?g = "(lock_ready w2 path g)\<lparr>locks := (locks g)(b \<mapsto> fl\<lparr>fl_cnt := fl_cnt fl + 1\<rparr>, next_addr g := None)\<rparr>"
  have "(lock_insert L path (next_addr g) :: (addr option \<times> ('w, 'a) davw_scheme, int) stmt)
      (Some (next_addr g), lock_ready w2 path g) = (Next, (None, ?g))"
    using rw t by (simp add: lock_insert_def synchronized_wrlock_def set_filelock_def with_filelock_def free_filelock_def
        flow_simps fun_upd_twist)
  from counted [OF lock_create_ready(1) [OF c ready(1-3) this]] show thesis
    using ready(3,4) by (simp add: server_is_def)
qed (erule that(2), assumption+)

subsection \<open>The table between calls\<close>

text \<open>What holds of the table when the read-write lock is free: its entries are well formed and have at
  least \<open>k\<close> users each. Between calls, when no thread is inside one, every entry has a user.\<close>

definition lock_inv_from :: "int \<Rightarrow> 'w libs \<Rightarrow> addr set \<Rightarrow> ('w, 'a) davw_scheme \<Rightarrow> bool" where
  "lock_inv_from k L U g \<longleftrightarrow> pool_inv L U g \<and> lock_wf g \<and> use_lock (sv_options g) \<and> rw g = (0, False) \<and>
     (\<forall>(p, a) \<in> set (sv_tree g). \<forall>fl. locks g a = Some fl \<longrightarrow> k \<le> fl_cnt fl)"

abbreviation lock_inv :: "'w libs \<Rightarrow> addr set \<Rightarrow> ('w, 'a) davw_scheme \<Rightarrow> bool" where
  "lock_inv \<equiv> lock_inv_from 1"

lemmas lock_inv_def = lock_inv_from_def

lemma lock_inv_find:
  assumes "lock_inv_from k L U g" "tfind p (sv_tree g) = Some a"
  obtains fl t where "locks g a = Some fl" "fl_path fl = Some p" "fl_token fl = Some t" "k \<le> fl_cnt fl"
    "lock_count g p = fl_cnt fl" "a < next_addr g"
proof -
  have mem: "(p, a) \<in> set (sv_tree g)" using assms(2) by (auto simp: tfind_def dest: map_of_SomeD)
  from assms have "lock_entry g p a" by (auto simp: lock_inv_def intro: lock_wf_find)
  with mem assms that show thesis by (fastforce simp: lock_inv_def lock_count_def lock_entry_def)
qed

lemma lock_inv_other:
  assumes "lock_inv_from k L U g" "tfind p (sv_tree g) = Some a" "tfind q (sv_tree g) = Some b" "q \<noteq> p"
  shows "b \<noteq> a"
proof -
  have mem: "(p, a) \<in> set (sv_tree g)" "(q, b) \<in> set (sv_tree g)"
    using assms by (auto simp: tfind_def dest: map_of_SomeD)
  have inj: "inj_on snd (set (sv_tree g))" using assms by (simp add: lock_inv_def lock_wf_def distinct_map)
  show ?thesis using inj_onD [OF inj _ mem] assms(4) by auto
qed

text \<open>Changing the count of one entry.\<close>

lemma lock_inv_recount:
  assumes "lock_inv_from k L U g" "tfind p (sv_tree g) = Some a" "locks g a = Some fl" "k \<le> n"
  defines "g' \<equiv> g\<lparr>locks := (locks g)(a \<mapsto> fl\<lparr>fl_cnt := n\<rparr>)\<rparr>"
  shows "lock_inv_from k L U g'" "lock_count g' = (lock_count g)(p := n)"
proof -
  have "lock_entry g' q b = lock_entry g q b" for q b
    using assms(3) by (auto simp: g'_def lock_entry_def)
  then have "lock_wf g'" using assms(1) by (simp add: lock_inv_def lock_wf_def g'_def)
  then show "lock_inv_from k L U g'" using assms by (auto simp: lock_inv_def rw_def split: if_splits)
  show "lock_count g' = (lock_count g)(p := n)"
    using assms(2) lock_inv_other [OF assms(1,2)]
    by (auto simp: fun_eq_iff lock_count_def g'_def split: option.splits)
qed

text \<open>A new entry, at a fresh address.\<close>

lemma tsearch_new: "tfind p t = None \<Longrightarrow> tsearch p a t = (p, a) # t"
  by (simp add: tsearch_def)

lemma lock_inv_insert:
  assumes "lock_inv_from k L U g" "tfind p (sv_tree g) = None" "pool_inv L U g'"
    and s: "server_is (g\<lparr>next_addr := Suc (next_addr g), sv_tree := tsearch p (next_addr g) (sv_tree g),
         locks := (locks g)(next_addr g \<mapsto> \<lparr>fl_path = Some p, fl_token = Some tk, fl_cnt = 1\<rparr>)\<rparr>) g'" and "k \<le> 1"
  shows "lock_inv_from k L U g'" "lock_count g' = (lock_count g)(p := lock_count g p + 1)"
proof -
  let ?fl = "\<lparr>fl_path = Some p, fl_token = Some tk, fl_cnt = 1\<rparr>"
  have g': "sv_tree g' = (p, next_addr g) # sv_tree g" "locks g' = (locks g)(next_addr g \<mapsto> ?fl)"
      "rw g' = rw g" "sv_options g' = sv_options g" "next_addr g < next_addr g'"
    using s assms(2) by (auto simp: server_is_def tsearch_new rw_def)
  have old: "b < next_addr g" if "(q, b) \<in> set (sv_tree g)" for q b
    using that assms(1) by (auto simp: lock_inv_def lock_wf_def lock_entry_def)
  have "p \<notin> fst ` set (sv_tree g)" using assms(2) by (simp add: tfind_def map_of_eq_None_iff)
  moreover have "next_addr g \<notin> snd ` set (sv_tree g)" using old by fastforce
  moreover have "lock_entry g' q b" if "(q, b) \<in> set (sv_tree g)" for q b
    using that old [OF that] assms(1) g' by (auto simp: lock_inv_def lock_wf_def lock_entry_def)
  ultimately have "lock_wf g'"
    using assms(1) g' by (auto simp: lock_inv_def lock_wf_def) (auto simp: lock_entry_def)
  then show "lock_inv_from k L U g'"
    using assms(1,3,5) g' old by (auto simp: lock_inv_def split: if_splits)
  show "lock_count g' = (lock_count g)(p := lock_count g p + 1)"
    using g' assms(2) old
    by (fastforce simp: fun_eq_iff lock_count_def tfind_def dest: map_of_SomeD split: option.splits)
qed

text \<open>Changes of objects that are not in the table do not matter.\<close>

lemma lock_inv_same:
  assumes "lock_inv_from k L U g" "pool_inv L U g'" and s: "server_is (g\<lparr>locks := m\<rparr>) g'"
    and m: "\<And>q b. (q, b) \<in> set (sv_tree g) \<Longrightarrow> m b = locks g b"
  shows "lock_inv_from k L U g'" "lock_count g' = lock_count g"
proof -
  have g': "sv_tree g' = sv_tree g" "locks g' = m" "rw g' = rw g" "sv_options g' = sv_options g" "next_addr g \<le> next_addr g'"
    using s by (auto simp: server_is_def rw_def)
  have same: "locks g' b = locks g b" if "(q, b) \<in> set (sv_tree g)" for q b
    using m [OF that] g'(2) by simp
  have "lock_entry g' q b" if "(q, b) \<in> set (sv_tree g)" for q b
    using that same [OF that] g' assms(1) by (fastforce simp: lock_inv_def lock_wf_def lock_entry_def)
  then have "lock_wf g'" using assms(1) g' by (auto simp: lock_inv_def lock_wf_def)
  then show "lock_inv_from k L U g'" using assms(1,2) g' same by (fastforce simp: lock_inv_def)
  show "lock_count g' = lock_count g"
    using g'(1) same by (auto simp: fun_eq_iff lock_count_def tfind_def dest!: map_of_SomeD split: option.splits)
qed

lemma lock_inv_addr: "lock_inv_from k L U g \<Longrightarrow> (q, b) \<in> set (sv_tree g) \<Longrightarrow> b < next_addr g"
  by (auto simp: lock_inv_def lock_wf_def lock_entry_def)

lemma lock_inv_fresh:
  assumes "lock_inv_from k L U g" "pool_inv L U g'" "server_is (g\<lparr>locks := m\<rparr>) g'"
    and m: "\<And>b. b \<noteq> next_addr g \<Longrightarrow> m b = locks g b"
  shows "lock_inv_from k L U g'" "lock_count g' = lock_count g"
  using lock_inv_same [OF assms(1-3)] lock_inv_addr [OF assms(1)] m by (metis less_irrefl)+

text \<open>Removing an entry.\<close>

lemma lock_inv_remove:
  assumes "lock_inv_from k L U g" and a: "tfind p (sv_tree g) = Some a" and "pool_inv L U g'"
    and s: "server_is (g\<lparr>sv_tree := tdelete p (sv_tree g), locks := m\<rparr>) g'"
    and m: "\<And>b. b \<noteq> a \<Longrightarrow> m b = locks g b"
  shows "lock_inv_from k L U (g'\<lparr>locks := (locks g')(a := None)\<rparr>)"
    "lock_count (g'\<lparr>locks := (locks g')(a := None)\<rparr>) = (lock_count g)(p := 0)"
proof -
  let ?g = "g'\<lparr>locks := (locks g')(a := None)\<rparr>"
  let ?d = "g\<lparr>sv_tree := tdelete p (sv_tree g), locks := (locks g)(a := None)\<rparr>"
  have g': "sv_tree ?g = tdelete p (sv_tree g)" "locks ?g = (locks g)(a := None)" "rw ?g = rw g"
      "sv_options ?g = sv_options g" "next_addr g \<le> next_addr ?g"
    using s m by (auto simp: server_is_def rw_def)
  have lk: "locks g' b = locks g b" if "b \<noteq> a" for b using s m [OF that] by (simp add: server_is_def)
  have "lock_wf ?d" using assms(1) a by (simp add: lock_inv_def lock_wf_delete)
  then have "lock_wf ?g" using g' by (fastforce simp: lock_wf_def lock_entry_def)
  then show "lock_inv_from k L U ?g"
    using assms(1,3) g' by (auto simp: lock_inv_def tdelete_def split: if_splits)
  show "lock_count ?g = (lock_count g)(p := 0)"
    using g'(1) lk lock_inv_other [OF assms(1) a]
    by (auto simp: fun_eq_iff lock_count_def lock_tree.find_del split: option.splits)
qed

text \<open>The two halves of \<open>dav_lock\<close> one after the other.\<close>

lemma dav_lock_absent:
  assumes "use_lock (sv_options g)" "\<not> sv_writer g" "tfind path (sv_tree g) = None"
    and c: "(lock_create L path :: (addr option \<times> ('w, 'a) davw_scheme, int) stmt) (None, g) = (f, (l', g'))"
  shows "dav_lock L path g =
    (if f = Next then (Ret (if has g' then 1 else 0), g') else (f, g'))"
  using assms
  by (simp add: dav_lock_def lock_lookup_def synchronized_rdlock_def flow_simps locking_def ret_status_def TEST_SUCCESS_def)

lemma dav_lock_cases:
  assumes I: "lock_inv L U g" and L: "lib_sane L"
  obtains (crash) g' where "dav_lock L path g = (Stop Segv, g')" "lock_count g path = 0"
  | (locked) g' where "dav_lock L path g = (Ret 0, g')" "lock_inv L U g'"
      "lock_count g' = (lock_count g)(path := lock_count g path + 1)" "lock_count g path \<noteq> 0 \<Longrightarrow> lib g' = lib g"
  | (failed) g' where "dav_lock L path g = (Ret 1, g')" "has g'" "lock_inv L U g'" "lock_count g' = lock_count g"
      "lock_count g path = 0"
proof (cases "tfind path (sv_tree g)")
  case (Some a)
  from I Some obtain fl where fl: "locks g a = Some fl" "1 \<le> fl_cnt fl" "lock_count g path = fl_cnt fl"
    by (rule lock_inv_find)
  have "dav_lock L path g = (Ret 0, g\<lparr>locks := (locks g)(a \<mapsto> fl\<lparr>fl_cnt := fl_cnt fl + 1\<rparr>)\<rparr>)"
    using I Some fl(1) by (intro dav_lock_held) (auto simp: lock_inv_def rw_def)
  then show thesis
    using locked lock_inv_recount [OF I Some fl(1), of "fl_cnt fl + 1"] fl by simp
next
  case None
  have pre: "use_lock (sv_options g)" "\<not> sv_writer g" "sv_readers g = 0" "pool_inv L U g"
    using I by (auto simp: lock_inv_def rw_def)
  have zero: "lock_count g path = 0" using None by (simp add: lock_count_def)
  note eq = dav_lock_absent [OF pre(1,2) None]
  from refl pre(4) L pre(3,2) None show thesis
  proof (cases rule: lock_create_cases)
    case (crash l' g')
    then show thesis using that(1) eq [OF crash] zero by simp
  next
    case (created tk g')
    then show thesis using that(2) eq [OF created(1)] lock_inv_insert [OF I None created(3,4)] zero by simp
  next
    case (failed l' m g')
    then show thesis using that(3) eq [OF failed(1)] lock_inv_fresh [OF I failed(3-5)] zero by simp
  qed
qed

context dav_frame
begin

lemma unlock_raw_cases:
  assumes I: "framed P L U g" and n: "lib_chunk L \<noteq> 0"
  obtains g' where "dav_unlock_raw L path (Some t) g = (Ret (if has g' then 1 else 0), g')" "framed P L U g'"
proof -
  let ?c = "with_server L path (\<lambda>curl.
     throwable (scope_slist L (Some (snprintf (15 + length t) (''Lock-Token: <'' @ t @ ''>''))) (block [
            setopt_list L curl,
            curl_easy_setopt_or_die L curl CURLOPT_CUSTOMREQUEST (VStr (Some ''UNLOCK'')),
            curl_easy_perform_or_die L curl no_callback no_callback]))) :: ('w, 'a, int) davs"
  have "ends {} (framed P L U) ?c" using n by (intro runs_intros | simp)+
  from this [unfolded ends_def] I show thesis
  proof (cases rule: postE [where l = "dframe0 L"])
    case (ok f l' g')
    then have "dav_unlock_raw L path (Some t) g = (Ret (if has g' then 1 else 0), g')"
      by (simp add: dav_unlock_raw_def flow_simps ret_status_def TEST_SUCCESS_def)
    with that ok show thesis by simp
  qed simp
qed

end

lemma lock_count_ex [simp]: "lock_count (g\<lparr>ex := e\<rparr>) = lock_count g"
  by (simp add: lock_count_def fun_eq_iff cong: option.case_cong)

lemma dav_unlock_cases:
  assumes I: "lock_inv L U g" and n: "lib_chunk L \<noteq> 0"
  obtains (missing) g' where "dav_unlock L path g = (Ret 1, g')" "has g'" "lock_inv L U g'"
      "lock_count g' = lock_count g" "lock_count g path = 0"
  | (shared) g' where "dav_unlock L path g = (Ret 0, g')" "lock_inv L U g'" "lib g' = lib g" "1 < lock_count g path"
      "lock_count g' = (lock_count g)(path := lock_count g path - 1)"
  | (last) g' where "dav_unlock L path g = (Ret (if has g' then 1 else 0), g')" "lock_inv L U g'" "lock_count g path = 1"
      "lock_count g' = (lock_count g)(path := 0)"
proof -
  have pre: "use_lock (sv_options g)" "\<not> sv_writer g" "sv_readers g = 0" "pool_inv L U g"
    using I by (auto simp: lock_inv_def rw_def)
  show thesis
  proof (cases "tfind path (sv_tree g)")
    case None
    let ?g = "g\<lparr>ex := UnspecifiedException_init (ex g) ''release cannot find file lock''\<rparr>"
    have "lock_inv L U ?g" "lock_count ?g = lock_count g" "lock_count g path = 0"
      using I None by (auto simp: lock_inv_def rw_def lock_wf_def) (simp add: lock_count_def)
    then show thesis using missing dav_unlock_missing [OF pre(1,2) None, of L] by simp
  next
    case (Some a)
    from I Some obtain fl t where fl: "locks g a = Some fl" "fl_path fl = Some path" "fl_token fl = Some t" "1 \<le> fl_cnt fl"
      "lock_count g path = fl_cnt fl" by (rule lock_inv_find)
    show thesis
    proof (cases "1 < fl_cnt fl")
      case True
      from lock_inv_recount [OF I Some fl(1), of "fl_cnt fl - 1"] True fl(5)
      show thesis using shared dav_unlock_shared [OF pre(1,2) Some fl(1) True, of L] by simp
    next
      case False
      let ?g1 = "g\<lparr>locks := (locks g)(a \<mapsto> fl\<lparr>fl_cnt := fl_cnt fl - 1\<rparr>), sv_tree := tdelete path (sv_tree g)\<rparr>"
      have "framed (server_is ?g1) L U ?g1" using pre by (simp add: framed_def)
      then obtain g2 where u: "dav_unlock_raw L (Some path) (Some t) ?g1 = (Ret (if has g2 then 1 else 0), g2)"
          "pool_inv L U g2" "server_is ?g1 g2"
        using snapshot.unlock_raw_cases [OF _ n] by (metis framed_def)
      have "server_is (g\<lparr>sv_tree := tdelete path (sv_tree g), locks := (locks g)(a \<mapsto> fl\<lparr>fl_cnt := fl_cnt fl - 1\<rparr>)\<rparr>) g2"
        using u(3) by (simp add: server_is_def)
      note r = lock_inv_remove [OF I Some u(2) this]
      have "dav_unlock L path g = (Ret (if has g2 then 1 else 0), g2\<lparr>locks := (locks g2)(a := None)\<rparr>)"
        using False u(1) fl pre by (intro dav_unlock_last [OF pre(1-3) Some]) auto
      then show thesis using last [of "g2\<lparr>locks := (locks g2)(a := None)\<rparr>"] r False fl by simp
    qed
  qed
qed

subsection \<open>Sequences of calls\<close>

text \<open>A thread's calls, up to the first that fails, and what they do to the numbers of users.\<close>

datatype lock_op = OpLock string | OpUnlock string

fun run_ops ::
  "(string \<Rightarrow> ('g, int) stmt) \<Rightarrow> (string \<Rightarrow> ('g, int) stmt) \<Rightarrow> lock_op list \<Rightarrow> 'g \<Rightarrow> 'g option" where
  "run_ops get put [] g = Some g"
| "run_ops get put (op # ops) g =
     (case (case op of OpLock p \<Rightarrow> get p g | OpUnlock p \<Rightarrow> put p g) of
        (Ret r, g') \<Rightarrow> if r = 0 then run_ops get put ops g' else None
      | _ \<Rightarrow> None)"

fun count_op :: "lock_op \<Rightarrow> (string \<Rightarrow> int) \<Rightarrow> string \<Rightarrow> int" where
  "count_op (OpLock p) c = c(p := c p + 1)"
| "count_op (OpUnlock p) c = c(p := c p - 1)"

lemma run_ops_Cons:
  assumes "run_ops get put (x # ops) g = Some g'"
  shows "\<exists>g1. (case x of OpLock p \<Rightarrow> get p g | OpUnlock p \<Rightarrow> put p g) = (Ret 0, g1) \<and> run_ops get put ops g1 = Some g'"
proof -
  obtain f g1 where e: "(case x of OpLock p \<Rightarrow> get p g | OpUnlock p \<Rightarrow> put p g) = (f, g1)"
    by (metis prod.exhaust)
  from assms have "(case f of Ret r \<Rightarrow> if r = 0 then run_ops get put ops g1 else None | _ \<Rightarrow> None) = Some g'"
    unfolding run_ops.simps e by simp
  with e show ?thesis by (cases f) (auto split: if_splits)
qed

text \<open>The contract of reference counted resources.\<close>

locale ref_counted =
  fixes inv :: "'g \<Rightarrow> bool"
    and users :: "'g \<Rightarrow> string \<Rightarrow> int"
    and get put :: "string \<Rightarrow> ('g, int) stmt"
  assumes get_ok: "inv g \<Longrightarrow> get p g = (Ret 0, g') \<Longrightarrow> inv g' \<and> users g' = count_op (OpLock p) (users g)"
    and put_ok: "inv g \<Longrightarrow> put p g = (Ret 0, g') \<Longrightarrow> inv g' \<and> users g' = count_op (OpUnlock p) (users g)"
    and users_nonneg: "inv g \<Longrightarrow> 0 \<le> users g p"
begin

lemma run_counts:
  "inv g \<Longrightarrow> run_ops get put ops g = Some g' \<Longrightarrow> inv g' \<and> users g' = fold count_op ops (users g)"
proof (induction ops arbitrary: g)
  case (Cons x xs)
  from run_ops_Cons [OF Cons.prems(2)] obtain g1 where
    e: "(case x of OpLock p \<Rightarrow> get p g | OpUnlock p \<Rightarrow> put p g) = (Ret 0, g1)"
    and r: "run_ops get put xs g1 = Some g'" by blast
  have "inv g1 \<and> users g1 = count_op x (users g)"
    using e get_ok [OF Cons.prems(1)] put_ok [OF Cons.prems(1)] by (cases x) simp_all
  with Cons.IH [OF _ r] show ?case by simp
qed simp

lemma run_nonneg: "inv g \<Longrightarrow> run_ops get put ops g = Some g' \<Longrightarrow> 0 \<le> fold count_op ops (users g) p"
  using run_counts users_nonneg by metis

end

interpretation file_locks: ref_counted "\<lambda>g. lib_sane L \<and> lock_inv L U g" lock_count "dav_lock L" "dav_unlock L" for L U
proof (unfold_locales, goal_cases)
  case (1 g p g')
  then have L: "lock_inv L U g" "lib_sane L" by auto
  from L show ?case by (cases rule: dav_lock_cases [where path = p]) (use 1 L in auto)
next
  case (2 g p g')
  then have L: "lock_inv L U g" "lib_sane L" "lib_chunk L \<noteq> 0" by (auto simp: lib_sane_def)
  from L(1,3) show ?case
    by (cases rule: dav_unlock_cases [where path = p]) (use 2 L in \<open>auto split: if_splits\<close>)
next
  case (3 g p)
  then have "lock_inv L U g" by simp
  then show ?case
    by (cases "tfind p (sv_tree g)") (simp add: lock_count_def, erule (1) lock_inv_find, simp)
qed

subsection \<open>Properties\<close>

lemma lib_sane_demo: "lib_sane (demo_lib r)" "lib_sane lock_lib"
  by (simp_all add: lib_sane_def demo_lib_def lock_lib_def)

lemma lock_inv_demo: "lock_inv L {} idle0" "lock_inv L {} held0"
  using lock_wf_client0
  by (simp_all add: lock_inv_def pool_inv_client0 idle0_def held0_def)

lemma held0_simps:
  "tfind ''/a'' (sv_tree held0) = Some 0" "use_lock (sv_options held0)" "\<not> sv_writer held0" "sv_readers held0 = 0"
  "locks held0 0 = Some \<lparr>fl_path = Some ''/a'', fl_token = Some ''t'', fl_cnt = 1\<rparr>" "lock_count held0 ''/a'' = 1"
  "\<not> has held0"
  by (simp_all add: held0_def client0_def opts0_def tfind_def lock_count_def)





text \<open>C14: \<open>dav_unlock\<close> from a state between calls always returns. For a path nobody has locked it fails
  and changes no count; as long as other users remain it succeeds without a request; the last user
  removes the entry even when the server refuses the UNLOCK, and the status says which it was.\<close>

theorem dav_unlock_outcome:
  assumes I: "lock_inv L U g" and n: "lib_chunk L \<noteq> 0"
  shows "\<exists>r g'. dav_unlock L path g = (Ret r, g') \<and> lock_inv L U g' \<and>
    (if lock_count g path = 0 then r = 1 \<and> Exception_has (ex g') \<and> lock_count g' = lock_count g
     else if lock_count g path = 1 then r = (if Exception_has (ex g') then 1 else 0) \<and> lock_count g' = (lock_count g)(path := 0)
     else r = 0 \<and> lib g' = lib g \<and> lock_count g' = (lock_count g)(path := lock_count g path - 1))"
  using I n by (cases rule: dav_unlock_cases [where path = path]) auto

theorem dav_unlock_outcome_witness:
  "\<exists>r g'. dav_unlock lock_lib ''/a'' held0 = (Ret r, g') \<and> lock_inv lock_lib {} g' \<and> lock_count g' ''/a'' = 0"
  using dav_unlock_outcome [OF lock_inv_demo(2), of lock_lib "''/a''"]
  by (auto simp: held0_simps lock_lib_def demo_lib_def)

text \<open>C27: a race between two threads. One runs \<open>dav_unlock\<close> as the last user and has counted down to
  zero; before it removes the entry, another runs \<open>dav_lock\<close>, finds the entry and is told it holds
  the lock. The first thread sees the count above zero and keeps the entry, but its pointer is
  still set: it sends UNLOCK for the token the other thread relies on and frees the object. The
  table then holds a dangling pointer, and the next request that builds an If header for the path
  reads freed memory.\<close>

theorem unlock_race:
  assumes I: "lock_inv L U g" and n: "lib_chunk L \<noteq> 0" and one: "lock_count g path = 1"
  shows "\<exists>u a g1 g2 r u3 g3.
    unlock_count path (uframe0, g) = (Next, (u, g1)) \<and>
    dav_lock L path g1 = (Ret 0, g2) \<and>
    (block [unlock_remove path, unlock_send L] (u, g2) :: int flow \<times> _) = (Ret r, (u3, g3)) \<and>
    tfind path (sv_tree g3) = Some a \<and> locks g3 a = None \<and>
    fst (dav_header_if L list0 path lt g3) = Stop Segv"
proof -
  obtain a where a: "tfind path (sv_tree g) = Some a"
    using one by (cases "tfind path (sv_tree g)") (simp_all add: lock_count_def)
  from I a obtain fl t where fl: "locks g a = Some fl" "fl_path fl = Some path" "fl_token fl = Some t" "fl_cnt fl = 1"
    using one by (auto elim: lock_inv_find)
  have pre: "use_lock (sv_options g)" "\<not> sv_writer g" "sv_readers g = 0" "pool_inv L U g"
    using I by (auto simp: lock_inv_def rw_def)
  let ?g1 = "g\<lparr>locks := (locks g)(a \<mapsto> fl\<lparr>fl_cnt := 0\<rparr>)\<rparr>"
  let ?g2 = "g\<lparr>locks := (locks g)(a \<mapsto> fl)\<rparr>"
  let ?u = "uframe0\<lparr>u_filelock := Some a\<rparr>"
  have 1: "unlock_count path (uframe0, g) = (Next, (?u, ?g1))"
    using unlock_count_found [OF pre(2) a fl(1)] fl(4) by simp
  have "fl\<lparr>fl_cnt := 1\<rparr> = fl" using fl(4) by (cases fl) simp
  then have 2: "dav_lock L path ?g1 = (Ret 0, ?g2)"
    using dav_lock_held [of ?g1 path a "fl\<lparr>fl_cnt := 0\<rparr>"] pre a by simp
  let ?h = "?g2\<lparr>sv_writer := False\<rparr>"
  have "framed (server_is ?h) L U ?h" using pre(4) by (simp add: framed_def)
  then obtain g3 where 3: "dav_unlock_raw L (Some path) (Some t) ?h = (Ret (if has g3 then 1 else 0), g3)"
      "server_is ?h g3"
    using snapshot.unlock_raw_cases [OF _ n] by (metis framed_def)
  let ?g4 = "g3\<lparr>locks := (locks g3)(a := None)\<rparr>"
  have 4: "(block [unlock_remove path, unlock_send L] (?u, ?g2) :: int flow \<times> _) =
      (Ret (if has g3 then 1 else 0), (?u\<lparr>u_res := (if has g3 then 1 else 0)\<rparr>, ?g4))"
    using pre a fl 3(1)
    by (simp add: unlock_remove_def synchronized_wrlock_def unlock_send_def with_filelock_def free_filelock_def flow_simps)
  have 5: "tfind path (sv_tree ?g4) = Some a" "locks ?g4 a = None"
    using a 3(2) by (simp_all add: server_is_def)
  moreover have "fst (dav_header_if L list0 path lt ?g4) = Stop Segv"
    using 5 by (simp add: dav_header_if_def flow_simps)
  ultimately show ?thesis using 1 2 4 by blast
qed

theorem unlock_race_witness:
  "\<exists>u a g1 g2 r u3 g3.
    unlock_count ''/a'' (uframe0, held0) = (Next, (u, g1)) \<and>
    dav_lock lock_lib ''/a'' g1 = (Ret 0, g2) \<and>
    (block [unlock_remove ''/a'', unlock_send lock_lib] (u, g2) :: int flow \<times> _) = (Ret r, (u3, g3)) \<and>
    tfind ''/a'' (sv_tree g3) = Some a \<and> locks g3 a = None \<and>
    fst (dav_header_if lock_lib [] ''/a'' RW_LOCK_READ g3) = Stop Segv"
  by (rule unlock_race [OF lock_inv_demo(2)]) (simp_all add: held0_simps lock_lib_def demo_lib_def)

end
