(* ===== verification/Dav_Lock_Threads.thy ===== *)
theory Dav_Lock_Threads
  imports Dav_Lock_Laws
begin

text \<open>
  The lock table with many threads. Each rule of the step relation runs one part of \<open>dav_lock\<close> or
  \<open>dav_unlock\<close> between two points at which other threads can run: a critical section under the
  read-write lock, or work on an object no other thread can reach.
\<close>

subsection \<open>Threads\<close>

text \<open>Where a thread is: outside of the two functions; in \<open>dav_lock\<close>, after it found no entry; in
  \<open>dav_unlock\<close>, after it counted down to zero; there, after it looked at the entry again.\<close>

datatype lock_phase = Outside | Creating string | Removing string uframe | Sending uframe

text \<open>The shared state, the threads with their own exceptions (\<open>ex\<close> is thread local), and two things that
  only the proofs see: the number of users of each path, that is the successful calls of \<open>dav_lock\<close> less
  the calls of \<open>dav_unlock\<close>, and whether \<open>dav_lock\<close> ever took an entry that had no users left.\<close>

record ('w, 'a) lock_sys =
  shared :: "('w, 'a) davw_scheme"
  phase :: "nat \<Rightarrow> lock_phase"
  own_ex :: "nat \<Rightarrow> exception"
  users :: "string \<Rightarrow> int"
  revived :: bool

definition view :: "('w, 'a) lock_sys \<Rightarrow> nat \<Rightarrow> ('w, 'a) davw_scheme" where
  "view s t = (shared s)\<lparr>ex := own_ex s t\<rparr>"

definition moves :: "('w, 'a) lock_sys \<Rightarrow> nat \<Rightarrow> lock_phase \<Rightarrow> ('w, 'a) davw_scheme \<Rightarrow> ('w, 'a) lock_sys" where
  "moves s t ph g = s\<lparr>shared := g, phase := (phase s)(t := ph), own_ex := (own_ex s)(t := ex g)\<rparr>"

definition unused :: "('w, 'a) davw_scheme \<Rightarrow> string \<Rightarrow> bool" where
  "unused g path \<longleftrightarrow> tfind path (sv_tree g) \<noteq> None \<and> lock_count g path \<le> 0"

definition gains :: "('w, 'a) lock_sys \<Rightarrow> string \<Rightarrow> ('w, 'a) lock_sys \<Rightarrow> ('w, 'a) lock_sys" where
  "gains s path s' = s'\<lparr>users := (users s)(path := users s path + 1), revived := revived s \<or> unused (shared s) path\<rparr>"

text \<open>A file is closed only after it was opened: \<open>dav_unlock\<close> is called while the path has users.\<close>

inductive lock_step :: "'w libs \<Rightarrow> ('w, 'a) lock_sys \<Rightarrow> ('w, 'a) lock_sys \<Rightarrow> bool" for L where
  found: "lock_step L s (gains s path (moves s t Outside g))"
    if "phase s t = Outside" "(lock_lookup path (None, view s t) :: int flow \<times> _) = (Next, (Some a, g))"
| missed: "lock_step L s (moves s t (Creating path) g)"
    if "phase s t = Outside" "(lock_lookup path (None, view s t) :: int flow \<times> _) = (Next, (None, g))"
| created: "lock_step L s (gains s path (moves s t Outside g))"
    if "phase s t = Creating path" "(lock_create L path (None, view s t) :: int flow \<times> _) = (Next, (l, g))" "\<not> has g"
| refused: "lock_step L s (moves s t Outside g)"
    if "phase s t = Creating path" "(lock_create L path (None, view s t) :: int flow \<times> _) = (Next, (l, g))" "has g"
| counted: "lock_step L s ((moves s t (if u_filelock u = None then Outside else Removing path u) g)
      \<lparr>users := (users s)(path := users s path - 1)\<rparr>)"
    if "phase s t = Outside" "0 < users s path" "(unlock_count path (uframe0, view s t) :: int flow \<times> _) = (Next, (u, g))"
| removed: "lock_step L s (moves s t (if u_filelock u' = None then Outside else Sending u') g)"
    if "phase s t = Removing path u" "(unlock_remove path (u, view s t) :: int flow \<times> _) = (Next, (u', g))"
| sent: "lock_step L s (moves s t Outside g)"
    if "phase s t = Sending u" "unlock_send L (u, view s t) = (Ret r, (u', g))"

text \<open>All threads are outside, and every path has the users its entry counts.\<close>

definition lock_start :: "('w, 'a) davw_scheme \<Rightarrow> ('w, 'a) lock_sys" where
  "lock_start g = \<lparr>shared = g, phase = (\<lambda>_. Outside), own_ex = (\<lambda>_. ex g), users = lock_count g, revived = False\<rparr>"

subsection \<open>What holds in between\<close>

text \<open>The object a thread is going to free.\<close>

fun owned :: "lock_phase \<Rightarrow> addr option" where
  "owned (Removing path u) = u_filelock u"
| "owned (Sending u) = u_filelock u"
| "owned _ = None"

definition phase_ok :: "('w, 'a) davw_scheme \<Rightarrow> (string \<Rightarrow> int) \<Rightarrow> lock_phase \<Rightarrow> bool" where
  "phase_ok g n ph = (case ph of
     Outside \<Rightarrow> True
   | Creating path \<Rightarrow> True
   | Removing path u \<Rightarrow> u_filelock u \<noteq> None \<and> tfind path (sv_tree g) = u_filelock u \<and> n path = 0
   | Sending u \<Rightarrow> (\<exists>a path. u_filelock u = Some a \<and> lock_entry g path a \<and> a \<notin> snd ` set (sv_tree g)))"

definition threads_inv :: "'w libs \<Rightarrow> addr set \<Rightarrow> ('w, 'a) lock_sys \<Rightarrow> bool" where
  "threads_inv L U s \<longleftrightarrow> lock_inv_from 0 L U (shared s) \<and> lock_count (shared s) = users s \<and>
     (\<forall>t. phase_ok (shared s) (users s) (phase s t)) \<and>
     (\<forall>t t' a. owned (phase s t) = Some a \<longrightarrow> owned (phase s t') = Some a \<longrightarrow> t = t') \<and>
     (\<forall>path. tfind path (sv_tree (shared s)) \<noteq> None \<longrightarrow> users s path = 0 \<longrightarrow> (\<exists>t u. phase s t = Removing path u))"


lemma moves_simps [simp]:
  "shared (moves s t ph g) = g" "users (moves s t ph g) = users s" "revived (moves s t ph g) = revived s"
  "phase (moves s t ph g) = (phase s)(t := ph)"
  by (simp_all add: moves_def)

lemma gains_simps [simp]:
  "shared (gains s p s') = shared s'" "phase (gains s p s') = phase s'" "users (gains s p s') = (users s)(p := users s p + 1)"
  "revived (gains s p s') \<longleftrightarrow> revived s \<or> unused (shared s) p"
  by (simp_all add: gains_def)

lemma view_simps [simp]:
  "sv_tree (view s t) = sv_tree (shared s)" "locks (view s t) = locks (shared s)" "next_addr (view s t) = next_addr (shared s)"
  "sv_writer (view s t) = sv_writer (shared s)" "sv_readers (view s t) = sv_readers (shared s)"
  "pool_inv L U (view s t) = pool_inv L U (shared s)" "lock_count (view s t) = lock_count (shared s)"
  "sv_options (view s t) = sv_options (shared s)"
  by (simp_all add: view_def pool_inv_def)

lemma lock_entry_view [simp]: "lock_entry (view s t) = lock_entry (shared s)"
  by (simp add: fun_eq_iff lock_entry_def)

lemma lock_inv_view [simp]: "lock_inv_from k L U (view s t) = lock_inv_from k L U (shared s)"
  by (simp add: lock_inv_from_def lock_wf_def rw_def)

lemma threads_invD:
  assumes "threads_inv L U s"
  shows "lock_inv_from 0 L U (shared s)" "lock_count (shared s) = users s" "phase_ok (shared s) (users s) (phase s t)"
    "owned (phase s t) = Some a \<Longrightarrow> owned (phase s t') = Some a \<Longrightarrow> t = t'"
    "tfind path (sv_tree (shared s)) \<noteq> None \<Longrightarrow> users s path = 0 \<Longrightarrow> \<exists>t u. phase s t = Removing path u"
  using assms by (auto simp: threads_inv_def)

text \<open>What a step has to keep for the threads that do not take it.\<close>

definition undisturbed :: "('w, 'a) lock_sys \<Rightarrow> ('w, 'a) davw_scheme \<Rightarrow> (string \<Rightarrow> int) \<Rightarrow> bool" where
  "undisturbed s g n \<longleftrightarrow>
     (\<forall>p. tfind p (sv_tree (shared s)) \<noteq> None \<longrightarrow> users s p = 0 \<longrightarrow> tfind p (sv_tree g) = tfind p (sv_tree (shared s)) \<and> n p = 0) \<and>
     (\<forall>p a. lock_entry (shared s) p a \<longrightarrow> a \<notin> snd ` set (sv_tree (shared s)) \<longrightarrow> lock_entry g p a \<and> a \<notin> snd ` set (sv_tree g))"

lemma phase_ok_undisturbed: "undisturbed s g n \<Longrightarrow> phase_ok (shared s) (users s) ph \<Longrightarrow> phase_ok g n ph"
  by (cases ph) (force simp: undisturbed_def phase_ok_def)+

lemma threads_inv_moves:
  assumes I: "threads_inv L U s" and g: "lock_inv_from 0 L U g" "lock_count g = n"
    and ph: "phase_ok g n ph" "\<And>t'. t' \<noteq> t \<Longrightarrow> phase_ok g n (phase s t')"
    and own: "\<And>t' a. owned ph = Some a \<Longrightarrow> owned (phase s t') = Some a \<Longrightarrow> t' = t"
    and rest: "\<And>p. tfind p (sv_tree g) \<noteq> None \<Longrightarrow> n p = 0 \<Longrightarrow> (\<exists>u. ph = Removing p u) \<or> (\<exists>t' u. t' \<noteq> t \<and> phase s t' = Removing p u)"
  shows "threads_inv L U ((moves s t ph g)\<lparr>users := n, revived := b\<rparr>)"
  unfolding threads_inv_def
proof (intro conjI allI impI)
  fix t1 t2 a
  assume "owned (phase ((moves s t ph g)\<lparr>users := n, revived := b\<rparr>) t1) = Some a"
    "owned (phase ((moves s t ph g)\<lparr>users := n, revived := b\<rparr>) t2) = Some a"
  then show "t1 = t2" using own [of a t1] own [of a t2] threads_invD(4) [OF I, of t1 a t2] by (auto split: if_splits)
next
  fix p assume "tfind p (sv_tree (shared ((moves s t ph g)\<lparr>users := n, revived := b\<rparr>))) \<noteq> None"
    "users ((moves s t ph g)\<lparr>users := n, revived := b\<rparr>) p = 0"
  then show "\<exists>t' u. phase ((moves s t ph g)\<lparr>users := n, revived := b\<rparr>) t' = Removing p u" using rest [of p] by force
qed (use g ph in simp_all)

text \<open>The common case: the thread neither had nor gets an object to free.\<close>

lemma threads_inv_free:
  assumes I: "threads_inv L U s" and g: "lock_inv_from 0 L U g" "lock_count g = n" and u: "undisturbed s g n"
    and ph: "owned ph = None" "owned (phase s t) = None" "phase_ok g n ph"
    and rest: "\<And>p. tfind p (sv_tree g) \<noteq> None \<Longrightarrow> n p = 0 \<Longrightarrow> tfind p (sv_tree (shared s)) \<noteq> None \<and> users s p = 0"
  shows "threads_inv L U ((moves s t ph g)\<lparr>users := n, revived := b\<rparr>)"
proof (rule threads_inv_moves [OF I g ph(3)])
  fix p assume "tfind p (sv_tree g) \<noteq> None" "n p = 0"
  then obtain t' v where t': "phase s t' = Removing p v" using rest threads_invD(5) [OF I] by blast
  moreover have "t' \<noteq> t" using ph(2) t' threads_invD(3) [OF I, of t'] by (auto simp: phase_ok_def)
  ultimately show "(\<exists>u. ph = Removing p u) \<or> (\<exists>t' u. t' \<noteq> t \<and> phase s t' = Removing p u)" by blast
qed (use ph phase_ok_undisturbed [OF u threads_invD(3) [OF I]] in auto)


subsection \<open>The parts of the two functions\<close>

lemma lock_lookup_found:
  assumes "\<not> sv_writer g" "tfind path (sv_tree g) = Some a" "locks g a = Some fl"
  shows "lock_lookup path (None, g) = (Next, (Some a, g\<lparr>locks := (locks g)(a \<mapsto> fl\<lparr>fl_cnt := fl_cnt fl + 1\<rparr>)\<rparr>))"
  using assms by (simp add: lock_lookup_def synchronized_rdlock_def set_filelock_def with_filelock_def flow_simps)

lemma lock_lookup_missed:
  assumes "\<not> sv_writer g" "tfind path (sv_tree g) = None"
  shows "lock_lookup path (None, g) = (Next, (None, g))"
  using assms by (simp add: lock_lookup_def synchronized_rdlock_def flow_simps)

lemma unlock_remove_unused:
  assumes "rw g = (0, False)" "tfind path (sv_tree g) = Some a" "locks g a = Some fl" "fl_cnt fl \<le> 0"
  shows "unlock_remove path (u, g) = (Next, (u\<lparr>u_filelock := Some a\<rparr>, g\<lparr>sv_tree := tdelete path (sv_tree g)\<rparr>))"
  using assms by (simp add: unlock_remove_def synchronized_wrlock_def with_filelock_def flow_simps rw_def)

lemma unlock_send_run:
  assumes n: "lib_chunk L \<noteq> 0" and I: "pool_inv L U g" and a: "u_filelock u = Some a" "lock_entry g path a"
  obtains u' r g' where "unlock_send L (u, g) = (Ret r, (u', g'\<lparr>locks := (locks g')(a := None)\<rparr>))" "pool_inv L U g'" "server_is g g'"
proof -
  from a(2) obtain fl tk where fl: "locks g a = Some fl" "fl_path fl = Some path" "fl_token fl = Some tk" by (auto simp: lock_entry_def)
  have "framed (server_is g) L U g" using I by (simp add: framed_def)
  then obtain g' where g': "dav_unlock_raw L (Some path) (Some tk) g = (Ret (if has g' then 1 else 0), g')" "framed (server_is g) L U g'"
    using snapshot.unlock_raw_cases [OF _ n] by metis
  then show thesis using that a fl by (simp add: unlock_send_def with_filelock_def free_filelock_def flow_simps framed_def)
qed

text \<open>Changes of one count, of objects outside of the table, and of the table.\<close>

lemma lock_entry_recount: "locks g a = Some fl \<Longrightarrow> lock_entry (g\<lparr>locks := (locks g)(a \<mapsto> fl\<lparr>fl_cnt := n\<rparr>)\<rparr>) p b = lock_entry g p b"
  by (auto simp: lock_entry_def)

lemma lock_inv_unlinked:
  assumes I: "lock_inv_from k L U g"
  shows "lock_inv_from k L U (g\<lparr>sv_tree := tdelete p (sv_tree g)\<rparr>)"
    "lock_count (g\<lparr>sv_tree := tdelete p (sv_tree g)\<rparr>) = (lock_count g)(p := 0)"
proof -
  have "distinct (map fst (tdelete p (sv_tree g)))" "distinct (map snd (tdelete p (sv_tree g)))"
    using I by (simp_all add: lock_inv_def lock_wf_def tdelete_def distinct_map_filter)
  then show "lock_inv_from k L U (g\<lparr>sv_tree := tdelete p (sv_tree g)\<rparr>)"
    using I by (auto simp: lock_inv_def lock_wf_def lock_entry_def rw_def tdelete_def)
  show "lock_count (g\<lparr>sv_tree := tdelete p (sv_tree g)\<rparr>) = (lock_count g)(p := 0)"
    by (auto simp: fun_eq_iff lock_count_def lock_tree.find_del cong: option.case_cong)
qed


subsection \<open>Every step keeps the invariant\<close>

lemma threads_free:
  assumes "threads_inv L U s"
  shows "\<not> sv_writer (shared s)" "sv_readers (shared s) = 0" "rw (view s t) = (0, False)" "pool_inv L U (shared s)"
    "use_lock (sv_options (shared s))"
  using threads_invD(1) [OF assms] by (auto simp: lock_inv_def rw_def)

lemma threads_entry:
  assumes "threads_inv L U s" "tfind path (sv_tree (shared s)) = Some a"
  obtains fl tk where "locks (shared s) a = Some fl" "lock_entry (shared s) path a" "fl_cnt fl = users s path" "0 \<le> users s path"
    "a \<in> snd ` set (sv_tree (shared s))" "a < next_addr (shared s)"
proof -
  from threads_invD(1) [OF assms(1)] assms(2) obtain fl tk where
    fl: "locks (shared s) a = Some fl" "fl_path fl = Some path" "fl_token fl = Some tk" "0 \<le> fl_cnt fl"
      "lock_count (shared s) path = fl_cnt fl" "a < next_addr (shared s)" by (rule lock_inv_find)
  moreover have "(path, a) \<in> set (sv_tree (shared s))" using assms(2) by (auto simp: tfind_def dest: map_of_SomeD)
  ultimately show thesis using that [of fl] threads_invD(2) [OF assms(1)] by (force simp: lock_entry_def)
qed

lemma threads_absent:
  assumes "threads_inv L U s" "tfind path (sv_tree (shared s)) = None" shows "users s path = 0"
  using threads_invD(2) [OF assms(1)] assms(2) by (metis lock_count_def option.case(1))

text \<open>A new user of an entry that has users.\<close>

lemma gained_inv:
  assumes I: "threads_inv L U s" and a: "tfind path (sv_tree (shared s)) = Some a" "locks (shared s) a = Some fl"
    and used: "\<not> unused (shared s) path" and t: "owned (phase s t) = None" and g: "pool_inv L U g"
    "server_is ((view s t)\<lparr>locks := m\<rparr>) g" "\<And>b. b \<noteq> next_addr (shared s) \<Longrightarrow> m b = ((locks (shared s))(a \<mapsto> fl\<lparr>fl_cnt := fl_cnt fl + 1\<rparr>)) b"
  shows "threads_inv L U (gains s path (moves s t Outside g))"
proof -
  have pos: "0 < users s path" using used a threads_invD(2) [OF I] by (simp add: unused_def)
  from I a(1) obtain fl' where fl': "locks (shared s) a = Some fl'" "fl_cnt fl' = users s path" "a < next_addr (shared s)"
    by (rule threads_entry)
  let ?h = "(view s t)\<lparr>locks := (locks (shared s))(a \<mapsto> fl\<lparr>fl_cnt := fl_cnt fl + 1\<rparr>)\<rparr>"
  let ?n = "(users s)(path := users s path + 1)"
  have "lock_inv_from 0 L U (view s t)" using threads_invD(1) [OF I] by simp
  from lock_inv_recount [OF this, of path a fl "fl_cnt fl + 1"] a fl' pos have
    h: "lock_inv_from 0 L U ?h" "lock_count ?h = ?n" using threads_invD(2) [OF I] by simp_all
  have s: "server_is (?h\<lparr>locks := m\<rparr>) g" using g(2) by simp
  have m: "m b = locks ?h b" if "b \<noteq> next_addr ?h" for b using g(3) that by simp
  from lock_inv_fresh [OF h(1) g(1) s m] h(2) have gi: "lock_inv_from 0 L U g" "lock_count g = ?n" by simp_all
  have e: "lock_entry g p b" if "lock_entry (shared s) p b" for p b
    using that s g(3) [of b] a(2) by (auto simp: lock_entry_def server_is_def split: if_splits)
  have tr: "sv_tree g = sv_tree (shared s)" using s by (simp add: server_is_def)
  have "undisturbed s g ?n" using pos e tr by (auto simp: undisturbed_def)
  from threads_inv_free [OF I gi this, of Outside t "revived s \<or> unused (shared s) path"] pos t tr show ?thesis
    by (auto simp: gains_def phase_ok_def split: if_splits)
qed

lemma found_inv:
  assumes I: "threads_inv L U s" and t: "phase s t = Outside"
    and r: "(lock_lookup path (None, view s t) :: int flow \<times> _) = (Next, (Some a, g))" and used: "\<not> unused (shared s) path"
  shows "threads_inv L U (gains s path (moves s t Outside g))"
proof (cases "tfind path (sv_tree (shared s))")
  case None
  with r lock_lookup_missed [of "view s t" path, where 'c = int] threads_free [OF I] show ?thesis by simp
next
  case (Some b)
  from I Some obtain fl where fl: "locks (shared s) b = Some fl" by (rule threads_entry)
  have g: "g = (view s t)\<lparr>locks := (locks (shared s))(b \<mapsto> fl\<lparr>fl_cnt := fl_cnt fl + 1\<rparr>)\<rparr>"
    using r lock_lookup_found [of "view s t" path b fl, where 'c = int] Some fl threads_free [OF I] by auto
  show ?thesis
    by (rule gained_inv [OF I Some fl used, of _ _ "(locks (shared s))(b \<mapsto> fl\<lparr>fl_cnt := fl_cnt fl + 1\<rparr>)"])
      (use t g threads_free [OF I] in simp_all)
qed


lemma missed_inv:
  assumes I: "threads_inv L U s" and t: "phase s t = Outside"
    and r: "(lock_lookup path (None, view s t) :: int flow \<times> _) = (Next, (None, g))"
  shows "threads_inv L U (moves s t (Creating path) g)"
proof -
  have g: "g = view s t"
  proof (cases "tfind path (sv_tree (shared s))")
    case None
    with r lock_lookup_missed [of "view s t" path, where 'c = int] threads_free [OF I] show ?thesis by simp
  next
    case (Some b)
    from I Some obtain fl where "locks (shared s) b = Some fl" by (rule threads_entry)
    with r lock_lookup_found [of "view s t" path b fl, where 'c = int] Some threads_free [OF I] show ?thesis by simp
  qed
  have "undisturbed s g (users s)" by (simp add: undisturbed_def g)
  from threads_inv_free [OF I _ _ this, of "Creating path" t "revived s"] t threads_invD(1,2) [OF I] show ?thesis
    by (simp add: g phase_ok_def moves_def)
qed

text \<open>Work on an object that is not in the table.\<close>

lemma private_inv:
  assumes I: "threads_inv L U s" and t: "owned (phase s t) = None" and g: "pool_inv L U g"
    "server_is ((view s t)\<lparr>locks := m\<rparr>) g" "\<And>b. b \<noteq> next_addr (shared s) \<Longrightarrow> m b = locks (shared s) b"
  shows "threads_inv L U (moves s t Outside g)"
proof -
  have "lock_inv_from 0 L U (view s t)" using threads_invD(1) [OF I] by simp
  from lock_inv_fresh [OF this g(1,2)] g(3) have gi: "lock_inv_from 0 L U g" "lock_count g = users s"
    using threads_invD(2) [OF I] by simp_all
  have e: "lock_entry g p b" if "lock_entry (shared s) p b" for p b
    using that g(2) g(3) [of b] by (auto simp: lock_entry_def server_is_def)
  have tr: "sv_tree g = sv_tree (shared s)" using g(2) by (simp add: server_is_def)
  have "undisturbed s g (users s)" using e tr by (simp add: undisturbed_def)
  from threads_inv_free [OF I gi this, of Outside t "revived s"] t tr show ?thesis
    by (simp add: phase_ok_def moves_def)
qed

text \<open>A new entry.\<close>

lemma entered_inv:
  assumes I: "threads_inv L U s" and t: "owned (phase s t) = None" and n: "tfind path (sv_tree (shared s)) = None" and g: "pool_inv L U g"
    "server_is ((view s t)\<lparr>next_addr := Suc (next_addr (view s t)), sv_tree := tsearch path (next_addr (view s t)) (sv_tree (view s t)),
         locks := (locks (view s t))(next_addr (view s t) \<mapsto> \<lparr>fl_path = Some path, fl_token = Some tk, fl_cnt = 1\<rparr>)\<rparr>) g"
  shows "threads_inv L U (gains s path (moves s t Outside g))"
proof -
  let ?n = "(users s)(path := users s path + 1)"
  have "lock_inv_from 0 L U (view s t)" using threads_invD(1) [OF I] by simp
  from lock_inv_insert [OF this _ g] n have gi: "lock_inv_from 0 L U g" "lock_count g = ?n"
    using threads_invD(2) [OF I] by simp_all
  have tr: "sv_tree g = (path, next_addr (shared s)) # sv_tree (shared s)" using g(2) n by (simp add: server_is_def tsearch_new)
  have e: "lock_entry g p b" "b \<noteq> next_addr (shared s)" if "lock_entry (shared s) p b" for p b
    using that g(2) by (auto simp: lock_entry_def server_is_def)
  have "undisturbed s g ?n" using e tr n by (fastforce simp: undisturbed_def tfind_def)
  from threads_inv_free [OF I gi this, of Outside t "revived s \<or> unused (shared s) path"] t tr threads_absent [OF I n] show ?thesis
    by (auto simp: gains_def phase_ok_def tfind_def split: if_splits)
qed

lemma create_inv:
  assumes I: "threads_inv L U s" and L: "lib_sane L" and t: "phase s t = Creating path"
    and r: "(lock_create L path (None, view s t) :: int flow \<times> _) = (Next, (l, g))"
  shows "has g \<Longrightarrow> threads_inv L U (moves s t Outside g)"
    "\<not> has g \<Longrightarrow> \<not> unused (shared s) path \<Longrightarrow> threads_inv L U (gains s path (moves s t Outside g))"
proof -
  have pre: "pool_inv L U (view s t)" "sv_readers (view s t) = 0" "\<not> sv_writer (view s t)" "owned (phase s t) = None"
    using threads_free [OF I] t by simp_all
  have "(has g \<longrightarrow> threads_inv L U (moves s t Outside g)) \<and>
    (\<not> has g \<longrightarrow> \<not> unused (shared s) path \<longrightarrow> threads_inv L U (gains s path (moves s t Outside g)))"
  proof (cases "tfind path (sv_tree (shared s))")
    case None
    then have n: "tfind path (sv_tree (view s t)) = None" by simp
    from refl pre(1) L pre(2,3) n show ?thesis
    proof (cases rule: lock_create_cases)
      case (created tk g')
      with r entered_inv [OF I pre(4) None created(3,4)] show ?thesis by simp
    next
      case (failed l' m g')
      with r private_inv [OF I pre(4) failed(3,4)] show ?thesis by simp
    qed (use r in simp)
  next
    case (Some b)
    from I Some obtain fl where fl: "locks (shared s) b = Some fl" "b < next_addr (shared s)" by (rule threads_entry)
    then have n: "tfind path (sv_tree (view s t)) = Some b" "locks (view s t) b = Some fl" "b < next_addr (view s t)" using Some by simp_all
    from refl pre(1-3) n show ?thesis
    proof (cases rule: lock_create_found)
      case (counted g')
      with r gained_inv [OF I Some fl(1) _ pre(4) counted(3,4)] show ?thesis by simp
    next
      case (failed l' m g')
      with r private_inv [OF I pre(4) failed(3,4)] show ?thesis by simp
    qed
  qed
  then show "has g \<Longrightarrow> threads_inv L U (moves s t Outside g)"
    "\<not> has g \<Longrightarrow> \<not> unused (shared s) path \<Longrightarrow> threads_inv L U (gains s path (moves s t Outside g))" by simp_all
qed


text \<open>Nobody is about to free an entry with users.\<close>

lemma used_unowned:
  assumes I: "threads_inv L U s" and a: "tfind path (sv_tree (shared s)) = Some a" and n: "0 < users s path"
  shows "owned (phase s t) \<noteq> Some a"
proof
  assume o: "owned (phase s t) = Some a"
  from I a have "a \<in> snd ` set (sv_tree (shared s))" by (rule threads_entry)
  with threads_invD(3) [OF I, of t] o n show False
    by (cases "phase s t") (auto simp: phase_ok_def dest: lock_inv_other [OF threads_invD(1) [OF I] a])
qed

lemma counted_inv:
  assumes I: "threads_inv L U s" and t: "phase s t = Outside" and n: "0 < users s path"
    and r: "(unlock_count path (uframe0, view s t) :: int flow \<times> _) = (Next, (u, g))"
  shows "threads_inv L U ((moves s t (if u_filelock u = None then Outside else Removing path u) g)
      \<lparr>users := (users s)(path := users s path - 1)\<rparr>)"
proof -
  let ?n = "(users s)(path := users s path - 1)"
  from threads_absent [OF I] n obtain a where a: "tfind path (sv_tree (shared s)) = Some a" by fastforce
  from I a obtain fl where fl: "locks (shared s) a = Some fl" "fl_cnt fl = users s path" "a \<in> snd ` set (sv_tree (shared s))"
    by (rule threads_entry)
  have g: "g = (view s t)\<lparr>locks := (locks (view s t))(a \<mapsto> fl\<lparr>fl_cnt := fl_cnt fl - 1\<rparr>)\<rparr>"
    and u: "u = uframe0\<lparr>u_filelock := (if fl_cnt fl - 1 > 0 then None else Some a)\<rparr>"
    using r unlock_count_found [of "view s t" path a fl uframe0, where 'c = int] a fl(1) threads_free [OF I] by auto
  have "lock_inv_from 0 L U (view s t)" using threads_invD(1) [OF I] by simp
  from lock_inv_recount [OF this, of path a fl "fl_cnt fl - 1"] a fl n have gi: "lock_inv_from 0 L U g" "lock_count g = ?n"
    using threads_invD(2) [OF I] by (simp_all add: g)
  have e: "lock_entry g p b = lock_entry (shared s) p b" for p b
    using lock_entry_recount [of "view s t" a fl] fl(1) by (simp add: g)
  have tr: "sv_tree g = sv_tree (shared s)" by (simp add: g)
  have d: "undisturbed s g ?n" using n e tr by (auto simp: undisturbed_def)
  have "threads_inv L U ((moves s t (if u_filelock u = None then Outside else Removing path u) g)\<lparr>users := ?n, revived := revived s\<rparr>)"
  proof (rule threads_inv_moves [OF I gi])
    show "phase_ok g ?n (if u_filelock u = None then Outside else Removing path u)"
      using a fl(2) n tr by (simp add: phase_ok_def u)
    show "t' = t" if "owned (if u_filelock u = None then Outside else Removing path u) = Some b" "owned (phase s t') = Some b" for t' b
      using that used_unowned [OF I a n] by (auto simp: u split: if_splits)
    fix p assume p: "tfind p (sv_tree g) \<noteq> None" "?n p = 0"
    show "(\<exists>v. (if u_filelock u = None then Outside else Removing path u) = Removing p v) \<or> (\<exists>t' v. t' \<noteq> t \<and> phase s t' = Removing p v)"
    proof (cases "p = path")
      case True
      then show ?thesis using p(2) fl(2) by (simp add: u)
    next
      case False
      with threads_invD(5) [OF I, of p] p tr obtain t' v where "phase s t' = Removing p v" by auto
      with t show ?thesis by force
    qed
  qed (rule phase_ok_undisturbed [OF d threads_invD(3) [OF I]])
  then show ?thesis by (simp add: moves_def)
qed

lemma phase_ok_unlinked:
  assumes "phase_ok h n ph" "tfind path (sv_tree h) = Some a" "owned ph \<noteq> Some a"
    and "sv_tree g = tdelete path (sv_tree h)" "\<And>p b. lock_entry g p b = lock_entry h p b"
  shows "phase_ok g n ph"
proof (cases ph)
  case (Removing p u)
  then show ?thesis using assms by (auto simp: phase_ok_def lock_tree.find_del)
next
  case (Sending u)
  then obtain b p where b: "u_filelock u = Some b" "lock_entry h p b" "b \<notin> snd ` set (sv_tree h)"
    using assms(1) by (auto simp: phase_ok_def)
  moreover have "snd ` set (sv_tree g) \<subseteq> snd ` set (sv_tree h)" unfolding assms(4) tdelete_def by auto
  ultimately show ?thesis using Sending assms(5) by (simp add: phase_ok_def) blast
qed (simp_all add: phase_ok_def)

lemma removed_inv:
  assumes I: "threads_inv L U s" and t: "phase s t = Removing path u"
    and r: "(unlock_remove path (u, view s t) :: int flow \<times> _) = (Next, (u', g))"
  shows "threads_inv L U (moves s t (if u_filelock u' = None then Outside else Sending u') g)"
proof -
  from threads_invD(3) [OF I, of t] t obtain a where a: "u_filelock u = Some a" "tfind path (sv_tree (shared s)) = Some a" "users s path = 0"
    by (auto simp: phase_ok_def)
  from I a(2) obtain fl where fl: "locks (shared s) a = Some fl" "lock_entry (shared s) path a" "fl_cnt fl = users s path"
    by (rule threads_entry)
  have g: "g = (view s t)\<lparr>sv_tree := tdelete path (sv_tree (view s t))\<rparr>" and u': "u_filelock u' = Some a"
    using r unlock_remove_unused [of "view s t" path a fl u, where 'c = int] a fl threads_free [OF I] by auto
  have "lock_inv_from 0 L U (view s t)" using threads_invD(1) [OF I] by simp
  from lock_inv_unlinked [OF this, of path] have gi: "lock_inv_from 0 L U g" "lock_count g = users s"
    using threads_invD(2) [OF I] a(3) by (simp_all add: g fun_eq_iff)
  have e: "lock_entry g p b = lock_entry (shared s) p b" for p b by (simp add: g lock_entry_def)
  have fr: "a \<notin> snd ` set (sv_tree g)"
  proof
    assume "a \<in> snd ` set (sv_tree g)"
    then obtain q where q: "(q, a) \<in> set (sv_tree (shared s))" "q \<noteq> path" by (auto simp: g tdelete_def)
    then have "tfind q (sv_tree (shared s)) = Some a"
      using threads_invD(1) [OF I] by (simp add: tfind_def lock_inv_def lock_wf_def)
    with lock_inv_other [OF threads_invD(1) [OF I] a(2)] q(2) show False by blast
  qed
  have "threads_inv L U ((moves s t (Sending u') g)\<lparr>users := users s, revived := revived s\<rparr>)"
  proof (rule threads_inv_moves [OF I gi])
    show "phase_ok g (users s) (Sending u')" using u' e fl(2) fr by (auto simp: phase_ok_def)
    show "t' = t" if "owned (Sending u') = Some b" "owned (phase s t') = Some b" for t' b
      using that threads_invD(4) [OF I, of t' a t] u' a(1) t by simp
    show "phase_ok g (users s) (phase s t')" if "t' \<noteq> t" for t'
      using threads_invD(4) [OF I, of t' a t] that a t
      by (intro phase_ok_unlinked [OF threads_invD(3) [OF I], of path a]) (auto simp: g lock_entry_def)
    fix p assume p: "tfind p (sv_tree g) \<noteq> None" "users s p = 0"
    then have "p \<noteq> path" "tfind p (sv_tree (shared s)) \<noteq> None" by (auto simp: g lock_tree.find_del split: if_splits)
    with threads_invD(5) [OF I, of p] p t show "(\<exists>v. Sending u' = Removing p v) \<or> (\<exists>t' v. t' \<noteq> t \<and> phase s t' = Removing p v)" by force
  qed
  then show ?thesis using u' by (simp add: moves_def)
qed

lemma sent_inv:
  assumes I: "threads_inv L U s" and n: "lib_chunk L \<noteq> 0" and t: "phase s t = Sending u" and r: "unlock_send L (u, view s t) = (Ret x, (u', g))"
  shows "threads_inv L U (moves s t Outside g)"
proof -
  from threads_invD(3) [OF I, of t] t obtain a path where
    a: "u_filelock u = Some a" "lock_entry (shared s) path a" "a \<notin> snd ` set (sv_tree (shared s))" by (auto simp: phase_ok_def)
  have "pool_inv L U (view s t)" "lock_entry (view s t) path a" using threads_free [OF I] a(2) by simp_all
  from unlock_send_run [OF n this(1) a(1) this(2)] r obtain g1 where
    g: "g = g1\<lparr>locks := (locks g1)(a := None)\<rparr>" "pool_inv L U g1" "server_is (view s t) g1" by (metis Pair_inject)
  have gp: "pool_inv L U g" "server_is ((view s t)\<lparr>locks := (locks (view s t))(a := None)\<rparr>) g"
    using g by (simp_all add: server_is_def)
  have "lock_inv_from 0 L U (view s t)" using threads_invD(1) [OF I] by simp
  from lock_inv_same [OF this gp] a(3) have gi: "lock_inv_from 0 L U g" "lock_count g = users s"
    using threads_invD(2) [OF I] by (force simp: image_iff)+
  have tr: "sv_tree g = sv_tree (shared s)" using gp(2) by (simp add: server_is_def)
  have e: "lock_entry g p b" if "lock_entry (shared s) p b" "b \<noteq> a" for p b
    using that gp(2) by (auto simp: lock_entry_def server_is_def)
  have "threads_inv L U ((moves s t Outside g)\<lparr>users := users s, revived := revived s\<rparr>)"
  proof (rule threads_inv_moves [OF I gi])
    show "phase_ok g (users s) (phase s t')" if "t' \<noteq> t" for t'
      using threads_invD(3) [OF I, of t'] threads_invD(4) [OF I, of t' a t] that a t e tr
      by (cases "phase s t'") (auto simp: phase_ok_def, metis)
    show "(\<exists>v. Outside = Removing p v) \<or> (\<exists>t' v. t' \<noteq> t \<and> phase s t' = Removing p v)"
      if "tfind p (sv_tree g) \<noteq> None" "users s p = 0" for p
      using threads_invD(5) [OF I, of p] that tr t by force
  qed (simp_all add: phase_ok_def)
  then show ?thesis by (simp add: moves_def)
qed

lemma lock_step_inv:
  assumes "lock_step L s s'" "lib_sane L" "revived s \<or> threads_inv L U s"
  shows "revived s' \<or> threads_inv L U s'"
  using assms
proof (induction rule: lock_step.cases)
  case (sent s t u r u' g)
  then show ?case using sent_inv [of L U s t u r u' g] by (auto simp: lib_sane_def)
qed (auto intro: found_inv missed_inv create_inv counted_inv removed_inv split del: if_split)


lemma lock_start_inv:
  assumes I: "lock_inv L U g" shows "threads_inv L U (lock_start g)"
proof -
  have "lock_inv_from 0 L U g" using I by (fastforce simp: lock_inv_def)
  moreover have "lock_count g p \<noteq> 0" if "tfind p (sv_tree g) = Some a" for p a
    using I that by (rule lock_inv_find) simp
  ultimately show ?thesis by (auto simp: threads_inv_def lock_start_def phase_ok_def)
qed

lemma lock_run_inv:
  assumes "(lock_step L)\<^sup>*\<^sup>* (lock_start g) s" "lib_sane L" "lock_inv L U g"
  shows "revived s \<or> threads_inv L U s"
  using assms
proof (induction rule: rtranclp_induct)
  case base
  then show ?case using lock_start_inv by blast
next
  case (step s s')
  then show ?case using lock_step_inv by blast
qed


subsection \<open>Every thread inside can go on\<close>

lemma removing_goes_on:
  assumes I: "threads_inv L U s" and t: "phase s t = Removing path u"
  shows "\<exists>s' u'. lock_step L s s' \<and> phase s' t = Sending u' \<and> revived s' = revived s \<and> users s' = users s"
proof -
  from threads_invD(3) [OF I, of t] t obtain a where a: "tfind path (sv_tree (shared s)) = Some a" "users s path = 0"
    by (auto simp: phase_ok_def)
  from I a(1) obtain fl where fl: "locks (shared s) a = Some fl" "fl_cnt fl = users s path" by (rule threads_entry)
  have "(unlock_remove path (u, view s t) :: int flow \<times> _) =
      (Next, (u\<lparr>u_filelock := Some a\<rparr>, (view s t)\<lparr>sv_tree := tdelete path (sv_tree (view s t))\<rparr>))"
    using a fl threads_free [OF I] by (intro unlock_remove_unused [where fl = fl]) simp_all
  from lock_step.removed [OF t this, of L] show ?thesis by (auto intro!: exI)
qed

lemma sending_goes_on:
  assumes I: "threads_inv L U s" and n: "lib_chunk L \<noteq> 0" and t: "phase s t = Sending u"
  shows "\<exists>s'. lock_step L s s' \<and> phase s' t = Outside"
proof -
  from threads_invD(3) [OF I, of t] t obtain a path where a: "u_filelock u = Some a" "lock_entry (view s t) path a"
    by (auto simp: phase_ok_def)
  have "pool_inv L U (view s t)" using threads_free [OF I] by simp
  from unlock_send_run [OF n this a] obtain u' r g' where "unlock_send L (u, view s t) = (Ret r, (u', g'\<lparr>locks := (locks g')(a := None)\<rparr>))" .
  from lock_step.sent [OF t this] show ?thesis by (auto intro!: exI)
qed

lemma creating_goes_on:
  assumes I: "threads_inv L U s" and L: "lib_sane L" and t: "phase s t = Creating path"
  shows "(\<exists>s'. lock_step L s s' \<and> phase s' t = Outside) \<or> fst (lock_create L path (None, view s t) :: int flow \<times> _) = Stop Segv"
proof -
  have go: "\<exists>s'. lock_step L s s' \<and> phase s' t = Outside"
    if "(lock_create L path (None, view s t) :: int flow \<times> _) = (Next, (l, g))" for l g
    using lock_step.created [OF t that] lock_step.refused [OF t that] by (cases "has g") (force intro!: exI)+
  have pre: "pool_inv L U (view s t)" "sv_readers (view s t) = 0" "\<not> sv_writer (view s t)"
    using threads_free [OF I] by simp_all
  show ?thesis
  proof (cases "tfind path (sv_tree (shared s))")
    case None
    then have "tfind path (sv_tree (view s t)) = None" by simp
    from refl pre(1) L pre(2,3) this show ?thesis by (cases rule: lock_create_cases) (use go in auto)
  next
    case (Some b)
    from I Some obtain fl where "locks (shared s) b = Some fl" "b < next_addr (shared s)" by (rule threads_entry)
    then have "tfind path (sv_tree (view s t)) = Some b" "locks (view s t) b = Some fl" "b < next_addr (view s t)" using Some by simp_all
    from refl pre this show ?thesis by (cases rule: lock_create_found) (use go in auto)
  qed
qed

subsection \<open>Properties\<close>


text \<open>A thread closes a file, and is the last user.\<close>

lemma demo_threads:
  "\<exists>s u. (lock_step lock_lib)\<^sup>*\<^sup>* (lock_start held0) s \<and> \<not> revived s \<and> users s ''/a'' = 0 \<and> phase s 1 = Sending u"
proof -
  let ?s0 = "lock_start held0"
  let ?fl = "\<lparr>fl_path = Some ''/a'', fl_token = Some ''t'', fl_cnt = 1\<rparr>"
  let ?u = "uframe0\<lparr>u_filelock := Some 0\<rparr>"
  let ?g = "(view ?s0 1)\<lparr>locks := (locks (view ?s0 1))(0 \<mapsto> ?fl\<lparr>fl_cnt := 0\<rparr>)\<rparr>"
  let ?s1 = "(moves ?s0 1 (Removing ''/a'' ?u) ?g)\<lparr>users := (users ?s0)(''/a'' := users ?s0 ''/a'' - 1)\<rparr>"
  have p: "phase ?s0 t = Outside" "shared ?s0 = held0" "users ?s0 = lock_count held0" "\<not> revived ?s0" for t
    by (simp_all add: lock_start_def)
  have "(unlock_count ''/a'' (uframe0, view ?s0 1) :: int flow \<times> _) = (Next, (?u, ?g))"
    using unlock_count_found [of "view ?s0 1" "''/a''" 0 ?fl uframe0, where 'c = int] by (simp add: p held0_simps)
  from lock_step.counted [OF p(1) _ this, of lock_lib] have 1: "lock_step lock_lib ?s0 ?s1" by (simp add: p held0_simps)
  have r: "\<not> revived ?s1" "users ?s1 ''/a'' = 0" "phase ?s1 1 = Removing ''/a'' ?u" by (simp_all add: p held0_simps)
  from lock_step_inv [OF 1 lib_sane_demo(2)] lock_start_inv [OF lock_inv_demo(2)] r(1) have "threads_inv lock_lib {} ?s1" by blast
  from removing_goes_on [OF this r(3)] obtain s u where
    "lock_step lock_lib ?s1 s" "phase s 1 = Sending u" "revived s = revived ?s1" "users s = users ?s1" by blast
  with 1 r show ?thesis by (intro exI [of _ s] exI [of _ u]) simp
qed




end
