(* ===== verification/Dav_Method_Laws.thy ===== *)
theory Dav_Method_Laws
  imports Dav_Demo
begin

text \<open>
  Properties of the methods without a body: how they end, what they leave of the read-write lock and
  of the exception, and what that means for the calls that follow.
\<close>

text \<open>PUT and DELETE without a body (\<open>__dav_method\<close> with the lock) from a state in which the lock can
  be taken. The call returns whatever the server answers. After success the lock is as before and no
  exception is set. After failure there is an exception; if it came from taking a handle, the lock
  is as before, otherwise it stays taken: the \<open>throwable\<close> leaves the block before the unlock.\<close>

theorem dav_method_outcome:
  assumes "pool_inv L U g" "lock_wf g" "lib_chunk L \<noteq> 0"
    and "use_lock (sv_options g)" "lt \<noteq> RW_LOCK_NONE" "rw_free lt g"
  shows "\<exists>r g'. dav_method L path mth lt g = (Ret r, g') \<and> pool_inv L U g' \<and> lock_wf g' \<and>
    (r = 0 \<and> \<not> Exception_has (ex g') \<and> rw g' = rw g \<or>
     r = 1 \<and> Exception_has (ex g') \<and>
     rw g' = (if fst (curl_easy_init_common L (sv_baseuh g) (Some path) (Some (sv_options g)) g) = Ret None
              then rw g else rw_taken lt (rw g)))"
  using assms by (cases rule: dav_method_cases [where path = path and mth = mth]) blast+

theorem dav_method_outcome_witness:
  "\<exists>g'. dav_method (demo_lib (reply_error 500)) ''/a'' ''DELETE'' RW_LOCK_WRITE idle0 = (Ret 1, g') \<and>
     Exception_has (ex g') \<and> rw g' = (0, True)"
proof -
  let ?L = "demo_lib (reply_error 500)"
  have "fst (dav_method ?L ''/a'' ''DELETE'' RW_LOCK_WRITE idle0) = Ret 1"
    unfolding idle0_def by (simp add: demo_steps)
  moreover have "fst (curl_easy_init_common ?L (sv_baseuh idle0) (Some ''/a'') (Some (sv_options idle0)) idle0) \<noteq> Ret None"
    by (simp add: idle0_def demo_init_client)
  ultimately show ?thesis
    using dav_method_outcome [of ?L "{}" idle0 RW_LOCK_WRITE "''/a''" "''DELETE''"] lock_wf_client0(1)
    by (auto simp: idle0_def pool_inv_client0 rw_free_def)
qed

text \<open>C29: one failed PUT makes every later DELETE hang. When creating a file fails at the server, the read
  lock is never given back; once the exception has been reported, the next DELETE that gets a handle
  waits for the write lock for ever.\<close>

theorem failed_put_blocks_delete:
  assumes "pool_inv L U g" "lock_wf g" "lib_chunk L \<noteq> 0" "use_lock (sv_options g)" "rw_free RW_LOCK_READ g"
    and put: "dav_put_simple L path g = (Ret 1, g1)"
    and h1: "fst (curl_easy_init_common L (sv_baseuh g) (Some path) (Some (sv_options g)) g) \<noteq> Ret None"
    and h2: "curl_easy_init_common L (sv_baseuh g1) (Some q) (Some (sv_options g1)) (g1\<lparr>ex := Exception_destory (ex g1)\<rparr>) = (Ret (Some h), g2)"
  shows "fst (dav_delete L q (g1\<lparr>ex := Exception_destory (ex g1)\<rparr>)) = Stop Blocked"
proof -
  let ?g = "g1\<lparr>ex := Exception_destory (ex g1)\<rparr>"
  have lt: "RW_LOCK_READ \<noteq> RW_LOCK_NONE" by simp
  from assms(1-4) lt assms(5)
  have "pool_inv L U g1 \<and> lock_wf g1 \<and> sv_options g1 = sv_options g \<and> rw g1 = rw_taken RW_LOCK_READ (rw g)"
    by (cases rule: dav_method_cases [where path = path and mth = "''PUT''"])
      (use put h1 in \<open>auto simp: dav_put_simple_def\<close>)
  then have g1: "pool_inv L U g1" "lock_wf g1" "sv_options g1 = sv_options g" "rw g1 = rw_taken RW_LOCK_READ (rw g)" by auto
  let ?I = "framed (dav_inv (sv_options g) (fst (rw g1)) (snd (rw g1))) L"
  have "?I U ?g" using g1 by (simp add: framed_dav_inv) (simp add: rw_def lock_wf_def)
  then have "?I (insert h U) g2 \<and> \<not> has g2"
    by (cases rule: server.init_common_cases [where url = "sv_baseuh g1" and path = "Some q" and options = "Some (sv_options g1)"])
      (use h2 in auto)
  then have g2: "?I (insert h U) g2" "\<not> has g2" by auto
  have "\<not> rw_free RW_LOCK_WRITE g2"
    using g2(1) g1(4) by (cases "rw g") (auto simp: framed_dav_inv rw_free_def rw_def)
  then have take: "(take_rwlock RW_LOCK_WRITE :: ('a, 'b, int) davs) (dframe0 L, g2) = (Stop Blocked, (dframe0 L, g2))"
    by (intro take_rwlock_busy) simp_all
  have lk: "locking (dframe0 L, g2)" using g2(1) assms(4) by (simp add: framed_dav_inv locking_def)
  let ?body = "\<lambda>curl. block [
       whenc (\<lambda>s. locking s \<and> RW_LOCK_WRITE \<noteq> RW_LOCK_NONE) (take_rwlock RW_LOCK_WRITE),
       method_request L q ''DELETE'' RW_LOCK_WRITE curl,
       whenc (\<lambda>s. locking s \<and> RW_LOCK_WRITE \<noteq> RW_LOCK_NONE) rw_unlock] :: ('a, 'b, int) davs"
  have b: "?body h (dframe0 L, g2) = (Stop Blocked, (dframe0 L, g2))"
    using take lk by (simp add: whenc_simp)
  have h2': "curl_easy_init_common L (sv_baseuh ?g) (Some q) (Some (sv_options ?g)) ?g = (Ret (Some h), g2)"
    using h2 by simp
  show ?thesis
    using with_server_stop [where body = ?body, OF h2' g2(2) b]
    by (simp add: dav_delete_def dav_method_body flow_simps)
qed

theorem failed_put_blocks_delete_witness:
  "\<exists>g1. dav_put_simple (demo_lib (reply_error 500)) ''/a'' idle0 = (Ret 1, g1) \<and>
     fst (dav_delete (demo_lib (reply_error 500)) ''/b'' (g1\<lparr>ex := Exception_destory (ex g1)\<rparr>)) = Stop Blocked"
proof -
  let ?L = "demo_lib (reply_error 500)"
  obtain r g1 where g1: "dav_put_simple ?L ''/a'' idle0 = (r, g1)" by fastforce
  have "r = Ret 1"
    using g1 unfolding idle0_def by (simp add: dav_put_simple_def demo_steps)
  moreover from this have i: "pool_inv ?L {} g1"
    using dav_method_outcome [of ?L "{}" idle0 RW_LOCK_READ "''/a''" "''PUT''"] lock_wf_client0(1) g1
    by (auto simp: idle0_def pool_inv_client0 rw_free_def dav_put_simple_def)
  moreover have "\<exists>h g2. curl_easy_init_common ?L (sv_baseuh g1) (Some ''/b'') (Some (sv_options g1)) (g1\<lparr>ex := Exception_destory (ex g1)\<rparr>) = (Ret (Some h), g2)"
    using i by (intro demo_init_any [where U = "{}"]) simp_all
  ultimately show ?thesis
    using failed_put_blocks_delete [of ?L "{}" idle0 "''/a''" g1 "''/b''"] lock_wf_client0(1) g1
    by (auto simp: idle0_def pool_inv_client0 rw_free_def demo_init_client)
qed

text \<open>With an exception set no handle can be had.\<close>

lemma dav_method_stale:
  assumes "pool_inv L U g" "has g"
  shows "\<exists>g'. dav_method L path mth lt g = (Ret 1, g') \<and> has g' \<and> pool_inv L U g' \<and> world.more g' = world.more g"
proof -
  have "framed (\<lambda>k. world.more k = world.more g) L U g" using assms by (simp add: framed_def)
  then show ?thesis
  proof (cases rule: client.init_common_cases [where url = "sv_baseuh g" and path = "Some path" and options = "Some (sv_options g)"])
    case (2 g1)
    have "dav_method L path mth lt g = (Ret 1, g1)"
      using 2(3)
      by (simp add: dav_method_body flow_simps with_server_none [OF 2(1,3)] ret_status_def TEST_SUCCESS_def)
    then show ?thesis using 2 by (auto simp: framed_def)
  qed (use assms in simp)
qed

text \<open>An exception that was not taken care of stops everything that follows: with one set, every method
  without a body fails at once, with an exception, whatever the server would answer, and leaves the
  lock table, its lock and the options alone.\<close>

theorem stale_exception_fails:
  assumes "pool_inv L U g" "Exception_has (ex g)"
  shows "\<exists>g'. dav_method L path mth lt g = (Ret 1, g') \<and> Exception_has (ex g') \<and> pool_inv L U g' \<and>
    world.more g' = world.more g"
  using assms by (rule dav_method_stale)

theorem stale_exception_fails_witness:
  "\<exists>g'. dav_method (demo_lib reply_ok) ''/a'' ''MKCOL'' RW_LOCK_NONE (idle0\<lparr>ex := ex_initial\<lparr>ex_set := 1\<rparr>\<rparr>) = (Ret 1, g')"
  using stale_exception_fails [of "demo_lib reply_ok" "{}" "idle0\<lparr>ex := ex_initial\<lparr>ex_set := 1\<rparr>\<rparr>" "''/a''" "''MKCOL''" RW_LOCK_NONE]
  by (auto simp: idle0_def pool_inv_client0)

end
