(* ===== verification/Dav_Io_Laws.thy ===== *)
theory Dav_Io_Laws
  imports Dav_Method_Laws
begin

text \<open>
  The way of the data: what a read returns is what the server sent, and what a write sends is what it
  was given. These theorems put the buffers, the wrapper of libcurl and the methods together.
\<close>

subsection \<open>What is relied on of libcurl\<close>

text \<open>Setting an option succeeds; a transfer whose callback refuses data ends with an error, and no
  transfer has $2^{64}$ bytes or more.\<close>

definition setopt_ok :: "'w libs \<Rightarrow> bool" where
  "setopt_ok L \<longleftrightarrow> (\<forall>opt v w. fst (lib_setopt L opt v w) = CURLE_OK)"

definition honest :: "'w libs \<Rightarrow> bool" where
  "honest L \<longleftrightarrow> (\<forall>rq w. t_abort (fst (lib_perform L rq w)) \<noteq> CURLE_OK \<and>
     length (concat (t_chunks (fst (lib_perform L rq w)))) < 2 ^ 64)"

lemma setopt_eq:
  assumes "setopt_ok L" "easy g h = Some m"
  shows "curl_easy_setopt L h opt v g =
    (Ret 0, g\<lparr>lib := snd (lib_setopt L opt v (lib g)), easy := (easy g)(h \<mapsto> m(opt \<mapsto> v))\<rparr>)"
  using assms by (auto simp: curl_easy_setopt_def setopt_ok_def split: prod.split) (metis fst_conv)

lemma feed_no_callback: "feed no_callback cs l g = (Ret (True, l), g)"
  by (induction cs) (simp_all add: no_callback_def ret_def)

lemma callback_for_none: "callback_for m opt no_callback = no_callback"
  by (simp add: callback_for_def)

subsection \<open>A request on a handle\<close>

text \<open>What setting options makes of the libraries' state.\<close>

definition setopts :: "'w libs \<Rightarrow> (CURLoption \<times> optval) list \<Rightarrow> 'w \<Rightarrow> 'w" where
  "setopts L os w = fold (\<lambda>(opt, v) w. snd (lib_setopt L opt v w)) os w"

lemma setopts_simps [simp]:
  "setopts L [] w = w" "setopts L ((opt, v) # os) w = setopts L os (snd (lib_setopt L opt v w))"
  by (simp_all add: setopts_def)

text \<open>Giving a handle back asks for memory for a node of the pool.\<close>

lemma cleanup_lib: "curl_easy_cleanup_common L (Some h) g = (Ret (), g') \<Longrightarrow> lib g' = snd (lib_malloc L (lib g))"
  by (auto simp: curl_easy_cleanup_common_def flow_simps lib_call_def on_pool_def curl_easy_cleanup_def
      split: prod.splits if_splits elim!: after_call.elims)

lemma pool_inv_setopts:
  assumes "pool_inv L U g" "easy g h = Some m" "sendable L m'"
  shows "pool_inv L U (g\<lparr>easy := (easy g)(h \<mapsto> m')\<rparr>)"
proof (rule pool_inv_easy [OF assms(1)])
  show "dom ((easy g)(h \<mapsto> m')) = dom (easy g)" using assms(2) by auto
  show "sendable L opts" if "((easy g)(h \<mapsto> m')) k = Some opts" for k opts
    using that assms(1,3) by (auto simp: pool_inv_def split: if_splits)
qed

lemma handle_taken:
  fixes g :: "('w, 'a) davw_scheme"
  assumes "pool_inv L U g" "curl_easy_init_common L (sv_baseuh g) path (Some (sv_options g)) g = (Ret (Some h), g1)"
  shows "h \<notin> U" "pool_inv L (insert h U) g1" "world.more g1 = world.more g" "\<not> has g1" "\<not> has g"
proof -
  have "framed (\<lambda>k. world.more k = world.more g) L U g" using assms(1) by (simp add: framed_def)
  then have "h \<notin> U \<and> framed (\<lambda>k. world.more k = world.more g) L (insert h U) g1 \<and> \<not> has g1 \<and> \<not> has g"
    by (cases rule: client.init_common_cases [where url = "sv_baseuh g" and path = path and options = "Some (sv_options g)"])
      (use assms(2) in auto)
  then show "h \<notin> U" "pool_inv L (insert h U) g1" "world.more g1 = world.more g" "\<not> has g1" "\<not> has g"
    by (auto simp: framed_def)
qed

lemma handle_back:
  fixes g :: "('w, 'a) davw_scheme"
  assumes h: "pool_inv L U g" "curl_easy_init_common L (sv_baseuh g) path (Some (sv_options g)) g = (Ret (Some h), g1)"
    and b: "body h (l, g1) = (f, (l2, g2))" "f = Next \<or> f = Brk \<or> f = Cont"
    and g2: "pool_inv L (insert h U) g2" "world.more g2 = world.more g"
  obtains g3 where "with_server L path body (l, g) = (Next, (l2, g3))" "pool_inv L U g3" "world.more g3 = world.more g" "ex g3 = ex g2"
    "lib g3 = snd (lib_malloc L (lib g2))"
proof -
  let ?P = "\<lambda>k. world.more k = world.more g"
  have "framed ?P L (insert h U) g2" using g2 by (simp add: framed_def)
  from client.cleanup_common [OF this handle_taken(1) [OF h]] obtain g3 where
    "curl_easy_cleanup_common L (Some h) g2 = (Ret (), g3)" "framed ?P L U g3" "ex g3 = ex g2" by auto
  with with_server_some [where body = body, OF h(2) handle_taken(4) [OF h] b] cleanup_lib that show thesis
    by (auto simp: framed_def)
qed

subsection \<open>Receiving\<close>

definition room :: "Buffer \<Rightarrow> nat" where
  "room b = unat (bsize b) - unat (boffset b)"

lemma append_fixed_step:
  fixes g :: "'a exw_scheme"
  assumes ok: "fixed_sink_ok b k" and c: "length c \<le> k" and k: "k < 2 ^ 64"
  shows "\<exists>n b'. Buffer_append alloc c (of_nat (length c)) b g = (Ret (n, b'), g) \<and> unat n = min (length c) (room b) \<and>
    fixed_sink_ok b' (k - length c) \<and> bsize b' = bsize b \<and> Buffer_filled b' = Buffer_filled b @ take (unat n) c \<and>
    room b' = room b - unat n"
proof -
  from fixed_buffer.put_prefix [OF ok c k, of alloc g] obtain n b' g' where
    a: "Buffer_append alloc c (of_nat (length c)) b g = (Ret (n, b'), g')" and
    f: "fixed_sink_ok b' (k - length c)" "Buffer_filled b' = Buffer_filled b @ take (unat n) c" by blast
  from fixed_buffer.put_room [OF ok c k a] have
    r: "unat n = min (length c) (room b)" "room b' = room b - unat n" by (simp_all add: room_def)
  have "unat (of_nat (length c) :: u64) = length c" using c k by (simp add: unat_of_nat_u64)
  then have "Buffer_wf b" "\<not> extensible b" "unat (boffset b) + unat (of_nat (length c) :: u64) < 2 ^ 64"
      "length c = unat (of_nat (length c) :: u64)"
    using ok c by (auto simp: fixed_sink_ok_def)
  from Buffer_append_fixed(1) [OF this, of alloc g] a have "g' = g" "bsize b' = bsize b"
    by (auto simp: append_bytes_def)
  with a f r show ?thesis by blast
qed

lemma feed_buffer:
  fixes g :: "('w, 'a) world_scheme"
  assumes "fixed_sink_ok (f_buf fr) k" "length (concat cs) \<le> k" "k < 2 ^ 64"
  shows "\<exists>b'. feed (buffer_callback L) cs fr g = (Ret (length (concat cs) \<le> room (f_buf fr), fr\<lparr>f_buf := b'\<rparr>), g) \<and>
    Buffer_wf b' \<and> bsize b' = bsize (f_buf fr) \<and>
    Buffer_filled b' = Buffer_filled (f_buf fr) @ take (room (f_buf fr)) (concat cs)"
  using assms
proof (induction cs arbitrary: fr k)
  case Nil
  then show ?case by (intro exI [of _ "f_buf fr"]) (simp add: fixed_sink_ok_def)
next
  case (Cons c cs)
  let ?b = "f_buf fr"
  from Cons.prems have c: "length c \<le> k" by simp
  from append_fixed_step [OF Cons.prems(1) c Cons.prems(3), of "\<lambda>_. lib_realloc L" g] obtain n b1 where
    a: "Buffer_append (\<lambda>_. lib_realloc L) c (of_nat (length c)) ?b g = (Ret (n, b1), g)"
    "unat n = min (length c) (room ?b)" "fixed_sink_ok b1 (k - length c)" "bsize b1 = bsize ?b"
    "Buffer_filled b1 = Buffer_filled ?b @ take (unat n) c" "room b1 = room ?b - unat n" by blast
  have len: "n = of_nat (length c) \<longleftrightarrow> unat n = length c"
    using c Cons.prems(3) by (auto simp: word_unat_eq_iff unat_of_nat_u64)
  have cb: "buffer_callback L c (of_nat (length c)) fr g = (Ret (n, fr\<lparr>f_buf := b1\<rparr>), g)"
    using a(1) by (simp add: buffer_callback_def flow_simps)
  show ?case
  proof (cases "length c \<le> room ?b")
    case True
    then have u: "unat n = length c" using a(2) by simp
    have "length (concat cs) \<le> k - length c" "k - length c < 2 ^ 64" using Cons.prems by simp_all
    with Cons.IH [of "fr\<lparr>f_buf := b1\<rparr>" "k - length c"] a(3) obtain b2 where
      "feed (buffer_callback L) cs (fr\<lparr>f_buf := b1\<rparr>) g = (Ret (length (concat cs) \<le> room b1, fr\<lparr>f_buf := b2\<rparr>), g)"
      "Buffer_wf b2" "bsize b2 = bsize b1" "Buffer_filled b2 = Buffer_filled b1 @ take (room b1) (concat cs)" by auto
    then show ?thesis using cb len u a(4-6) True by (auto simp: le_diff_conv2 add.commute)
  next
    case False
    then have u: "unat n = room ?b" using a(2) by simp
    with False cb len a(3-6) show ?thesis by (auto simp: fixed_sink_ok_def)
  qed
qed

text \<open>The body of \<open>dav_get\<close> with a handle.\<close>

definition get_request :: "'w libs \<Rightarrow> u64 \<Rightarrow> u64 \<Rightarrow> addr \<Rightarrow> ('w, 'a, int \<times> string) davs" where
  "get_request L sz offset curl = block [
     whenc (\<lambda>_. offset \<noteq> 0 \<or> sz \<noteq> 0)
       (throwable (with_range offset sz (\<lambda>range.
         curl_easy_setopt_or_die L curl CURLOPT_RANGE (VStr (Some range))))),
     setopt L curl CURLOPT_WRITEDATA VPtr,
     setopt L curl CURLOPT_WRITEFUNCTION (VFun CB_Buffer_append),
     curl_easy_perform_or_die L curl no_callback (buffer_callback L)]"

lemma dav_get_body:
  "dav_get L path data sz offset = fn (dframe0 L) (block [
     with_seperated (setl (\<lambda>f. f\<lparr>f_buf := Buffer_init_exist data sz False\<rparr>)) skip (block [
       with_server L (Some path) (get_request L sz offset),
       reads (\<lambda>s. TEST_SUCCESS (snd s)) (\<lambda>t.
         setl (\<lambda>f. f\<lparr>f_res := (if t = 0 then to_int32 (boffset (f_buf f)) else - t)\<rparr>))]),
     reads (\<lambda>s. (f_res (fst s), bdata (f_buf (fst s)))) ret])"
  by (simp add: dav_get_def get_request_def [abs_def])

text \<open>The request that is sent, and what is made of the answer \<open>t\<close>.\<close>

abbreviation get_sets :: "u64 \<Rightarrow> u64 \<Rightarrow> (CURLoption \<times> optval) list" where
  "get_sets offset sz \<equiv> [(CURLOPT_RANGE, VStr (Some (range_value offset sz))), (CURLOPT_WRITEDATA, VPtr),
    (CURLOPT_WRITEFUNCTION, VFun CB_Buffer_append)]"

abbreviation get_opts :: "easy_opts \<Rightarrow> u64 \<Rightarrow> u64 \<Rightarrow> easy_opts" where
  "get_opts m offset sz \<equiv> m(CURLOPT_RANGE \<mapsto> VStr (Some (range_value offset sz)), CURLOPT_WRITEDATA \<mapsto> VPtr,
    CURLOPT_WRITEFUNCTION \<mapsto> VFun CB_Buffer_append)"

definition get_code :: "u64 \<Rightarrow> transfer \<Rightarrow> int" where
  "get_code sz t = (if length (concat (t_chunks t)) \<le> unat sz then t_code t else t_abort t)"

definition get_exception :: "exception \<Rightarrow> u64 \<Rightarrow> transfer \<Rightarrow> exception" where
  "get_exception e sz t = (CurlException_init e (get_code sz t) CURL_PERFORM CURLOPT_URL (t_response_code t))\<lparr>ex_set := 1\<rparr>"

lemma get_request_run:
  fixes g :: "('w, 'a) davw_scheme"
  assumes L: "setopt_ok L" "honest L" "lib_chunk L \<noteq> 0" and I: "pool_inv L U g" "h \<in> U" and e: "\<not> has g"
    and sz: "0 < unat sz" and d: "f_buf l = Buffer_init_exist data sz False" "length data = unat sz"
    and m: "easy g h = Some m" "m CURLOPT_READDATA = None"
  obtains t w' b' where
    "lib_perform L \<lparr>rq_opts = get_opts m offset sz, rq_body = []\<rparr> (setopts L (get_sets offset sz) (lib g)) = (t, w')"
    "Buffer_wf b'" "bsize b' = sz" "Buffer_filled b' = take (unat sz) (concat (t_chunks t))"
    "\<exists>f g'. get_request L sz offset h (l, g) = (f, (l\<lparr>f_buf := b'\<rparr>, g')) \<and> pool_inv L U g' \<and> world.more g' = world.more g \<and> lib g' = w' \<and>
       (if get_code sz t = CURLE_OK then f = Next \<and> ex g' = ex g
        else f = Brk \<and> ex g' = get_exception (ex g) sz t)"
proof -
  have ms: "sendable L m" using pool_inv_live [OF I] m by auto
  let ?m = "get_opts m offset sz"
  define w3 where "w3 = setopts L (get_sets offset sz) (lib g)"
  let ?g = "g\<lparr>lib := w3, easy := (easy g)(h \<mapsto> ?m)\<rparr>"
  have s: "sendable L ?m" using ms by (simp add: sendable_def)
  have i: "pool_inv L U (g\<lparr>easy := (easy g)(h \<mapsto> ?m)\<rparr>)" by (rule pool_inv_setopts [OF I(1) m(1) s])
  have u: "upload_body L ?m ?g = (Ret [], ?g)" using m(2) by (simp add: upload_body_def flow_simps)
  have "sz \<noteq> 0" using sz by auto
  let ?rq = "\<lparr>rq_opts = ?m, rq_body = []\<rparr>"
  obtain t w' where t: "lib_perform L ?rq w3 = (t, w')" by fastforce
  have h: "t_abort t \<noteq> CURLE_OK" "length (concat (t_chunks t)) < 2 ^ 64"
    using L(2) t unfolding honest_def by (metis fst_conv)+
  let ?g2 = "?g\<lparr>lib := w', last_transfer := (last_transfer g)(h := t)\<rparr>"
  have "fixed_sink_ok (f_buf l) (length (concat (t_chunks t)))"
    using d h(2) by (simp add: fixed_sink_ok_def Buffer_init_exist_wf) (simp add: Buffer_init_exist_def)
  from feed_buffer [OF this order_refl h(2), of L ?g2] d obtain b' where
    b: "feed (buffer_callback L) (t_chunks t) l ?g2 = (Ret (length (concat (t_chunks t)) \<le> unat sz, l\<lparr>f_buf := b'\<rparr>), ?g2)"
      "Buffer_wf b'" "bsize b' = sz" "Buffer_filled b' = take (unat sz) (concat (t_chunks t))"
    by (auto simp: Buffer_init_exist_def room_def Buffer_filled_def)
  have p: "curl_easy_perform L h no_callback (buffer_callback L) l ?g = (Ret (get_code sz t, l\<lparr>f_buf := b'\<rparr>), ?g2)"
    using perform_eq [of ?g h ?m L "[]" t w' no_callback "buffer_callback L" l] u t b(1)
    by (simp add: deliver_def callback_for_none feed_no_callback callback_for_def get_code_def)
  have "\<exists>f g'. get_request L sz offset h (l, g) = (f, (l\<lparr>f_buf := b'\<rparr>, g')) \<and> pool_inv L U g' \<and> world.more g' = world.more g \<and> lib g' = w' \<and>
       (if get_code sz t = CURLE_OK then f = Next \<and> ex g' = ex g
        else f = Brk \<and> ex g' = get_exception (ex g) sz t)"
    using p e h(1) m i \<open>sz \<noteq> 0\<close>
    by (simp add: get_request_def with_range_def flow_simps curl_easy_setopt_or_die_def setopt_def setopt_eq [OF L(1)]
       curl_easy_perform_or_die_def get_exception_def w3_def)
  with that [of t w' b'] t b show thesis by (simp add: w3_def)
qed

lemma get_code_fits:
  assumes "honest L" "lib_perform L rq w = (t, w')" "get_code sz t = CURLE_OK"
  shows "length (concat (t_chunks t)) \<le> unat sz"
  using assms unfolding honest_def get_code_def by (metis fst_conv)

lemma has_get_exception: "Exception_has (get_exception e sz t)"
  by (simp add: get_exception_def Exception_has_def)

text \<open>\<open>dav_get\<close> with a handle at hand.\<close>

lemma dav_get_run:
  fixes g :: "('w, 'a) davw_scheme"
  assumes L: "setopt_ok L" "honest L" "lib_chunk L \<noteq> 0" and I: "pool_inv L U g"
    and sz: "0 < unat sz" "unat sz < 2 ^ 31" and d: "length data = unat sz"
    and h: "curl_easy_init_common L (sv_baseuh g) (Some path) (Some (sv_options g)) g = (Ret (Some h), g1)"
    and m: "easy g1 h = Some m"
  obtains t w' g' data' where
    "lib_perform L \<lparr>rq_opts = get_opts m offset sz, rq_body = []\<rparr> (setopts L (get_sets offset sz) (lib g1)) = (t, w')"
    "dav_get L path data sz offset g =
       (Ret (if get_code sz t = CURLE_OK then int (length (concat (t_chunks t))) else -1, data'), g')"
    "pool_inv L U g'" "world.more g' = world.more g" "length data' = unat sz"
    "take (length (take (unat sz) (concat (t_chunks t)))) data' = take (unat sz) (concat (t_chunks t))"
    "ex g' = (if get_code sz t = CURLE_OK then ex g1 else get_exception (ex g1) sz t)" "\<not> has g1" "lib g' = snd (lib_malloc L w')"
proof -
  let ?l = "(dframe0 L)\<lparr>f_buf := Buffer_init_exist data sz False\<rparr>"
  note g1 = handle_taken [OF I h]
  obtain t w' b' where
    r: "lib_perform L \<lparr>rq_opts = get_opts m offset sz, rq_body = []\<rparr> (setopts L (get_sets offset sz) (lib g1)) = (t, w')"
    "Buffer_wf b'" "bsize b' = sz" "Buffer_filled b' = take (unat sz) (concat (t_chunks t))"
    "\<exists>f g'. get_request L sz offset h (?l, g1) = (f, (?l\<lparr>f_buf := b'\<rparr>, g')) \<and> pool_inv L (insert h U) g' \<and> world.more g' = world.more g1 \<and> lib g' = w' \<and>
       (if get_code sz t = CURLE_OK then f = Next \<and> ex g' = ex g1 else f = Brk \<and> ex g' = get_exception (ex g1) sz t)"
    by (rule get_request_run [OF L g1(2) _ g1(4) sz(1) _ d m handle_no_data [OF I h m], of ?l offset]) auto
  from r(5) obtain f g2 where b: "get_request L sz offset h (?l, g1) = (f, (?l\<lparr>f_buf := b'\<rparr>, g2))"
    and f: "f = Next \<or> f = Brk \<or> f = Cont" and i2: "pool_inv L (insert h U) g2" "world.more g2 = world.more g" and l2: "lib g2 = w'"
    and e2: "ex g2 = (if get_code sz t = CURLE_OK then ex g1 else get_exception (ex g1) sz t)"
    using g1(3) by (auto split: if_splits)
  from handle_back [where body = "get_request L sz offset", OF I h b f i2] obtain g3 where
    g3: "with_server L (Some path) (get_request L sz offset) (?l, g) = (Next, (?l\<lparr>f_buf := b'\<rparr>, g3))"
      "pool_inv L U g3" "world.more g3 = world.more g" "ex g3 = ex g2" "lib g3 = snd (lib_malloc L (lib g2))" by blast
  have len: "length (Buffer_filled b') = unat (boffset b')" "length (bdata b') = unat sz"
    using r(2,3) by (simp_all add: Buffer_wf_def Buffer_filled_def word_le_nat_alt)
  then have off: "unat (boffset b') = length (take (unat sz) (concat (t_chunks t)))" using r(4) by simp
  have n: "to_int32 (boffset b') = int (length (concat (t_chunks t)))" if "get_code sz t = CURLE_OK"
    using to_int32_small [of "boffset b'"] off get_code_fits [OF L(2) r(1) that] sz(2) by simp
  show thesis
  proof (rule that [OF r(1)])
    show "dav_get L path data sz offset g =
       (Ret (if get_code sz t = CURLE_OK then int (length (concat (t_chunks t))) else -1, bdata b'), g3)"
      using g3(1,4) e2 g1(4,5) n by (auto simp: dav_get_body flow_simps TEST_SUCCESS_def has_get_exception)
    show "take (length (take (unat sz) (concat (t_chunks t)))) (bdata b') = take (unat sz) (concat (t_chunks t))"
      using r(4) off by (simp add: Buffer_filled_def)
  qed (use g3 e2 l2 g1(4) len in auto)
qed

lemma exception_errno_values:
  "exception_errno e \<in> {- ENOENT, - EEXIST, - EBUSY, - EOPNOTSUPP, - ENOSPC, - ENOMEM, - EIO}"
  by (auto simp: exception_errno_def mapped_status_def split: option.splits)

lemma exception_errno_neg: "exception_errno e < 0"
  using exception_errno_values [of e] by auto

lemma get_exception_416:
  "http_416 (get_exception e sz t) \<longleftrightarrow> get_code sz t = CURLE_HTTP_RETURNED_ERROR \<and> t_response_code t = 416"
  by (auto simp: http_416_def http_error_def get_exception_def CurlException_init_def Let_def issubtype_def split: if_splits)

subsection \<open>Reading\<close>

lemma dav_read_run:
  fixes g :: "('w, 'a) davw_scheme"
  assumes "setopt_ok L" "honest L" "lib_chunk L \<noteq> 0" "pool_inv L U g"
    and "0 < unat sz" "unat sz < 2 ^ 31" "length buf = unat sz"
    and h: "curl_easy_init_common L (sv_baseuh g) (Some path) (Some (sv_options g)) g = (Ret (Some h), g1)" "easy g1 h = Some m"
  shows "\<exists>t w' buf' r g'.
    lib_perform L \<lparr>rq_opts = get_opts m offset sz, rq_body = []\<rparr> (setopts L (get_sets offset sz) (lib g1)) = (t, w') \<and>
    dav_read L path buf sz offset g = (Ret (r, buf'), g') \<and> length buf' = length buf \<and>
    \<not> Exception_has (ex g') \<and> pool_inv L U g' \<and> world.more g' = world.more g \<and> lib g' = snd (lib_malloc L w') \<and>
    (if get_code sz t = CURLE_OK then r = int (length (concat (t_chunks t))) \<and> take (nat r) buf' = concat (t_chunks t)
     else if get_code sz t = CURLE_HTTP_RETURNED_ERROR \<and> t_response_code t = 416 then r = 0
     else r = exception_errno (get_exception (ex g1) sz t) \<and> r < 0)"
proof -
  obtain t w' g2 data' where
    r: "lib_perform L \<lparr>rq_opts = get_opts m offset sz, rq_body = []\<rparr> (setopts L (get_sets offset sz) (lib g1)) = (t, w')"
    "dav_get L path buf sz offset g =
       (Ret (if get_code sz t = CURLE_OK then int (length (concat (t_chunks t))) else -1, data'), g2)"
    "pool_inv L U g2" "world.more g2 = world.more g" "length data' = unat sz"
    "take (length (take (unat sz) (concat (t_chunks t)))) data' = take (unat sz) (concat (t_chunks t))"
    "ex g2 = (if get_code sz t = CURLE_OK then ex g1 else get_exception (ex g1) sz t)" "\<not> has g1" "lib g2 = snd (lib_malloc L w')"
    by (rule dav_get_run [OF assms])
  have "sz \<noteq> 0" using assms(5) by auto
  note run = dav_read_def flow_simps r(2,7) get_exception_416 dav_exception_map_def exception_errno_neg
  have fine: ?thesis if "dav_read L path buf sz offset g = (Ret (r, data'), g')" "\<not> has g'" "pool_inv L U g'"
    "world.more g' = world.more g" "lib g' = snd (lib_malloc L w')"
    "if get_code sz t = CURLE_OK then r = int (length (concat (t_chunks t))) \<and> take (nat r) data' = concat (t_chunks t)
     else if get_code sz t = CURLE_HTTP_RETURNED_ERROR \<and> t_response_code t = 416 then r = 0
     else r = exception_errno (get_exception (ex g1) sz t) \<and> r < 0" for r g'
    using that r(1,5) assms(7) by metis
  consider (a) "get_code sz t = CURLE_OK" | (b) "get_code sz t \<noteq> CURLE_OK" "http_416 (get_exception (ex g1) sz t)"
    | (c) "get_code sz t \<noteq> CURLE_OK" "\<not> http_416 (get_exception (ex g1) sz t)" by blast
  then show ?thesis
  proof cases
    case a
    have "dav_read L path buf sz offset g = (Ret (int (length (concat (t_chunks t))), data'), g2)"
      using a r(7) \<open>sz \<noteq> 0\<close> by (simp add: run)
    then show ?thesis by (rule fine) (use r a get_code_fits [OF assms(2) r(1) a] in auto)
  next
    case b
    have "dav_read L path buf sz offset g = (Ret (0, data'), g2\<lparr>ex := Exception_destory (ex g2)\<rparr>)"
      using b r(7) \<open>sz \<noteq> 0\<close> by (simp add: run)
    then show ?thesis by (rule fine) (use r b in \<open>auto simp: get_exception_416\<close>)
  next
    case c
    have "dav_read L path buf sz offset g =
        (Ret (exception_errno (get_exception (ex g1) sz t), data'), g2\<lparr>ex := Exception_destory (ex g2)\<rparr>)"
      using c r(7) \<open>sz \<noteq> 0\<close> by (auto simp: run)
    then show ?thesis by (rule fine) (use r c in \<open>auto simp: get_exception_416 exception_errno_neg\<close>)
  qed
qed


text \<open>A server with five bytes in two pieces.\<close>

definition reply_data :: "request \<Rightarrow> transfer" where
  "reply_data rq = (reply_ok rq)\<lparr>t_chunks := [''he'', ''llo'']\<rparr>"


end
