(* ===== verification/Dav_Table_Laws.thy ===== *)
theory Dav_Table_Laws
  imports Dav_Lock_Laws Dav_Io_Laws
begin

text \<open>
  What the methods under the read-write lock share: the Destination and If headers, what the If header
  does to the lock table, and the requests without a body.
\<close>

subsection \<open>The Destination header\<close>

definition destination :: "'w libs \<Rightarrow> string \<Rightarrow> (string list \<times> ('w, 'a) davw_scheme, string list) stmt" where
  "destination L path = reads (\<lambda>s. sv_baseuh (snd s)) (\<lambda>baseuh.
     throwable (scope_CURLU L baseuh (\<lambda>path_uh. block [
       curl_url_set_or_die L path_uh CURLUPART_URL (Some (drop_slash path)) CURLU_URLENCODE,
       throwable (call (lib_call (lib_url_get L path_uh CURLUPART_URL)) (\<lambda>(code, path_url).
         with_seperated
           (ife (\<lambda>_. code = CURLUE_OK) skip
             (throw (set_ex (\<lambda>e. CurlUrlException_init e code CURLU_GET CURLUPART_URL))))
           skip
           (throwable (reads fst (\<lambda>l.
             call (curl_slist_append_e L l
               (snprintf (14 + length path_url) (''Destination: '' @ path_url))) (\<lambda>l'.
               setl (\<lambda>_. l')))))))])))"

lemma header_destination_body:
  "dav_header_destination L list0 path =
     fn list0 (block [try_catch (destination L path) [onerror (ret [])], reads fst ret])"
  by (simp add: dav_header_destination_def destination_def)

context dav_frame
begin

lemma tidy_destination: "tidy S (framed P L U) (destination L' path)"
  unfolding destination_def split_beta
  by (rule tidy_reads, rule tidy_throwable) (intro runs_intros)

lemma gives_header_destination [runs_intros]: "gives {} (framed P L U) (dav_header_destination L' list0 path)"
  unfolding gives_def
proof (intro allI impI)
  fix g f g' assume I: "framed P L U g" and r: "dav_header_destination L' list0 path g = (f, g')"
  from tidy_destination [of "{}" L U L' path, unfolded tidy_def] I
  show "(\<exists>x\<in>{}. f = Stop x) \<or> framed P L U g' \<and> (\<exists>v. f = Ret v) \<and> (has g \<longrightarrow> has g')"
    by (cases rule: postE [where l = list0])
      (use r in \<open>auto simp: header_destination_body flow_simps onerror_def split: if_splits\<close>)
qed

end

text \<open>The address of the new name, as libcurl puts it together from the server's URL.\<close>

definition destination_url :: "'w libs \<Rightarrow> addr \<Rightarrow> string \<Rightarrow> string \<Rightarrow> bool" where
  "destination_url L base path url \<longleftrightarrow> (\<exists>u w w1 w2 w3. lib_url_dup L base w = (Some u, w1) \<and>
     lib_url_set L u CURLUPART_URL (Some (drop_slash path)) CURLU_URLENCODE w1 = (CURLUE_OK, w2) \<and>
     lib_url_get L u CURLUPART_URL w2 = ((CURLUE_OK, url), w3))"

lemma header_destination_list:
  fixes g :: "('w, 'a) davw_scheme"
  assumes "dav_header_destination L list0 path g = (Ret l, g')" "\<not> has g" "\<not> has g'"
  shows "\<exists>url w. destination_url L (sv_baseuh g) path url \<and> l = list0 @ [''Destination: '' @ url] \<and> g' = g\<lparr>lib := w\<rparr>"
proof -
  obtain u w1 where u: "lib_url_dup L (sv_baseuh g) (lib g) = (u, w1)" by fastforce
  obtain c2 w2 where w2: "lib_url_set L (the u) CURLUPART_URL (Some (drop_slash path)) CURLU_URLENCODE w1 = (c2, w2)" by fastforce
  obtain c3 url w3 where w3: "lib_url_get L (the u) CURLUPART_URL w2 = ((c3, url), w3)" by (metis prod.exhaust)
  obtain ok w4 where w4: "lib_slist_append L list0 (''Destination: '' @ url) w3 = (ok, w4)" by fastforce
  note steps = dav_header_destination_def flow_simps scope_CURLU_def curl_url_dup_e_def lib_call_def
    curl_url_set_or_die_def curl_slist_append_e_def curl_url_cleanup_def onerror_def snprintf_fits
  have a: "u \<noteq> None" using assms u by (auto simp: steps split: if_splits)
  then have b: "c2 = CURLUE_OK" using assms u w2 by (auto simp: steps split: if_splits)
  then have c: "c3 = CURLUE_OK" using a assms u w2 w3 by (auto simp: steps split: if_splits)
  then have "l = list0 @ [''Destination: '' @ url] \<and> (\<exists>w. g' = g\<lparr>lib := w\<rparr>)"
    using a b assms u w2 w3 w4 by (auto simp: steps split: if_splits)
  then show ?thesis using a b c u w2 w3 unfolding destination_url_def by force
qed

subsection \<open>The If header and the lock table\<close>

text \<open>The header of the lock of a path, when it has one.\<close>

definition if_of :: "('w, 'a) davw_scheme \<Rightarrow> string \<Rightarrow> string list" where
  "if_of g p = (case tfind p (sv_tree g) of None \<Rightarrow> [] | Some a \<Rightarrow> [if_header (the (fl_token (the (locks g a))))])"

text \<open>Memory for a header can be had.\<close>

definition slist_ok :: "'w libs \<Rightarrow> bool" where
  "slist_ok L \<longleftrightarrow> (\<forall>l s w. fst (lib_slist_append L l s w))"

lemma add_if_run:
  fixes g :: "('w, 'a) davw_scheme"
  assumes "\<not> has g" and wf: "lock_wf g" and a: "tfind path (sv_tree g) = Some a"
  obtains (added) w where "(add_if L path lt :: ('w, 'a, 'r) davs) (l, g) = (Next, (l\<lparr>f_list := f_list l @ if_of g path\<rparr>, if lt = RW_LOCK_WRITE
      then g\<lparr>lib := w, sv_tree := tdelete path (sv_tree g), locks := (locks g)(a := None)\<rparr> else g\<lparr>lib := w\<rparr>))"
  | (failed) l' w e where "(add_if L path lt :: ('w, 'a, 'r) davs) (l, g) = (Brk, (l', g\<lparr>lib := w, ex := e\<rparr>))" "Exception_has e" "\<not> slist_ok L"
proof -
  from lock_wf_find [OF wf a] obtain fl t where fl: "locks g a = Some fl" "fl_token fl = Some t" by (auto simp: lock_entry_def)
  obtain ok w where w: "lib_slist_append L (f_list l) (if_header t) (lib g) = (ok, w)" by fastforce
  note h = header_if_some [OF a fl w, of lt]
  show thesis
  proof (cases ok)
    case True
    then show thesis using h assms(1) by (intro added [of w])
      (simp add: if_of_def a fl add_if_def assign_list_def flow_simps)
  next
    case False
    then have "\<not> slist_ok L" using w unfolding slist_ok_def by (metis fst_conv)
    with False show thesis using h
      by (intro failed [where l' = "l\<lparr>f_list := []\<rparr>" and w = w and e = "CurlException_init (ex g) 0 CURL_SLIST_APPEND CURLOPT_URL 0"])
        (simp_all add: add_if_def assign_list_def flow_simps has_CurlException)
  qed
qed

lemma add_if_absent:
  "tfind path (sv_tree g) = None \<Longrightarrow> \<not> has g \<Longrightarrow> (add_if L path lt :: ('w, 'a, 'r) davs) (l, g) = (Next, (l, g))"
  by (simp add: add_if_def assign_list_def flow_simps header_if_none)

lemma add_if_read:
  fixes g :: "('w, 'a) davw_scheme"
  assumes "\<not> has g" "lock_wf g"
  obtains (added) w where "(add_if L path RW_LOCK_READ :: ('w, 'a, 'r) davs) (l, g) =
      (Next, (l\<lparr>f_list := f_list l @ if_of g path\<rparr>, g\<lparr>lib := w\<rparr>))"
  | (failed) l' w e where "(add_if L path RW_LOCK_READ :: ('w, 'a, 'r) davs) (l, g) = (Brk, (l', g\<lparr>lib := w, ex := e\<rparr>))"
      "Exception_has e" "\<not> slist_ok L"
proof (cases "tfind path (sv_tree g)")
  case None
  with add_if_absent [OF this assms(1)] show thesis by (intro added [of "lib g"]) (simp add: if_of_def)
next
  case (Some a)
  from assms Some show thesis
    by (cases rule: add_if_run [where 'r = 'r and lt = RW_LOCK_READ and L = L and l = l]) (use added failed in auto)
qed

lemma tdelete_absent: "tfind p t = None \<Longrightarrow> tdelete p t = t"
  by (induction t) (auto simp: tfind_def tdelete_def split: if_splits)

text \<open>The entry of \<open>src\<close> is gone and its lock freed, and nothing else of the table.\<close>

definition forgets :: "string \<Rightarrow> ('w, 'a) davw_scheme \<Rightarrow> ('w, 'a) davw_scheme \<Rightarrow> bool" where
  "forgets src g g' \<longleftrightarrow> sv_tree g' = tdelete src (sv_tree g) \<and> lock_wf g' \<and> sv_options g' = sv_options g \<and>
     sv_allow g' = sv_allow g \<and> (\<forall>p a. tfind p (sv_tree g') = Some a \<longrightarrow> locks g' a = locks g a) \<and>
     (\<forall>a. tfind src (sv_tree g) = Some a \<longrightarrow> locks g' a = None)"

lemma if_of_forgets: "forgets src g g' \<Longrightarrow> if_of g' dst = (if dst = src then [] else if_of g dst)"
  using lock_tree.find_del [of dst src "sv_tree g"] by (auto simp: if_of_def forgets_def split: option.split)

lemma if_of_rw [simp]:
  "if_of (g\<lparr>sv_readers := n\<rparr>) p = if_of g p" "if_of (g\<lparr>sv_writer := b\<rparr>) p = if_of g p"
  by (simp_all add: if_of_def split: option.split)

lemma lock_wf_server_is: "server_is s g \<Longrightarrow> lock_wf s \<Longrightarrow> lock_wf g"
  unfolding lock_wf_def lock_entry_def server_is_def by fastforce

lemma rw_server_is: "server_is s g \<Longrightarrow> rw g = rw s"
  by (simp add: server_is_def rw_def)

lemma forgets_server_is:
  "server_is s g \<Longrightarrow> forgets src g g' \<Longrightarrow> forgets src s g'"
  "forgets src s g \<Longrightarrow> server_is g g' \<Longrightarrow> forgets src s g'"
  using lock_wf_server_is [of g g'] by (simp_all add: forgets_def) (simp_all add: server_is_def)


lemma forgets_write:
  assumes wf: "lock_wf g" and a: "tfind path (sv_tree g) = Some a"
  shows "forgets path g (g\<lparr>lib := w, sv_tree := tdelete path (sv_tree g), locks := (locks g)(a := None)\<rparr>)" (is "forgets path g ?d")
proof -
  have wf': "lock_wf ?d" using lock_wf_delete [OF wf a] by (auto simp: lock_wf_def lock_entry_def)
  have "locks ?d b = locks g b" if "tfind p (sv_tree ?d) = Some b" for p b
    using lock_wf_find [OF wf' that] by (auto simp: lock_entry_def split: if_splits)
  with wf' a show ?thesis by (simp add: forgets_def)
qed

lemma forgets_absent: "lock_wf g \<Longrightarrow> tfind path (sv_tree g) = None \<Longrightarrow> forgets path g g"
  by (simp add: forgets_def tdelete_absent)

text \<open>The header of a path under the write lock: afterwards its entry is gone.\<close>

lemma add_if_write:
  fixes g :: "('w, 'a) davw_scheme"
  assumes "\<not> has g" "lock_wf g" "pool_inv L U g"
  obtains (added) g' where "(add_if L path RW_LOCK_WRITE :: ('w, 'a, 'r) davs) (l, g) = (Next, (l\<lparr>f_list := f_list l @ if_of g path\<rparr>, g'))"
      "forgets path g g'" "\<not> has g'" "easy g' = easy g" "rw g' = rw g" "pool_inv L U g'" "sv_baseuh g' = sv_baseuh g"
  | (failed) l' w e where "(add_if L path RW_LOCK_WRITE :: ('w, 'a, 'r) davs) (l, g) = (Brk, (l', g\<lparr>lib := w, ex := e\<rparr>))" "Exception_has e" "\<not> slist_ok L"
proof (cases "tfind path (sv_tree g)")
  case None
  with add_if_absent [OF this assms(1)] show thesis
    by (intro added [of g]) (use assms in \<open>simp_all add: if_of_def forgets_absent\<close>)
next
  case (Some a)
  from assms(1,2) Some show thesis
  proof (cases rule: add_if_run [where 'r = 'r and lt = RW_LOCK_WRITE and L = L and l = l])
    case (added w)
    then show thesis
      by (intro that(1) [OF _ forgets_write [OF assms(2) Some, of w]]) (use assms in \<open>simp_all add: rw_def pool_inv_def\<close>)
  qed (erule that(2))
qed


subsection \<open>Requests\<close>

text \<open>The options of the handle that a method for \<open>path\<close> gets in the state \<open>g\<close>.\<close>

definition taken :: "'w libs \<Rightarrow> ('w, 'a) davw_scheme \<Rightarrow> string \<Rightarrow> easy_opts \<Rightarrow> bool" where
  "taken L g path m \<longleftrightarrow> (\<exists>h g1. curl_easy_init_common L (sv_baseuh g) (Some path) (Some (sv_options g)) g = (Ret (Some h), g1) \<and>
     easy g1 h = Some m)"

text \<open>The state the libraries are in is the one after the request \<open>rq\<close> was answered with success; and the
  same after the handle was given back.\<close>

definition answered :: "'w libs \<Rightarrow> request \<Rightarrow> ('w, 'a) davw_scheme \<Rightarrow> bool" where
  "answered L rq g \<longleftrightarrow> (\<exists>w t. lib_perform L rq w = (t, lib g) \<and> t_code t = CURLE_OK)"

definition last_sent :: "'w libs \<Rightarrow> request \<Rightarrow> ('w, 'a) davw_scheme \<Rightarrow> bool" where
  "last_sent L rq g \<longleftrightarrow> (\<exists>w t w'. lib_perform L rq w = (t, w') \<and> t_code t = CURLE_OK \<and> lib g = snd (lib_malloc L w'))"

lemma answered_cleanup: "answered L rq g \<Longrightarrow> curl_easy_cleanup_common L (Some h) g = (Ret (), g') \<Longrightarrow> last_sent L rq g'"
  by (auto simp: answered_def last_sent_def dest!: cleanup_lib)

lemma taken_live: "pool_inv L U g \<Longrightarrow> curl_easy_init_common L (sv_baseuh g) (Some path) (Some (sv_options g)) g = (Ret (Some h), g1) \<Longrightarrow>
   \<exists>m. easy g1 h = Some m \<and> taken L g path m \<and> m CURLOPT_READDATA = None"
  using init_common_only [of L U g] handle_no_data [of L U g] by (metis taken_def)

text \<open>A request without a body: the statements that send it, alone and after the headers.\<close>

definition plain_send :: "'w libs \<Rightarrow> string \<Rightarrow> addr \<Rightarrow> (dframe \<times> ('w, 'a) davw_scheme, 'r) stmt list" where
  "plain_send L mth curl = [
     curl_easy_setopt_or_die L curl CURLOPT_CUSTOMREQUEST (VStr (Some mth)),
     setopt L curl CURLOPT_NOBODY (VLong 1),
     curl_easy_perform_or_die L curl no_callback no_callback]"

definition plain_rq :: "string \<Rightarrow> easy_opts \<Rightarrow> request" where
  "plain_rq mth m = \<lparr>rq_opts = m(CURLOPT_CUSTOMREQUEST \<mapsto> VStr (Some mth), CURLOPT_NOBODY \<mapsto> VLong 1), rq_body = []\<rparr>"

definition bare_send :: "'w libs \<Rightarrow> string \<Rightarrow> addr \<Rightarrow> (dframe \<times> ('w, 'a) davw_scheme, 'r) stmt list" where
  "bare_send L mth curl = setopt_list L curl # plain_send L mth curl"

definition bare_rq :: "string \<Rightarrow> easy_opts \<Rightarrow> string list \<Rightarrow> request" where
  "bare_rq mth m hs = plain_rq mth (m(CURLOPT_HTTPHEADER \<mapsto> VList hs))"

lemma plain_send_run:
  fixes g :: "('w, 'a) davw_scheme"
  assumes L: "setopt_ok L" and I: "pool_inv L U g" "h \<in> U" and e: "\<not> has g"
    and m: "easy g h = Some m" "m CURLOPT_READDATA = None"
  obtains f g' where "(block (plain_send L mth h) :: ('w, 'a, 'r) davs) (l, g) = (f, (l, g'))" "pool_inv L U g'" "server_is g g'"
    "f = Next \<and> \<not> has g' \<and> answered L (plain_rq mth m) g' \<or> f = Brk \<and> has g'"
proof -
  let ?rq = "plain_rq mth m"
  let ?m = "rq_opts ?rq"
  define w where "w = setopts L [(CURLOPT_CUSTOMREQUEST, VStr (Some mth)), (CURLOPT_NOBODY, VLong 1)] (lib g)"
  let ?g = "g\<lparr>lib := w, easy := (easy g)(h \<mapsto> ?m)\<rparr>"
  have s: "sendable L ?m" using m(2) by (simp add: sendable_def plain_rq_def)
  have i: "pool_inv L U (g\<lparr>easy := (easy g)(h \<mapsto> ?m)\<rparr>)" by (rule pool_inv_setopts [OF I(1) m(1) s])
  have u: "upload_body L ?m ?g = (Ret [], ?g)" using m(2) by (simp add: upload_body_def flow_simps plain_rq_def)
  obtain t w' where t: "lib_perform L ?rq w = (t, w')" by fastforce
  let ?g2 = "?g\<lparr>lib := w', last_transfer := (last_transfer g)(h := t)\<rparr>"
  have p: "curl_easy_perform L h no_callback no_callback l ?g = (Ret (t_code t, l), ?g2)"
    using perform_eq [of ?g h ?m L "[]" t w' no_callback no_callback l] u t
    by (simp add: deliver_def callback_for_none feed_no_callback plain_rq_def)
  let ?g3 = "if t_code t = CURLE_OK then ?g2
    else ?g2\<lparr>ex := (CurlException_init (ex g) (t_code t) CURL_PERFORM CURLOPT_URL (t_response_code t))\<lparr>ex_set := 1\<rparr>\<rparr>"
  have r: "block (plain_send L mth h) (l, g) = (if t_code t = CURLE_OK then Next else Brk, (l, ?g3))"
    using p e m(1)
    by (simp add: plain_send_def plain_rq_def flow_simps curl_easy_setopt_or_die_def setopt_def
        setopt_eq [OF L] curl_easy_perform_or_die_def w_def)
  show thesis by (rule that [OF r]) (use i e t in \<open>auto simp: Exception_has_def server_is_def answered_def\<close>)
qed

lemma setopt_list_run:
  fixes g :: "('w, 'a) davw_scheme"
  assumes L: "setopt_ok L" and I: "pool_inv L U g" "h \<in> U" and e: "\<not> has g" and m: "easy g h = Some m"
  obtains g' where "(setopt_list L h :: ('w, 'a, 'r) davs) (l, g) = (Next, (l, g'))" "pool_inv L U g'" "server_is g g'"
    "\<not> has g'" "easy g' h = Some (m(CURLOPT_HTTPHEADER \<mapsto> VList (f_list l)))"
proof -
  let ?v = "VList (f_list l)"
  let ?g' = "g\<lparr>lib := snd (lib_setopt L CURLOPT_HTTPHEADER ?v (lib g)), easy := (easy g)(h \<mapsto> m(CURLOPT_HTTPHEADER \<mapsto> ?v))\<rparr>"
  from pool_inv_live [OF I] m have "sendable L (m(CURLOPT_HTTPHEADER \<mapsto> ?v))" by (simp add: sendable_def)
  from pool_inv_setopts [OF I(1) m this] have "pool_inv L U ?g'" by (simp add: pool_inv_def)
  moreover have "setopt_list L h (l, g) = (Next, (l, ?g'))"
    using m e by (simp add: setopt_list_def flow_simps curl_easy_setopt_or_die_def setopt_def setopt_eq [OF L])
  ultimately show thesis by (intro that [of ?g']) (use e in \<open>simp_all add: server_is_def\<close>)
qed

lemma bare_send_run:
  fixes g :: "('w, 'a) davw_scheme"
  assumes L: "setopt_ok L" and I: "pool_inv L U g" "h \<in> U" and e: "\<not> has g"
    and m: "easy g h = Some m" "m CURLOPT_READDATA = None"
  obtains f g' where "(block (bare_send L mth h) :: ('w, 'a, 'r) davs) (l, g) = (f, (l, g'))" "pool_inv L U g'" "server_is g g'"
    "f = Next \<and> \<not> has g' \<and> answered L (bare_rq mth m (f_list l)) g' \<or> f = Brk \<and> has g'"
proof -
  obtain g1 where 1: "(setopt_list L h :: ('w, 'a, 'r) davs) (l, g) = (Next, (l, g1))" "pool_inv L U g1" "server_is g g1"
    "\<not> has g1" "easy g1 h = Some (m(CURLOPT_HTTPHEADER \<mapsto> VList (f_list l)))"
    by (rule setopt_list_run [where 'r = 'r, OF L I e m(1), of l])
  have "(m(CURLOPT_HTTPHEADER \<mapsto> VList (f_list l))) CURLOPT_READDATA = None" using m(2) by simp
  from plain_send_run [where 'r = 'r, OF L 1(2) I(2) 1(4,5) this, of mth l, folded bare_rq_def] obtain f g' where
    "(block (plain_send L mth h) :: ('w, 'a, 'r) davs) (l, g1) = (f, (l, g'))" "pool_inv L U g'" "server_is g1 g'"
    "f = Next \<and> \<not> has g' \<and> answered L (bare_rq mth m (f_list l)) g' \<or> f = Brk \<and> has g'" .
  with 1 server_is_trans [OF 1(3)] that [of f g'] show thesis by (auto simp: bare_send_def)
qed

text \<open>Giving back the lock after it, whichever of the two it is.\<close>

definition given_back :: "('w, 'a) davw_scheme \<Rightarrow> ('w, 'a) davw_scheme" where
  "given_back g = (if sv_writer g then g\<lparr>sv_writer := False\<rparr> else g\<lparr>sv_readers := sv_readers g - 1\<rparr>)"

lemma rw_unlock_given_back: "rw_unlock (l, g) = (Next, (l, given_back g))"
  by (simp add: given_back_def flow_simps)

lemma given_back_simps [simp]:
  "pool_inv L U (given_back g) = pool_inv L U g" "answered L rq (given_back g) = answered L rq g"
  "forgets p s (given_back g) = forgets p s g" "ex (given_back g) = ex g"
  by (auto simp: given_back_def pool_inv_def answered_def forgets_def lock_wf_def lock_entry_def)

lemma rw_given_back: "rw g \<in> {(1, False), (0, True)} \<Longrightarrow> rw (given_back g) = (0, False)"
  by (auto simp: given_back_def rw_def)

lemma bare_end_cases:
  fixes g :: "('w, 'a) davw_scheme"
  assumes L: "setopt_ok L" and I: "pool_inv L U g" "h \<in> U" and e: "\<not> has g" and lk: "use_lock (sv_options g)"
    and m: "easy g h = Some m" "m CURLOPT_READDATA = None"
  obtains (sent) g' where "(block (bare_send L mth h @ [whenc locking rw_unlock]) :: ('w, 'a, 'r) davs) (l, g) = (Next, (l, given_back g'))"
      "\<not> has g'" "pool_inv L U g'" "server_is g g'" "answered L (bare_rq mth m (f_list l)) g'"
  | (failed) g' where "(block (bare_send L mth h @ [whenc locking rw_unlock]) :: ('w, 'a, 'r) davs) (l, g) = (Brk, (l, g'))"
      "has g'" "pool_inv L U g'" "server_is g g'"
proof -
  obtain f g1 where b: "(block (bare_send L mth h) :: ('w, 'a, 'r) davs) (l, g) = (f, (l, g1))" and
    g1: "pool_inv L U g1" "server_is g g1" and
    f: "f = Next \<and> \<not> has g1 \<and> answered L (bare_rq mth m (f_list l)) g1 \<or> f = Brk \<and> has g1"
    by (rule bare_send_run [where 'r = 'r, OF L I e m, of mth l])
  have lk1: "locking (l, g1)" using lk g1(2) by (simp add: locking_def server_is_def)
  from f show thesis
  proof
    assume n: "f = Next \<and> \<not> has g1 \<and> answered L (bare_rq mth m (f_list l)) g1"
    then have "(block (bare_send L mth h @ [whenc locking rw_unlock]) :: ('w, 'a, 'r) davs) (l, g) = (Next, (l, given_back g1))"
      using b lk1 by (simp add: block_append block.simps whenc_simp rw_unlock_given_back)
    then show thesis by (rule sent) (use n g1 in auto)
  next
    assume n: "f = Brk \<and> has g1"
    then have "(block (bare_send L mth h @ [whenc locking rw_unlock]) :: ('w, 'a, 'r) davs) (l, g) = (Brk, (l, g1))"
      using b by (simp add: block_append)
    then show thesis by (rule failed) (use n g1 in auto)
  qed
qed

lemma demo_setopt_ok: "setopt_ok (demo_lib r)"
  by (simp add: setopt_ok_def)

subsection \<open>The read lock\<close>

text \<open>The state of the read-write lock while the request runs.\<close>

definition reading :: "('w, 'a) davw_scheme \<Rightarrow> ('w, 'a) davw_scheme" where
  "reading g = (if use_lock (sv_options g) then g\<lparr>sv_readers := Suc (sv_readers g)\<rparr> else g)"

lemma reading_server_is: "server_is s g \<Longrightarrow> server_is (reading g) g' \<Longrightarrow> server_is (reading s) g'"
  by (cases "use_lock (sv_options s)") (simp_all add: reading_def server_is_def)

lemma given_back_reading: "server_is (reading g) g' \<Longrightarrow> \<not> sv_writer g \<Longrightarrow> use_lock (sv_options g) \<Longrightarrow> server_is g (given_back g')"
  by (simp add: reading_def given_back_def server_is_def)

text \<open>After a failure the read lock may still be held.\<close>

definition read_left :: "('w, 'a) davw_scheme \<Rightarrow> ('w, 'a) davw_scheme \<Rightarrow> bool" where
  "read_left g g' \<longleftrightarrow> server_is g g' \<or> server_is (reading g) g'"

text \<open>The If header of a path under the read lock.\<close>

lemma read_if_cases:
  fixes g :: "('w, 'a) davw_scheme"
  assumes e: "\<not> has g" and I: "lock_wf g" "\<not> sv_writer g" "pool_inv L U g"
  obtains (added) g' where "(block [rw_rdlock, add_if L path RW_LOCK_READ] :: ('w, 'a, 'r) davs) (l, g) =
      (Next, (l\<lparr>f_list := f_list l @ if_of g path\<rparr>, g'))" "\<not> has g'" "pool_inv L U g'"
      "server_is (g\<lparr>sv_readers := Suc (sv_readers g)\<rparr>) g'" "easy g' = easy g"
  | (failed) l' g' where "(block [rw_rdlock, add_if L path RW_LOCK_READ] :: ('w, 'a, 'r) davs) (l, g) = (Brk, (l', g'))"
      "has g'" "pool_inv L U g'" "server_is (g\<lparr>sv_readers := Suc (sv_readers g)\<rparr>) g'"
proof -
  let ?g = "g\<lparr>sv_readers := Suc (sv_readers g)\<rparr>"
  have pre: "\<not> has ?g" "lock_wf ?g" using I e by (simp_all add: lock_wf_def)
  from pre show thesis
  proof (cases rule: add_if_read [where 'r = 'r and path = path and L = L and l = l])
    case (added w)
    then show thesis using I e by (intro that(1) [of "?g\<lparr>lib := w\<rparr>"]) (simp_all add: rw_rdlock_simp pool_inv_def server_is_def)
  next
    case (failed l' w e')
    then show thesis using I by (intro that(2) [of l' "?g\<lparr>lib := w, ex := e'\<rparr>"]) (simp_all add: rw_rdlock_simp pool_inv_def server_is_def)
  qed
qed

lemma forgets_read:
  assumes "server_is (g\<lparr>sv_readers := n\<rparr>) g'" "lock_wf g" "tfind src (sv_tree g) = None"
  shows "forgets src g g'"
proof -
  have "lock_wf (g\<lparr>sv_readers := n\<rparr>)" using assms(2) by (simp add: lock_wf_def)
  from lock_wf_server_is [OF assms(1) this] show ?thesis using assms(1,3) by (simp add: forgets_def tdelete_absent) (simp add: server_is_def)
qed

lemma read_if_snoc:
  "block [a, b] s = (f, s') \<Longrightarrow> block (a # b # cs) s = (if f = Next then block cs s' else (f, s'))"
  using block_append [of "[a, b]" cs s] by simp

subsection \<open>From the statements to the method\<close>

text \<open>No handle can be had for \<open>path\<close>.\<close>

definition no_handle :: "'w libs \<Rightarrow> ('w, 'a) davw_scheme \<Rightarrow> string \<Rightarrow> bool" where
  "no_handle L g path \<longleftrightarrow> fst (curl_easy_init_common L (sv_baseuh g) (Some path) (Some (sv_options g)) g) = Ret None"

text \<open>How the statements for a fresh handle of the path \<open>path\<close> end: with \<open>Q\<close> for the options of that handle and the
  state, or with an exception and \<open>R\<close>.\<close>

definition server_ends :: "'w libs \<Rightarrow> addr set \<Rightarrow> ('w, 'a) davw_scheme \<Rightarrow> string \<Rightarrow> dframe \<Rightarrow> (addr \<Rightarrow> ('w, 'a, 'r) davs) \<Rightarrow>
    (easy_opts \<Rightarrow> ('w, 'a) davw_scheme \<Rightarrow> bool) \<Rightarrow> (('w, 'a) davw_scheme \<Rightarrow> bool) \<Rightarrow> bool" where
  "server_ends L U g path l body Q R \<longleftrightarrow> (\<forall>h g1 m. pool_inv L (insert h U) g1 \<and> server_is g g1 \<and> \<not> has g1 \<and> easy g1 h = Some m \<and>
     taken L g path m \<and> m CURLOPT_READDATA = None \<and> \<not> no_handle L g path \<longrightarrow>
     (\<exists>f l3 g3. body h (l, g1) = (f, (l3, g3)) \<and> pool_inv L (insert h U) g3 \<and>
        (f = Next \<and> \<not> has g3 \<and> Q m g3 \<or> f = Brk \<and> has g3 \<and> R g3)))"

lemma server_cases:
  fixes g :: "('w, 'a) davw_scheme" and body :: "addr \<Rightarrow> ('w, 'a, 'r) davs"
  assumes I: "pool_inv L U g" and b: "server_ends L U g path l body Q R" and n: "\<forall>g1. server_is g g1 \<and> no_handle L g path \<longrightarrow> R g1"
  obtains (sent) m l' g3 g4 where "with_server L (Some path) body (l, g) = (Next, (l', g4))"
      "\<not> has g4" "pool_inv L U g4" "taken L g path m" "Q m g3" "server_is g3 g4" "\<And>rq. answered L rq g3 \<Longrightarrow> last_sent L rq g4"
  | (failed) l' g3 g4 where "with_server L (Some path) body (l, g) = (Next, (l', g4))"
      "has g4" "pool_inv L U g4" "server_is g3 g4" "R g3"
proof -
  have "framed (server_is g) L U g" using I by (simp add: framed_def)
  then show thesis
  proof (cases rule: snapshot.init_common_cases [where url = "sv_baseuh g" and path = "Some path" and options = "Some (sv_options g)"])
    case (1 h g1)
    have g1: "pool_inv L (insert h U) g1" "server_is g g1" using 1(3) by (simp_all add: framed_def)
    from taken_live [OF I 1(1)] obtain m where m: "easy g1 h = Some m" "taken L g path m" "m CURLOPT_READDATA = None" by blast
    from b [unfolded server_ends_def, rule_format, of h g1 m] g1 1(1,4) m obtain f l3 g3 where
      r: "body h (l, g1) = (f, (l3, g3))" "pool_inv L (insert h U) g3"
      and f: "f = Next \<and> \<not> has g3 \<and> Q m g3 \<or> f = Brk \<and> has g3 \<and> R g3" by (auto simp: no_handle_def)
    have "framed (server_is g3) L (insert h U) g3" using r(2) by (simp add: framed_def)
    from snapshot.cleanup_common [OF this 1(2)] obtain g4 where
      g4: "curl_easy_cleanup_common L (Some h) g3 = (Ret (), g4)" "framed (server_is g3) L U g4" "ex g4 = ex g3" by auto
    have "with_server L (Some path) body (l, g) = (Next, (l3, g4))"
      by (rule with_server_some [where body = body, OF 1(1,4) r(1) _ g4(1)]) (use f in blast)
    with f g4 answered_cleanup [OF _ g4(1)] sent [of l3 g4 m g3] failed [of l3 g4 g3] m show thesis by (auto simp: framed_def)
  next
    case (2 g1)
    then have "with_server L (Some path) body (l, g) = (Next, (l, g1))" by (intro with_server_none) auto
    from failed [OF this, of g1] 2 n show thesis by (auto simp: framed_def no_handle_def)
  qed
qed

text \<open>Statements inside a list of headers.\<close>

definition block_ends :: "'w libs \<Rightarrow> addr set \<Rightarrow> ('w, 'a) davw_scheme \<Rightarrow> string \<Rightarrow> dframe \<Rightarrow> (addr \<Rightarrow> ('w, 'a, 'r) davs) \<Rightarrow>
    (easy_opts \<Rightarrow> ('w, 'a) davw_scheme \<Rightarrow> bool) \<Rightarrow> (('w, 'a) davw_scheme \<Rightarrow> bool) \<Rightarrow> bool" where
  "block_ends L U g path l b = server_ends L U g path (l\<lparr>f_list := []\<rparr>) b"

lemma scoped_run:
  assumes "b (l\<lparr>f_list := []\<rparr>, g) = (f, (l2, g2))" "f = Next \<or> f = Brk" "\<not> has g"
  shows "throwable (scope_slist L None b) (l, g) = (if has g2 then Brk else Next, (l2\<lparr>f_list := []\<rparr>, g2))"
  using assms by (auto simp: scope_slist_def flow_simps)

lemma scoped_ends:
  assumes "block_ends L U g path l b Q R"
  shows "server_ends L U g path l (\<lambda>curl. throwable (scope_slist L None (b curl))) Q R"
  unfolding server_ends_def
proof (intro allI impI)
  fix h g1 m
  assume a: "pool_inv L (insert h U) g1 \<and> server_is g g1 \<and> \<not> has g1 \<and> easy g1 h = Some m \<and> taken L g path m \<and> m CURLOPT_READDATA = None \<and> \<not> no_handle L g path"
  with assms obtain f l3 g3 where r: "b h (l\<lparr>f_list := []\<rparr>, g1) = (f, (l3, g3))" "pool_inv L (insert h U) g3"
    "f = Next \<and> \<not> has g3 \<and> Q m g3 \<or> f = Brk \<and> has g3 \<and> R g3" unfolding block_ends_def server_ends_def by blast
  with scoped_run [where b = "b h" and L = L, OF r(1)] a
  show "\<exists>f l3 g3. throwable (scope_slist L None (b h)) (l, g1) = (f, (l3, g3)) \<and> pool_inv L (insert h U) g3 \<and>
        (f = Next \<and> \<not> has g3 \<and> Q m g3 \<or> f = Brk \<and> has g3 \<and> R g3)" by auto
qed

lemmas scoped_cases [consumes 3, case_names sent failed] = server_cases [OF _ scoped_ends]

definition scoped_method :: "'w libs \<Rightarrow> string \<Rightarrow> (addr \<Rightarrow> ('w, 'a, int) davs) \<Rightarrow> ('w, 'a, int) davf" where
  "scoped_method L path b = fn (dframe0 L) (block [
     with_server L (Some path) (\<lambda>curl. throwable (scope_slist L None (b curl))), ret_status])"

lemma scoped_method_end:
  "with_server L (Some path) (\<lambda>curl. throwable (scope_slist L None (b curl))) (dframe0 L, g) = (Next, (l, g')) \<Longrightarrow>
     scoped_method L path b g = (Ret (if has g' then 1 else 0), g')"
  by (simp add: scoped_method_def flow_simps ret_status_def TEST_SUCCESS_def)

end
