(* ===== verification/Dav_Move_Laws.thy ===== *)
theory Dav_Move_Laws
  imports Dav_Table_Laws
begin

text \<open>
  Renaming: the Destination header, the change from the read lock to the write lock, and what becomes
  of the locks of the two names.
\<close>

subsection \<open>The locks of the two names\<close>

definition move_lock :: "'w libs \<Rightarrow> string \<Rightarrow> string \<Rightarrow> ('w, 'a, int) davs" where
  "move_lock L src dst = whenc locking (block [
     rw_rdlock,
     whenc (\<lambda>s. tfind src (sv_tree (snd s)) \<noteq> None) (block [
       rw_unlock,
       rw_wrlock,
       add_if L src RW_LOCK_WRITE]),
     add_if L dst RW_LOCK_READ])"

text \<open>The entry of the old name is removed before the new name is looked up.\<close>

definition move_ifs :: "('w, 'a) davw_scheme \<Rightarrow> string \<Rightarrow> string \<Rightarrow> string list" where
  "move_ifs g src dst = if_of g src @ (if dst = src then [] else if_of g dst)"

lemma move_lock_cases:
  fixes g :: "('w, 'a) davw_scheme"
  assumes I: "pool_inv L U g" "lock_wf g" "rw g = (0, False)" and e: "\<not> has g" and lk: "use_lock (sv_options g)"
  obtains (held) l' g' where "move_lock L src dst (l, g) = (Next, (l', g'))" "\<not> has g'" "pool_inv L U g'" "forgets src g g'"
      "rw g' \<in> {(1, False), (0, True)}" "f_list l' = f_list l @ move_ifs g src dst" "easy g' = easy g"
  | (failed) l' g' where "move_lock L src dst (l, g) = (Brk, (l', g'))" "has g'" "pool_inv L U g'"
proof (cases "tfind src (sv_tree g)")
  case None
  have r: "\<not> sv_writer g" "locking (l, g)" using I(3) lk by (auto simp: rw_def locking_def)
  from e I(2) r(1) I(1) show thesis
  proof (cases rule: read_if_cases [where 'r = int and path = dst and l = l])
    case (added g')
    from forgets_read [OF added(4) I(2) None] have "forgets src g g'" .
    with added r None I(3) show thesis
      by (intro held [of "l\<lparr>f_list := f_list l @ if_of g dst\<rparr>" g'])
        (auto simp: move_lock_def whenc_simp rw_rdlock_simp rw_def server_is_def move_ifs_def if_of_def)
  next
    case (failed l' g')
    with r None show thesis by (intro that(2) [of l' g']) (simp_all add: move_lock_def whenc_simp rw_rdlock_simp)
  qed
next
  case (Some a)
  let ?g = "g\<lparr>sv_readers := 0, sv_writer := True\<rparr>"
  have r: "\<not> sv_writer g" "sv_readers g = 0" "locking (l, g)" using I(3) lk by (auto simp: rw_def locking_def)
  have pre: "\<not> has ?g" "lock_wf ?g" "pool_inv L U ?g" using I e by (simp_all add: lock_wf_def pool_inv_def)
  from pre show thesis
  proof (cases rule: add_if_write [where 'r = int and path = src and L = L and l = l])
    case (added g1)
    note from1 = added
    have f: "forgets src g g1" using added(2) by (simp add: forgets_def)
    have "lock_wf g1" using f by (simp add: forgets_def)
    from added(3) this show thesis
    proof (cases rule: add_if_read [where 'r = int and path = dst and L = L and l = "l\<lparr>f_list := f_list l @ if_of g src\<rparr>"])
      case (added w)
      have "move_lock L src dst (l, g) = (Next, (l\<lparr>f_list := f_list l @ move_ifs g src dst\<rparr>, g1\<lparr>lib := w\<rparr>))"
        using added from1(1) r Some by (simp add: move_lock_def flow_simps move_ifs_def if_of_forgets [OF f])
      from this show thesis
        by (rule held) (use from1 f in \<open>auto simp: rw_def pool_inv_def forgets_def lock_wf_def lock_entry_def\<close>)
    next
      case (failed l' w e')
      have "move_lock L src dst (l, g) = (Brk, (l', g1\<lparr>lib := w, ex := e'\<rparr>))"
        using failed from1(1) r Some by (simp add: move_lock_def flow_simps)
      then show thesis by (rule that(2)) (use from1 failed in \<open>auto simp: pool_inv_def\<close>)
    qed
  next
    case (failed l' w e')
    have "move_lock L src dst (l, g) = (Brk, (l', ?g\<lparr>lib := w, ex := e'\<rparr>))"
      using failed r Some by (simp add: move_lock_def flow_simps)
    then show thesis by (rule that(2)) (use I failed in \<open>auto simp: pool_inv_def\<close>)
  qed
qed

subsection \<open>MOVE\<close>

definition move_headers :: "'w libs \<Rightarrow> string \<Rightarrow> bool \<Rightarrow> (dframe \<times> ('w, 'a) davw_scheme, int) stmt list" where
  "move_headers L dst nooverwrite = [
     throwable (assign_list (\<lambda>l. dav_header_destination L l dst)),
     whenc (\<lambda>_. nooverwrite) (throwable (assign_list (\<lambda>l. curl_slist_append_e L l ''Overwrite: F'')))]"

definition move_block :: "'w libs \<Rightarrow> string \<Rightarrow> string \<Rightarrow> bool \<Rightarrow> addr \<Rightarrow> ('w, 'a, int) davs" where
  "move_block L src dst nooverwrite curl =
     block (move_headers L dst nooverwrite @ [move_lock L src dst] @ bare_send L ''MOVE'' curl @ [whenc locking rw_unlock])"

lemma dav_move_body:
  "dav_move_common L src dst nooverwrite = scoped_method L src (move_block L src dst nooverwrite)"
  by (simp add: dav_move_common_def scoped_method_def move_block_def move_headers_def move_lock_def bare_send_def plain_send_def)

lemma tidy_move_headers: "tidy {} (framed (server_is s) L U) (block (move_headers L dst nooverwrite))"
  unfolding move_headers_def
  by (intro tidy_intros runs_intros snapshot.runs_assign_list snapshot.gives_header_destination)

lemma move_headers_list:
  fixes g :: "('w, 'a) davw_scheme"
  assumes "block (move_headers L dst nooverwrite) (l, g) = (Next, (l', g'))" "\<not> has g" "\<not> has g'"
  shows "\<exists>url w. destination_url L (sv_baseuh g) dst url \<and> g' = g\<lparr>lib := w\<rparr> \<and>
    f_list l' = f_list l @ (''Destination: '' @ url) # (if nooverwrite then [''Overwrite: F''] else [])"
proof -
  obtain f1 g1 where 1: "dav_header_destination L (f_list l) dst g = (f1, g1)" by fastforce
  have "\<exists>l1. f1 = Ret l1 \<and> \<not> has g1 \<and> f_list l' = l1 @ (if nooverwrite then [''Overwrite: F''] else []) \<and> (\<exists>w. g' = g1\<lparr>lib := w\<rparr>)"
    using assms 1 by (cases f1) (auto simp: move_headers_def flow_simps assign_list_def curl_slist_append_e_def lib_call_def
        split: if_splits prod.splits intro: exI [of _ "lib g'"])
  with header_destination_list [of L "f_list l" dst g] 1 assms(2) show ?thesis by force
qed

text \<open>The MOVE of \<open>src\<close> to \<open>dst\<close> as the server sees it: the new address, whether it may be overwritten, and the
  tokens of the locks that the client has on the two names.\<close>

definition move_rq :: "'w libs \<Rightarrow> string \<Rightarrow> string \<Rightarrow> bool \<Rightarrow> ('w, 'a) davw_scheme \<Rightarrow> easy_opts \<Rightarrow> request \<Rightarrow> bool" where
  "move_rq L src dst nooverwrite g m rq \<longleftrightarrow> (\<exists>url. destination_url L (sv_baseuh g) dst url \<and>
     rq = bare_rq ''MOVE'' m ((''Destination: '' @ url) # (if nooverwrite then [''Overwrite: F''] else []) @ move_ifs g src dst))"

lemma move_rq_server_is: "server_is s g \<Longrightarrow> move_rq L src dst n g = move_rq L src dst n s"
  by (intro ext) (simp add: move_rq_def move_ifs_def if_of_def server_is_def split: option.split)

definition move_done :: "'w libs \<Rightarrow> string \<Rightarrow> string \<Rightarrow> bool \<Rightarrow> ('w, 'a) davw_scheme \<Rightarrow> ('w, 'a) davw_scheme \<Rightarrow> bool" where
  "move_done L src dst nooverwrite g g' \<longleftrightarrow> (\<exists>m rq. taken L g src m \<and> move_rq L src dst nooverwrite g m rq \<and> last_sent L rq g')"

lemma move_block_cases:
  fixes g :: "('w, 'a) davw_scheme"
  assumes n: "setopt_ok L" and I: "pool_inv L U g" "h \<in> U" "lock_wf g" "rw g = (0, False)" and e: "\<not> has g"
    and lk: "use_lock (sv_options g)" and l: "f_list l = []" and m: "easy g h = Some m" "m CURLOPT_READDATA = None"
  obtains (moved) rq l' g' where "move_block L src dst nooverwrite h (l, g) = (Next, (l', g'))" "\<not> has g'" "pool_inv L U g'"
      "forgets src g g'" "rw g' = (0, False)" "move_rq L src dst nooverwrite g m rq" "answered L rq g'"
  | (failed) l' g' where "move_block L src dst nooverwrite h (l, g) = (Brk, (l', g'))" "has g'" "pool_inv L U g'"
proof -
  have "framed (server_is g) L U g" using I by (simp add: framed_def)
  with tidy_move_headers [of g L U dst nooverwrite, unfolded tidy_def] show thesis
  proof (cases rule: postE [where l = l])
    case (ok f l1 g1)
    have g1: "pool_inv L U g1" "server_is g g1" using ok(2) by (simp_all add: framed_def)
    have s1: "lock_wf g1" "rw g1 = (0, False)" "use_lock (sv_options g1)"
      using lock_wf_server_is [OF g1(2) I(3)] rw_server_is [OF g1(2)] g1(2) I(4) lk by (simp_all add: server_is_def)
    from ok(3) consider (go) "f = Next" "\<not> has g1" | (stop) "f = Brk" "has g1" using e by auto
    then show thesis
    proof cases
      case go
      from move_headers_list [of L dst nooverwrite l g l1 g1] ok(1) go e l obtain url where
        url: "destination_url L (sv_baseuh g) dst url" "easy g1 = easy g"
          "f_list l1 = (''Destination: '' @ url) # (if nooverwrite then [''Overwrite: F''] else [])" by auto
      from g1(1) s1(1,2) go(2) s1(3) show thesis
      proof (cases rule: move_lock_cases [where L = L and src = src and dst = dst and l = l1])
        case (held l2 g2)
        have s2: "use_lock (sv_options g2)" "easy g2 h = Some m" using held(4,7) s1(3) url(2) m(1) by (simp_all add: forgets_def)
        from n held(3) I(2) held(2) s2 m(2) show thesis
        proof (cases rule: bare_end_cases [where 'r = int and l = l2 and mth = "''MOVE''"])
          case (sent g3)
          have "move_rq L src dst nooverwrite g1 m (bare_rq ''MOVE'' m (f_list l2))"
            using url held(6) g1(2) unfolding move_rq_def by (auto simp: server_is_def)
          with sent(5) move_rq_server_is [OF g1(2)] rw_given_back [of g3] rw_server_is [OF sent(4)] held(5)
            forgets_server_is(2) [OF forgets_server_is(1) [OF g1(2) held(4)] sent(4)] sent ok(1) go held(1)
          show thesis by (intro that(1) [of l2 "given_back g3"]) (auto simp: move_block_def block_append)
        next
          case (failed g3)
          then show thesis using ok(1) go held(1) by (intro that(2)) (auto simp: move_block_def block_append)
        qed
      next
        case (failed l' g')
        then show thesis using ok(1) go by (intro that(2)) (auto simp: move_block_def block_append)
      qed
    next
      case stop
      then show thesis using ok(1) g1 by (intro that(2)) (auto simp: move_block_def block_append)
    qed
  qed simp
qed

lemma dav_move_cases:
  fixes g :: "('w, 'a) davw_scheme"
  assumes n: "setopt_ok L" and I: "pool_inv L U g" "lock_wf g" "rw g = (0, False)" and lk: "use_lock (sv_options g)"
  obtains (moved) g' where "dav_move_common L src dst nooverwrite g = (Ret 0, g')" "\<not> has g'" "pool_inv L U g'"
      "forgets src g g'" "rw g' = (0, False)" "move_done L src dst nooverwrite g g'"
  | (failed) g' where "dav_move_common L src dst nooverwrite g = (Ret 1, g')" "has g'" "pool_inv L U g'"
proof -
  let ?b = "move_block L src dst nooverwrite" and ?l = "(dframe0 L)\<lparr>f_list := []\<rparr>"
  let ?Q = "\<lambda>m g3. forgets src g g3 \<and> rw g3 = (0, False) \<and> (\<exists>rq. move_rq L src dst nooverwrite g m rq \<and> answered L rq g3)"
  have "block_ends L U g src (dframe0 L) ?b ?Q (\<lambda>_. True)"
    unfolding block_ends_def server_ends_def
  proof (intro allI impI, elim conjE)
    fix h g1 m assume 1: "pool_inv L (insert h U) g1" "server_is g g1" "\<not> has g1" "easy g1 h = Some m" "m CURLOPT_READDATA = None"
    have s1: "lock_wf g1" "rw g1 = (0, False)" "use_lock (sv_options g1)" "f_list ?l = []"
      using lock_wf_server_is [OF 1(2) I(2)] rw_server_is [OF 1(2)] I(3) lk 1(2) by (simp_all add: server_is_def)
    from n 1(1) insertI1 s1(1,2) 1(3) s1(3,4) 1(4,5)
    show "\<exists>f l3 g3. ?b h (?l, g1) = (f, (l3, g3)) \<and> pool_inv L (insert h U) g3 \<and> (f = Next \<and> \<not> has g3 \<and> ?Q m g3 \<or> f = Brk \<and> has g3 \<and> True)"
      by (cases rule: move_block_cases [where src = src and dst = dst and nooverwrite = nooverwrite])
        (use forgets_server_is(1) [OF 1(2)] move_rq_server_is [OF 1(2)] in \<open>auto 4 4\<close>)
  qed
  moreover have "\<forall>g1. server_is g g1 \<and> no_handle L g src \<longrightarrow> True" by simp
  ultimately show thesis
  proof (cases rule: scoped_cases [OF I(1), consumes 2, case_names sent failed])
    case (sent m l' g3 g4)
    then have "move_done L src dst nooverwrite g g4" by (auto simp: move_done_def)
    with sent scoped_method_end [OF sent(1)] forgets_server_is(2) rw_server_is [OF sent(6)] show thesis
      by (intro moved [of g4]) (auto simp: dav_move_body)
  next
    case (failed l' g3 g4)
    with scoped_method_end [OF failed(1)] show thesis by (intro that(2) [of g4]) (auto simp: dav_move_body)
  qed
qed

subsection \<open>Properties\<close>


lemma client0_allow [simp]: "sv_allow (client0 t m n) k"
  by (simp add: client0_def)


end
