(* ===== verification/Dav_Put_Laws.thy ===== *)
theory Dav_Put_Laws
  imports Dav_Table_Laws
begin

text \<open>
  The other way of the data: a write that is reported as done has sent exactly the bytes it was
  given, at the right place of the file.
\<close>

subsection \<open>Sending\<close>

abbreviation put_opts :: "easy_opts \<Rightarrow> string \<Rightarrow> u64 \<Rightarrow> u64 \<Rightarrow> easy_opts" where
  "put_opts m data offset sz \<equiv> m(CURLOPT_UPLOAD \<mapsto> VLong 1, CURLOPT_READDATA \<mapsto> VBuf (Buffer_init_exist data sz False),
     CURLOPT_READFUNCTION \<mapsto> VFun CB_Buffer_fetch, CURLOPT_RANGE \<mapsto> VStr (Some (range_value offset sz)),
     CURLOPT_INFILESIZE \<mapsto> VLong (sint sz))"

text \<open>The PUT of \<open>data\<close> to \<open>path\<close> as the server sees it: the bytes, their place in the file, and with locks the
  token of the lock that the client has on the name. It was the last request, and answered with success.\<close>

definition put_rq :: "easy_opts \<Rightarrow> string \<Rightarrow> u64 \<Rightarrow> u64 \<Rightarrow> request" where
  "put_rq m data offset sz = \<lparr>rq_opts = put_opts m data offset sz, rq_body = data\<rparr>"

definition with_if :: "('w, 'a) davw_scheme \<Rightarrow> string \<Rightarrow> easy_opts \<Rightarrow> easy_opts" where
  "with_if g path m = (if use_lock (sv_options g) then m(CURLOPT_HTTPHEADER \<mapsto> VList (if_of g path)) else m)"

definition put_done :: "'w libs \<Rightarrow> string \<Rightarrow> string \<Rightarrow> u64 \<Rightarrow> u64 \<Rightarrow> ('w, 'a) davw_scheme \<Rightarrow> ('w, 'a) davw_scheme \<Rightarrow> bool" where
  "put_done L path data offset sz g g' \<longleftrightarrow> (\<exists>m. taken L g path m \<and> last_sent L (put_rq (with_if g path m) data offset sz) g')"

lemma with_if_server_is: "server_is s g \<Longrightarrow> with_if g = with_if s"
  by (intro ext) (simp add: with_if_def if_of_def server_is_def split: option.split)

definition put_send :: "'w libs \<Rightarrow> string \<Rightarrow> u64 \<Rightarrow> u64 \<Rightarrow> addr \<Rightarrow> (dframe \<times> ('w, 'a) davw_scheme, int) stmt list" where
  "put_send L data offset sz curl = [
     setopt L curl CURLOPT_UPLOAD (VLong 1),
     setopt_upload L curl (Buffer_init_exist data sz False),
     throwable (with_range offset sz (\<lambda>range.
       curl_easy_setopt_or_die L curl CURLOPT_RANGE (VStr (Some range)))),
     setopt L curl CURLOPT_INFILESIZE (VLong (sint sz)),
     curl_easy_perform_or_die L curl no_callback no_callback]"

definition put_lock :: "'w libs \<Rightarrow> string \<Rightarrow> addr \<Rightarrow> ('w, 'a, int) davs" where
  "put_lock L path curl = whenc locking (block [rw_rdlock, add_if L path RW_LOCK_READ, setopt_list L curl])"

definition put_block :: "'w libs \<Rightarrow> string \<Rightarrow> string \<Rightarrow> u64 \<Rightarrow> u64 \<Rightarrow> addr \<Rightarrow> ('w, 'a, int) davs" where
  "put_block L path data offset sz curl = block (put_lock L path curl # put_send L data offset sz curl @ [whenc locking rw_unlock])"

lemma dav_put_body:
  "dav_put L path data sz offset = fn (dframe0 L) (block [
     with_seperated skip skip (throwable
       (with_server L (Some path) (\<lambda>curl. throwable (scope_slist L None (put_block L path data offset sz curl))))),
     ret_status])"
  by (simp add: dav_put_def with_buffer_def put_block_def put_lock_def put_send_def)

lemma upload_exact:
  assumes "length data = unat sz" "lib_chunk L \<noteq> 0" "unat sz + unat (lib_chunk L) < 2 ^ 64"
    and "m CURLOPT_READDATA = Some (VBuf (Buffer_init_exist data sz False))"
  shows "upload_body L m g = (Ret data, g)"
proof -
  let ?b = "Buffer_init_exist data sz False"
  have "fetch_ok ?b (lib_chunk L)"
    using assms by (simp add: fetch_ok_def Buffer_init_exist_wf) (simp add: Buffer_init_exist_def)
  from fetch_buffer.drain_all [OF this assms(2), of "Suc (length (bdata ?b))" g] obtain b' where
    "drain (Suc (length (bdata ?b))) Buffer_fetch (lib_chunk L) ?b g = (Ret (Some (data, b')), g)"
    by (auto simp: Buffer_init_exist_rest simp del: drain.simps) (auto simp: Buffer_init_exist_def)
  then show ?thesis using assms(4) by (simp add: upload_body_def flow_simps del: drain.simps)
qed

lemma put_send_run:
  fixes g :: "('w, 'a) davw_scheme"
  assumes L: "setopt_ok L" "lib_chunk L \<noteq> 0" and I: "pool_inv L U g" and e: "\<not> has g" and m: "easy g h = Some m"
    and d: "length data = unat sz" "unat sz + unat (lib_chunk L) < 2 ^ 64"
  obtains f g' where "block (put_send L data offset sz h) (l, g) = (f, (l, g'))" "pool_inv L U g'" "server_is g g'"
    "f = Next \<and> \<not> has g' \<and> answered L (put_rq m data offset sz) g' \<or> f = Brk \<and> has g'"
proof -
  let ?b = "Buffer_init_exist data sz False"
  let ?m = "put_opts m data offset sz"
  define w where "w = setopts L [(CURLOPT_UPLOAD, VLong 1), (CURLOPT_READDATA, VBuf ?b), (CURLOPT_READFUNCTION, VFun CB_Buffer_fetch),
    (CURLOPT_RANGE, VStr (Some (range_value offset sz))), (CURLOPT_INFILESIZE, VLong (sint sz))] (lib g)"
  let ?g = "g\<lparr>lib := w, easy := (easy g)(h \<mapsto> ?m)\<rparr>"
  have "fetch_ok ?b (lib_chunk L)"
    using d by (simp add: fetch_ok_def Buffer_init_exist_wf) (simp add: Buffer_init_exist_def)
  then have s: "sendable L ?m" by (simp add: sendable_def)
  have i: "pool_inv L U (g\<lparr>easy := (easy g)(h \<mapsto> ?m)\<rparr>)" by (rule pool_inv_setopts [OF I m s])
  have u: "upload_body L ?m ?g = (Ret data, ?g)" using d L(2) by (intro upload_exact) simp_all
  obtain t w' where t: "lib_perform L (put_rq m data offset sz) w = (t, w')" by fastforce
  let ?g2 = "?g\<lparr>lib := w', last_transfer := (last_transfer g)(h := t)\<rparr>"
  have p: "curl_easy_perform L h no_callback no_callback l ?g = (Ret (t_code t, l), ?g2)"
    using perform_eq [of ?g h ?m L data t w' no_callback no_callback l] u t
    by (simp add: deliver_def callback_for_none feed_no_callback put_rq_def)
  let ?g3 = "if t_code t = CURLE_OK then ?g2
    else ?g2\<lparr>ex := (CurlException_init (ex g) (t_code t) CURL_PERFORM CURLOPT_URL (t_response_code t))\<lparr>ex_set := 1\<rparr>\<rparr>"
  have r: "block (put_send L data offset sz h) (l, g) = (if t_code t = CURLE_OK then Next else Brk, (l, ?g3))"
    using p e m
    by (simp add: put_send_def with_range_def flow_simps curl_easy_setopt_or_die_def setopt_def setopt_upload_def
        setopt_eq [OF L(1)] curl_easy_perform_or_die_def w_def)
  show thesis
    by (rule that [OF r]) (use i e t in \<open>auto simp: Exception_has_def server_is_def answered_def\<close>)
qed

lemma put_lock_cases:
  fixes g :: "('w, 'a) davw_scheme"
  assumes L: "setopt_ok L" and I: "pool_inv L U g" "lock_wf g" "\<not> sv_writer g" and e: "\<not> has g" and m: "easy g h = Some m" "h \<in> U"
    and l: "f_list l = []"
  obtains (ready) l' g' where "put_lock L path h (l, g) = (Next, (l', g'))" "\<not> has g'" "pool_inv L U g'" "server_is (reading g) g'"
      "easy g' h = Some (with_if g path m)"
  | (failed) l' g' where "put_lock L path h (l, g) = (Brk, (l', g'))" "has g'" "pool_inv L U g'" "server_is (reading g) g'"
proof (cases "use_lock (sv_options g)")
  case False
  then have "put_lock L path h (l, g) = (Next, (l, g))" by (simp add: put_lock_def whenc_simp locking_def)
  then show thesis by (rule ready) (use False e I m in \<open>auto simp: reading_def with_if_def\<close>)
next
  case True
  note lk = this put_lock_def whenc_simp locking_def reading_def
  from e I(2,3,1) show thesis
  proof (cases rule: read_if_cases [where 'r = int and path = path and l = l])
    case (added g1)
    let ?l = "l\<lparr>f_list := if_of g path\<rparr>"
    have e1: "easy g1 h = Some m" using added(5) m by simp
    obtain g2 where g2: "(setopt_list L h :: ('w, 'a, int) davs) (?l, g1) = (Next, (?l, g2))" "pool_inv L U g2" "server_is g1 g2"
        "\<not> has g2" "easy g2 h = Some (m(CURLOPT_HTTPHEADER \<mapsto> VList (if_of g path)))"
      by (rule setopt_list_run [where 'r = int, OF L added(3) m(2) added(2) e1, of ?l]) simp
    have "put_lock L path h (l, g) = (Next, (?l, g2))" using read_if_snoc [OF added(1)] g2(1) l by (simp add: lk)
    then show thesis
      by (rule ready) (use g2 True server_is_trans [OF added(4) g2(3)] in \<open>simp_all add: reading_def with_if_def\<close>)
  next
    case (failed l' g1)
    have "put_lock L path h (l, g) = (Brk, (l', g1))" using read_if_snoc [OF failed(1)] by (simp add: lk)
    then show thesis by (rule that(2)) (use True failed in \<open>simp_all add: reading_def\<close>)
  qed
qed

lemma put_block_cases:
  fixes g :: "('w, 'a) davw_scheme"
  assumes L: "setopt_ok L" "lib_chunk L \<noteq> 0" and I: "pool_inv L U g" "lock_wf g" "\<not> sv_writer g" and e: "\<not> has g"
    and m: "easy g h = Some m" "h \<in> U" and d: "length data = unat sz" "unat sz + unat (lib_chunk L) < 2 ^ 64" and l: "f_list l = []"
  obtains (sent) l' g' where "put_block L path data offset sz h (l, g) = (Next, (l', g'))" "\<not> has g'" "pool_inv L U g'" "server_is g g'"
      "answered L (put_rq (with_if g path m) data offset sz) g'"
  | (failed) l' g' where "put_block L path data offset sz h (l, g) = (Brk, (l', g'))" "has g'" "pool_inv L U g'" "server_is (reading g) g'"
  using L(1) I e m l
proof (cases rule: put_lock_cases [where path = path])
  case (ready l1 g1)
  from put_send_run [OF L ready(3,2,5) d, of offset l1] obtain f g2 where
    b: "block (put_send L data offset sz h) (l1, g1) = (f, (l1, g2))" "pool_inv L U g2" "server_is g1 g2" and
    f: "f = Next \<and> \<not> has g2 \<and> answered L (put_rq (with_if g path m) data offset sz) g2 \<or> f = Brk \<and> has g2" by blast
  have s: "server_is (reading g) g2" by (rule server_is_trans [OF ready(4) b(3)])
  then have lk: "locking (l1, g2) = use_lock (sv_options g)" by (simp add: locking_def server_is_def reading_def)
  note run = put_block_def ready(1) b(1) block_append whenc_simp lk rw_unlock_given_back
  show thesis
  proof (cases "f = Next")
    case True
    let ?g = "if use_lock (sv_options g) then given_back g2 else g2"
    have "put_block L path data offset sz h (l, g) = (Next, (l1, ?g))" using True by (simp add: run)
    then show thesis by (rule sent) (use f True b s given_back_reading [OF s I(3)] in \<open>auto simp: reading_def\<close>)
  next
    case False
    then have "put_block L path data offset sz h (l, g) = (Brk, (l1, g2))" using f by (simp add: run)
    then show thesis by (rule failed) (use f False b s in auto)
  qed
next
  case (failed l' g')
  then show thesis by (intro that(2) [of l' g']) (simp_all add: put_block_def)
qed

lemma dav_put_cases:
  fixes g :: "('w, 'a) davw_scheme"
  assumes L: "setopt_ok L" "lib_chunk L \<noteq> 0" and I: "pool_inv L U g" "lock_wf g" "\<not> sv_writer g" and e: "\<not> has g"
    and d: "length data = unat sz" "unat sz + unat (lib_chunk L) < 2 ^ 64"
  obtains (sent) g' where "dav_put L path data sz offset g = (Ret 0, g')" "\<not> has g'" "pool_inv L U g'" "server_is g g'"
      "put_done L path data offset sz g g'"
  | (failed) g' where "dav_put L path data sz offset g = (Ret 1, g')" "has g'" "pool_inv L U g'" "read_left g g'"
proof -
  let ?b = "put_block L path data offset sz" and ?l = "(dframe0 L)\<lparr>f_list := []\<rparr>"
  let ?Q = "\<lambda>m g3. server_is g g3 \<and> answered L (put_rq (with_if g path m) data offset sz) g3"
  have eq: "dav_put L path data sz offset g = (Ret (if has g4 then 1 else 0), g4)"
    if "with_server L (Some path) (\<lambda>curl. throwable (scope_slist L None (?b curl))) (dframe0 L, g) = (Next, (l4, g4))" for l4 g4
    using that e by (simp add: dav_put_body flow_simps ret_status_def TEST_SUCCESS_def)
  have "block_ends L U g path (dframe0 L) ?b ?Q (read_left g)"
    unfolding block_ends_def server_ends_def
  proof (intro allI impI, elim conjE)
    fix h g1 m assume 1: "pool_inv L (insert h U) g1" "server_is g g1" "\<not> has g1" "easy g1 h = Some m"
    have s1: "lock_wf g1" "\<not> sv_writer g1" "f_list ?l = []" using lock_wf_server_is [OF 1(2) I(2)] I(3) 1(2) by (simp_all add: server_is_def)
    note t = reading_server_is [OF 1(2)] server_is_trans [OF 1(2)]
    from L 1(1) s1(1,2) 1(3,4) insertI1 d s1(3)
    show "\<exists>f l3 g3. ?b h (?l, g1) = (f, (l3, g3)) \<and> pool_inv L (insert h U) g3 \<and> (f = Next \<and> \<not> has g3 \<and> ?Q m g3 \<or> f = Brk \<and> has g3 \<and> read_left g g3)"
      by (cases rule: put_block_cases [where path = path and offset = offset])
        (use t with_if_server_is [OF 1(2)] in \<open>auto simp: read_left_def\<close>)
  qed
  moreover have "\<forall>g1. server_is g g1 \<and> no_handle L g path \<longrightarrow> read_left g g1" by (simp add: read_left_def)
  ultimately show thesis
  proof (cases rule: scoped_cases [OF I(1), consumes 2, case_names sent failed])
    case (sent m l' g3 g4)
    then have "put_done L path data offset sz g g4" by (auto simp: put_done_def)
    with sent eq [OF sent(1)] server_is_trans show thesis by (intro that(1) [of g4]) auto
  next
    case (failed l' g3 g4)
    then have "read_left g g4" unfolding read_left_def using server_is_trans by blast
    with failed eq [OF failed(1)] show thesis by (intro that(2) [of g4]) auto
  qed
qed

subsection \<open>Writing\<close>

definition head_request :: "'w libs \<Rightarrow> u64 option \<Rightarrow> addr \<Rightarrow> ('w, 'a, int \<times> u64) davs" where
  "head_request L sizep curl = block [
     curl_easy_setopt_or_die L curl CURLOPT_CUSTOMREQUEST (VStr (Some ''HEAD'')),
     setopt L curl CURLOPT_NOBODY (VLong 1),
     whenc (\<lambda>_. sizep \<noteq> None) (block [
       setl (\<lambda>f. f\<lparr>f_size := 0\<rparr>),
       setopt L curl CURLOPT_HEADERDATA VPtr,
       setopt L curl CURLOPT_HEADERFUNCTION (VFun CB_dav_head_callback)]),
     curl_easy_perform_or_die L curl dav_head_callback no_callback]"

lemma ends_head_request:
  assumes "lib_chunk L \<noteq> 0"
  shows "ends {} (framed (server_is s) L U) (with_server L path (head_request L sz) :: ('w, 'a, int \<times> u64) davs)"
  using assms unfolding head_request_def dav_head_callback_def
  by (intro runs_intros snapshot.ends_with_server | simp)+

lemma head_cases:
  fixes g :: "('w, 'a) davw_scheme"
  assumes "lib_chunk L \<noteq> 0" "pool_inv L U g"
  obtains n g' where "dav_head L path sz g = (Ret (if has g' then 1 else 0, n), g')" "pool_inv L U g'" "server_is g g'"
proof -
  let ?l = "(dframe0 L)\<lparr>f_size := (case sz of None \<Rightarrow> 0 | Some n \<Rightarrow> n)\<rparr>"
  have "framed (server_is g) L U g" using assms(2) by (simp add: framed_def)
  with ends_head_request [OF assms(1), of g U "Some path" sz, unfolded ends_def] show thesis
    by (cases rule: postE [where l = ?l])
      (use that in \<open>auto simp: dav_head_def head_request_def [abs_def] flow_simps TEST_SUCCESS_def framed_def\<close>)
qed

text \<open>The states on the way of a write: the lock table is the one at the start, and no thread writes it.\<close>

definition write_inv :: "'w libs \<Rightarrow> addr set \<Rightarrow> ('w, 'a) davw_scheme \<Rightarrow> ('w, 'a) davw_scheme \<Rightarrow> bool" where
  "write_inv L U s g \<longleftrightarrow> pool_inv L U g \<and> (\<exists>n. server_is (s\<lparr>sv_readers := n\<rparr>) g) \<and> lock_wf s \<and> \<not> sv_writer s"

lemma write_invD: "write_inv L U s g \<Longrightarrow> pool_inv L U g \<and> lock_wf g \<and> \<not> sv_writer g"
  using lock_wf_server_is [of "s\<lparr>sv_readers := n\<rparr>" g for n]
  by (auto simp: write_inv_def) (auto simp: server_is_def lock_wf_def)

lemma write_inv_step:
  assumes "write_inv L U s g" "pool_inv L U g'" "read_left g g' \<or> server_is g g'"
  shows "write_inv L U s g'"
proof -
  from assms(1) obtain n where n: "server_is (s\<lparr>sv_readers := n\<rparr>) g" by (auto simp: write_inv_def)
  have "\<exists>n. server_is (s\<lparr>sv_readers := n\<rparr>) g'"
    using assms(3) n by (cases "use_lock (sv_options g)") (auto simp: read_left_def reading_def server_is_def)
  with assms(1,2) show ?thesis by (simp add: write_inv_def)
qed

lemma write_inv_ex [simp]: "write_inv L U s (g\<lparr>ex := e\<rparr>) = write_inv L U s g"
  by (simp add: write_inv_def server_is_def pool_inv_def)

text \<open>The state in which \<open>dav_write\<close> ends, and the number it returns.\<close>

definition write_end :: "'w libs \<Rightarrow> addr set \<Rightarrow> string \<Rightarrow> string \<Rightarrow> u64 \<Rightarrow> u64 \<Rightarrow> ('w, 'a) davw_scheme \<Rightarrow>
    int flow \<times> ('w, 'a) davw_scheme \<Rightarrow> bool" where
  "write_end L U path buf offset sz s x \<longleftrightarrow> (\<exists>r g'. x = (Ret r, g') \<and> \<not> has g' \<and> write_inv L U s g' \<and>
     (r = to_int32 sz \<and> (\<exists>g. write_inv L U s g \<and> put_done L path buf offset sz g g') \<or> r < 0))"

lemma write_end_map:
  "write_inv L U s g \<Longrightarrow> write_end L U path buf offset sz s (Ret (exception_errno (ex g)), g\<lparr>ex := Exception_destory (ex g)\<rparr>)"
  by (auto simp: write_end_def exception_errno_neg)

text \<open>With an exception from before nothing is sent.\<close>

lemma dav_put_stale: "has g \<Longrightarrow> dav_put L path data sz offset g = (Ret 1, g)"
  by (simp add: dav_put_def with_buffer_def flow_simps ret_status_def TEST_SUCCESS_def)

lemma write_put_cases:
  fixes g :: "('w, 'a) davw_scheme"
  assumes L: "setopt_ok L" "lib_chunk L \<noteq> 0" and I: "write_inv L U s g"
    and d: "length data = unat sz" "unat sz + unat (lib_chunk L) < 2 ^ 64"
  obtains (sent) g' where "dav_put L path data sz offset g = (Ret 0, g')" "\<not> has g'" "write_inv L U s g'"
      "write_end L U path data offset sz s (Ret (to_int32 sz), g')"
  | (failed) g' where "dav_put L path data sz offset g = (Ret 1, g')" "has g'" "write_inv L U s g'"
proof (cases "has g")
  case True
  then have "dav_put L path data sz offset g = (Ret 1, g)" by (rule dav_put_stale)
  with True I that(2) show thesis by blast
next
  case e: False
  from write_invD [OF I] have i: "pool_inv L U g" "lock_wf g" "\<not> sv_writer g" by auto
  from L i e d show thesis
  proof (cases rule: dav_put_cases [where path = path and offset = offset])
    case (sent g')
    from write_inv_step [OF I sent(3)] sent(4) have "write_inv L U s g'" by simp
    with sent I that(1) [of g'] show thesis unfolding write_end_def by blast
  next
    case (failed g')
    with write_inv_step [OF I failed(3)] that(2) show thesis by simp
  qed
qed

lemma zeros_length: "length (zeros n) = unat n"
  by (simp add: zeros_def)

lemma to_unsigned_le: "to_unsigned n \<le> n"
proof -
  have "to_unsigned n = take_bit 32 n"
    by (rule bit_word_eqI) (auto simp: to_unsigned_def bit_ucast_iff bit_take_bit_iff)
  then show ?thesis by (simp add: word_le_nat_alt unsigned_take_bit_eq take_bit_nat_less_eq_self)
qed

lemma padding_fits:
  assumes "n < to_unsigned offset" "unat offset + k < 2 ^ 64"
  shows "unat (offset - n) + k < 2 ^ 64"
proof -
  have "n \<le> offset" using assms(1) to_unsigned_le [of offset] by order
  then have "unat (offset - n) = unat offset - unat n" by (rule unat_sub)
  with assms(2) show ?thesis by simp
qed

text \<open>The second attempt, after the gap is filled or when there is none.\<close>

lemma write_retry:
  fixes g :: "('w, 'a) davw_scheme"
  assumes L: "setopt_ok L" "lib_chunk L \<noteq> 0" and I: "write_inv L U s g3" and e: "\<not> has g2"
    and d: "length buf = unat sz" "unat sz + unat (lib_chunk L) < 2 ^ 64"
    and put1: "dav_put L path buf sz offset g = (Ret 1, g1)" "http_416 (ex g1)"
    and head: "dav_head L path (Some 0) (g1\<lparr>ex := Exception_destory (ex g1)\<rparr>) = (Ret (0, n), g2)"
    and pad: "if n < to_unsigned offset then dav_put L path (zeros (offset - n)) (offset - n) n g2 = (Ret 0, g3) else g3 = g2"
  shows "write_end L U path buf offset sz s (dav_write L path buf sz offset g)"
proof -
  note run = dav_write_def flow_simps set_res_def ret_call_def dav_exception_map_def put1(1) head
  have c: "issubtype (ex g1) CurlException_vt" "ex_code (ex g1) = 22" "ex_response_code (ex g1) = 416"
    using put1(2) by (auto simp: http_416_def http_error_def)
  from L I d show ?thesis
  proof (cases rule: write_put_cases [where path = path and offset = offset])
    case (sent g4)
    then have "dav_write L path buf sz offset g = (Ret (to_int32 sz), g4)"
      using pad e c by (auto simp: run split: if_splits)
    with sent(4) show ?thesis by simp
  next
    case (failed g4)
    then have "dav_write L path buf sz offset g = (Ret (exception_errno (ex g4)), g4\<lparr>ex := Exception_destory (ex g4)\<rparr>)"
      using pad e c by (auto simp: run split: if_splits)
    with write_end_map [OF failed(3)] show ?thesis by simp
  qed
qed

text \<open>A failure on the way there.\<close>

lemma write_gives_up:
  assumes "dav_put L path buf sz offset g = (Ret 1, g1)" "http_416 (ex g1)"
    and "dav_head L path (Some 0) (g1\<lparr>ex := Exception_destory (ex g1)\<rparr>) = (Ret (res, n), g2)"
    and "res \<noteq> 0 \<and> g3 = g2 \<or>
      res = 0 \<and> n < to_unsigned offset \<and> dav_put L path (zeros (offset - n)) (offset - n) n g2 = (Ret 1, g3)"
  shows "dav_write L path buf sz offset g = (Ret (exception_errno (ex g3)), g3\<lparr>ex := Exception_destory (ex g3)\<rparr>)"
  using assms
  by (auto simp: dav_write_def flow_simps set_res_def ret_call_def dav_exception_map_def http_416_def http_error_def)

lemma dav_write_416:
  fixes g :: "('w, 'a) davw_scheme"
  assumes L: "setopt_ok L" "lib_chunk L \<noteq> 0" and I: "write_inv L U s g1"
    and d: "length buf = unat sz" "unat sz + unat (lib_chunk L) < 2 ^ 64" "unat offset + unat (lib_chunk L) < 2 ^ 64"
    and put1: "dav_put L path buf sz offset g = (Ret 1, g1)" "http_416 (ex g1)"
  shows "write_end L U path buf offset sz s (dav_write L path buf sz offset g)"
proof -
  let ?g1 = "g1\<lparr>ex := Exception_destory (ex g1)\<rparr>"
  have i1: "write_inv L U s ?g1" using I by simp
  from head_cases [OF L(2) write_invD [OF i1, THEN conjunct1], of path "Some 0"] obtain n g2 where
    head: "dav_head L path (Some 0) ?g1 = (Ret (if has g2 then 1 else 0, n), g2)" and
    h: "pool_inv L U g2" "server_is ?g1 g2" by blast
  from write_inv_step [OF i1 h(1)] h(2) have i2: "write_inv L U s g2" by simp
  note retry = write_retry [OF L _ _ d(1,2) put1] and stop = write_gives_up [OF put1 head]
  consider "has g2" | "\<not> has g2" "n < to_unsigned offset" | "\<not> has g2" "\<not> n < to_unsigned offset" by blast
  then show ?thesis
  proof cases
    case 1
    with stop [of g2] write_end_map [OF i2] show ?thesis by simp
  next
    case 2
    from L i2 zeros_length padding_fits [OF 2(2) d(3)] show ?thesis
    proof (cases rule: write_put_cases [where path = path and offset = n])
      case (sent g3)
      then show ?thesis using retry [of U s g3 g2 n] head 2 by simp
    next
      case (failed g3)
      then show ?thesis using stop [of g3] write_end_map [OF failed(3)] 2 by simp
    qed
  next
    case 3
    with retry [of U s g2 g2 n] i2 head show ?thesis by simp
  qed
qed

lemma dav_write_end:
  fixes g :: "('w, 'a) davw_scheme"
  assumes L: "setopt_ok L" "lib_chunk L \<noteq> 0" and I: "write_inv L U s g"
    and d: "length buf = unat sz" "unat sz + unat (lib_chunk L) < 2 ^ 64" "unat offset + unat (lib_chunk L) < 2 ^ 64"
  shows "write_end L U path buf offset sz s (dav_write L path buf sz offset g)"
  using L I d(1,2)
proof (cases rule: write_put_cases [where path = path and offset = offset])
  case (sent g1)
  then show ?thesis by (simp add: dav_write_def flow_simps set_res_def)
next
  case (failed g1)
  show ?thesis
  proof (cases "http_416 (ex g1)")
    case True
    show ?thesis by (rule dav_write_416 [OF L failed(3) d failed(1) True])
  next
    case False
    then have "dav_write L path buf sz offset g = (Ret (exception_errno (ex g1)), g1\<lparr>ex := Exception_destory (ex g1)\<rparr>)"
      using failed(1) by (auto simp: dav_write_def flow_simps set_res_def http_416_def http_error_def ret_call_def dav_exception_map_def)
    with write_end_map [OF failed(3)] show ?thesis by simp
  qed
qed

subsection \<open>Properties\<close>

text \<open>A PUT that reports success has sent exactly the bytes it was given. While no thread holds the
  write lock, \<open>dav_put\<close> ends; it returns 0 exactly when no exception is set, and then the last request
  the client made, with a handle opened for this path, was answered with success, and its body is the
  caller's data, its length and range those asked for and, with locks, its only header the token of the
  client's lock on the file; the lock table and the read-write lock are as before. With an exception it
  returns 1; then the table is as before too, but the read lock may not have been given back.\<close>

theorem dav_put_outcome:
  fixes g :: "('w, 'a) davw_scheme"
  assumes "setopt_ok L" "lib_chunk L \<noteq> 0" "pool_inv L U g" "lock_wf g" "\<not> sv_writer g" "\<not> Exception_has (ex g)"
    and "length data = unat sz" "unat sz + unat (lib_chunk L) < 2 ^ 64"
  shows "\<exists>r g'. dav_put L path data sz offset g = (Ret r, g') \<and> pool_inv L U g' \<and>
    (r = 0 \<and> \<not> Exception_has (ex g') \<and> server_is g g' \<and> put_done L path data offset sz g g' \<or>
     r = 1 \<and> Exception_has (ex g') \<and> read_left g g')"
  using assms by (cases rule: dav_put_cases [where path = path and offset = offset]) auto

theorem dav_put_outcome_witness:
  "\<exists>g'. dav_put (demo_lib reply_ok) ''/a'' ''hello'' 5 7 held0 = (Ret 0, g') \<and>
     put_done (demo_lib reply_ok) ''/a'' ''hello'' 7 5 held0 g'"
proof -
  let ?L = "demo_lib reply_ok"
  have "fst (dav_put ?L ''/a'' ''hello'' 5 7 held0) = Ret 0"
    unfolding held0_def
    by (simp add: dav_put_def with_buffer_def setopt_upload_def with_range_def curl_slist_append_e_def demo_steps
        upload_exact [of "''hello''" 5 "demo_lib reply_ok"] del: upload_body_def)
  then show ?thesis
    using dav_put_outcome [of ?L "{}" held0 "''hello''" 5 "''/a''" 7] lock_wf_client0(2) demo_setopt_ok
    by (auto simp: held0_def pool_inv_client0)
qed



end
