(* ===== verification/Dav_List_Laws.thy ===== *)
theory Dav_List_Laws
  imports Dav_Put_Laws
begin

text \<open>
  Directories: a multi-status answer that follows RFC 4918 is turned into exactly the entries it
  describes, and \<open>dav_readdir\<close> and \<open>dav_getattr\<close> hand these to the caller.
\<close>

subsection \<open>Answers as servers send them\<close>

definition text_node :: "string \<Rightarrow> xml" where
  "text_node s = XNode ''text'' None (Some s) [] []"

definition dav_node :: "string \<Rightarrow> xml list \<Rightarrow> xml" where
  "dav_node n cs = XNode n (Some ''DAV:'') None [] cs"

text \<open>A resource of the answer: its URL, and its properties in groups by status.\<close>

type_synonym resource = "string \<times> (string \<times> xml list) list"

definition propstat_node :: "string \<times> xml list \<Rightarrow> xml" where
  "propstat_node ps = dav_node ''propstat'' [dav_node ''prop'' (snd ps), dav_node ''status'' [text_node (fst ps)]]"

definition response_node :: "resource \<Rightarrow> xml" where
  "response_node res = dav_node ''response'' (dav_node ''href'' [text_node (fst res)] # map propstat_node (snd res))"

text \<open>The properties with status 200.\<close>

definition http_ok :: string where
  "http_ok = ''HTTP/1.1 200 OK''"

definition present_props :: "resource \<Rightarrow> xml list option" where
  "present_props res = map_option snd (find (\<lambda>ps. fst ps = http_ok) (snd res))"

lemmas node_defs = text_node_def dav_node_def propstat_node_def response_node_def

lemma scan_propstats:
  assumes "find (\<lambda>ps. fst ps = http_ok) pss = Some ps"
  shows "\<exists>f. scan_response (map propstat_node pss) \<lparr>fd_href = Some hr, fd_propstat = None, fd_prop = None, fd_status = None\<rparr> = Some f \<and>
    fd_href f = Some hr \<and> fd_propstat f \<noteq> None \<and> fd_prop f = Some (dav_node ''prop'' (snd ps)) \<and> fd_status f \<noteq> None"
  using assms
proof (induction pss)
  case (Cons p pss)
  show ?case
  proof (cases "fst p = http_ok")
    case True
    then show ?thesis using Cons.prems
      by (cases pss) (simp_all add: node_defs first_content_def http_ok_def)
  next
    case False
    with Cons show ?thesis by (simp add: node_defs first_content_def http_ok_def)
  qed
qed simp

lemma scan_response_node:
  assumes "present_props res = Some props"
  obtains f where "scan_response (x_children (response_node res)) found0 = Some f"
    "fd_href f = Some (dav_node ''href'' [text_node (fst res)])"
    "fd_propstat f \<noteq> None" "fd_prop f = Some (dav_node ''prop'' props)" "fd_status f \<noteq> None"
proof -
  from assms obtain ps where ps: "find (\<lambda>ps. fst ps = http_ok) (snd res) = Some ps" "props = snd ps"
    by (auto simp: present_props_def)
  from scan_propstats [OF ps(1), of "dav_node ''href'' [text_node (fst res)]"] ps(2) that show thesis
    by (auto simp: response_node_def dav_node_def found0_def)
qed

subsection \<open>One resource\<close>

text \<open>The entry a resource is listed as: none when its URL is not below that of the directory.\<close>

definition entries_of :: "'w libs \<Rightarrow> (string \<Rightarrow> string) \<Rightarrow> networkfs_opts \<Rightarrow> string \<Rightarrow> resource \<Rightarrow> (string \<times> stat option) list" where
  "entries_of L un opt base res =
     (if prefix base (fst res)
      then [(entry_name (un (drop (length base) (fst res))), response_stat L opt (the (present_props res)))] else [])"

definition res_ok :: "'w libs \<Rightarrow> networkfs_opts \<Rightarrow> resource \<Rightarrow> bool" where
  "res_ok L opt res \<longleftrightarrow> (\<exists>props st. present_props res = Some props \<and> response_stat L opt props = Some st)"

definition unescape_ok :: "'w libs \<Rightarrow> (string \<Rightarrow> string) \<Rightarrow> bool" where
  "unescape_ok L un \<longleftrightarrow> (\<forall>s w. fst (lib_unescape L s w) = Some (un s))"

lemma unescape_eq:
  assumes "unescape_ok L un"
  shows "\<exists>w'. curl_easy_unescape_e L s g = (Ret (Some (un s)), g\<lparr>lib := w'\<rparr>)"
  using assms
  by (cases "lib_unescape L s (lib g)")
    (auto simp: curl_easy_unescape_e_def lib_call_def unescape_ok_def flow_simps dest!: spec [of _ s] spec [of _ "lib g"])

lemma one_response_lists:
  fixes g :: "('w, 'a) davw_scheme"
  assumes "res_ok L (sv_options g) res" "unescape_ok L un" "\<not> has g"
  shows "\<exists>f w'. (one_response L base (response_node res) :: ('w, 'a, 'r) davs) (l, g) =
    (f, (l\<lparr>f_fill := f_fill l @ entries_of L un (sv_options g) base res\<rparr>, g\<lparr>lib := w'\<rparr>)) \<and> (f = Next \<or> f = Cont)"
proof -
  from assms(1) obtain props st where p: "present_props res = Some props" "response_stat L (sv_options g) props = Some st"
    by (auto simp: res_ok_def)
  from scan_response_node [OF p(1)] obtain f where f: "scan_response (x_children (response_node res)) found0 = Some f"
    "fd_href f = Some (dav_node ''href'' [text_node (fst res)])"
    "fd_propstat f \<noteq> None" "fd_prop f = Some (dav_node ''prop'' props)" "fd_status f \<noteq> None" by blast
  from unescape_eq [OF assms(2), of "drop (length base) (fst res)" g] obtain w' where
    u: "curl_easy_unescape_e L (drop (length base) (fst res)) g = (Ret (Some (un (drop (length base) (fst res)))), g\<lparr>lib := w'\<rparr>)" by blast
  have hr: "first_content (dav_node ''href'' [text_node (fst res)]) = Some (fst res)"
    by (simp add: first_content_def node_defs)
  have n: "x_name (response_node res) = ''response''" "x_children (dav_node ''prop'' props) = props"
    by (simp_all add: response_node_def dav_node_def)
  show ?thesis
  proof (cases "prefix base (fst res)")
    case True
    then show ?thesis using f p u assms(3) n
      by (intro exI [of _ Next] exI [of _ w'])
        (simp add: one_response_def fill_response_def flow_simps hr strscmp_prefix entries_of_def fill_def)
  next
    case False
    then show ?thesis using f p assms(3) n
      by (intro exI [of _ Cont] exI [of _ "lib g"])
        (simp add: one_response_def fill_response_def flow_simps hr strscmp_prefix entries_of_def)
  qed
qed

lemma responses_list:
  fixes g :: "('w, 'a) davw_scheme"
  assumes "\<forall>res \<in> set es. res_ok L (sv_options g) res" "unescape_ok L un" "\<not> has g"
  shows "\<exists>w'. (foreach (one_response L base) (map response_node es) :: ('w, 'a, 'r) davs) (l, g) =
    (Next, (l\<lparr>f_fill := f_fill l @ concat (map (entries_of L un (sv_options g) base) es)\<rparr>, g\<lparr>lib := w'\<rparr>))"
  using assms(1,3)
proof (induction es arbitrary: l g)
  case Nil
  then show ?case by (auto intro!: exI [of _ "lib g"])
next
  case (Cons res es)
  let ?l = "l\<lparr>f_fill := f_fill l @ entries_of L un (sv_options g) base res\<rparr>"
  obtain f w' where f: "(one_response L base (response_node res) :: ('w, 'a, 'r) davs) (l, g) = (f, (?l, g\<lparr>lib := w'\<rparr>))"
    "f = Next \<or> f = Cont" using one_response_lists [of L g res un base l] Cons.prems assms(2) by auto
  from Cons.IH [of "g\<lparr>lib := w'\<rparr>" ?l] Cons.prems obtain w2 where
    "(foreach (one_response L base) (map response_node es) :: ('w, 'a, 'r) davs) (?l, g\<lparr>lib := w'\<rparr>) =
    (Next, (?l\<lparr>f_fill := f_fill ?l @ concat (map (entries_of L un (sv_options g) base) es)\<rparr>, g\<lparr>lib := w2\<rparr>))" by auto
  with f show ?case by auto
qed

subsection \<open>The request\<close>

text \<open>What is relied on: memory for headers and for the parser can be had.\<close>

definition xml_ok :: "'w libs \<Rightarrow> bool" where
  "xml_ok L \<longleftrightarrow> (\<forall>c w. fst (lib_xml_create L c w) \<and> fst (lib_xml_chunk L c w))"

lemma slist_eq:
  assumes "slist_ok L"
  shows "curl_slist_append_e L l s g = (Ret (l @ [s]), g\<lparr>lib := snd (lib_slist_append L l s (lib g))\<rparr>)"
    and "curl_slist_append_weak L l s g = (Ret (l @ [s]), g\<lparr>lib := snd (lib_slist_append L l s (lib g))\<rparr>)"
  using assms
  by (cases "lib_slist_append L l s (lib g)";
      force simp: curl_slist_append_e_def curl_slist_append_weak_def lib_call_def slist_ok_def flow_simps
        dest!: spec [of _ l] spec [of _ s] spec [of _ "lib g"])+

fun fed :: "string list option \<Rightarrow> string list \<Rightarrow> string list option" where
  "fed x [] = x"
| "fed None (c # cs) = fed (Some [c]) cs"
| "fed (Some ds) (c # cs) = fed (Some (ds @ [c])) cs"

lemma fed_Some: "fed (Some ds) cs = Some (ds @ cs)"
  by (induction cs arbitrary: ds) simp_all

lemma fed_None: "cs \<noteq> [] \<Longrightarrow> fed None cs = Some cs"
  by (cases cs) (simp_all add: fed_Some)

definition chunks_ok :: "string list \<Rightarrow> bool" where
  "chunks_ok cs \<longleftrightarrow> (\<forall>c \<in> set cs. 0 < length c \<and> length c < 2 ^ 64)"

lemma parse_xml_step:
  fixes g :: "('w, 'a) davw_scheme"
  assumes "xml_ok L" "0 < length c" "length c < 2 ^ 64" "\<not> has g"
  shows "\<exists>w'. curl_parse_xml L c (of_nat (length c)) fr g =
    (Ret (of_nat (length c), fr\<lparr>f_ctxt := fed (f_ctxt fr) [c]\<rparr>), g\<lparr>lib := w'\<rparr>)"
proof -
  have n: "(of_nat (length c) :: u64) \<noteq> 0" using assms(2,3) by (metis unat_0 unat_of_nat_u64 less_numeral_extra(3))
  have x: "fst (lib_xml_create L c (lib g))" "fst (lib_xml_chunk L c (lib g))" using assms(1) by (simp_all add: xml_ok_def)
  show ?thesis using n assms(4) x
    by (cases "f_ctxt fr"; cases "lib_xml_create L c (lib g)"; cases "lib_xml_chunk L c (lib g)")
      (simp_all add: curl_parse_xml_def flow_simps lib_call_def, blast+)
qed

lemma feed_xml:
  fixes g :: "('w, 'a) davw_scheme"
  assumes "xml_ok L" "chunks_ok cs" "\<not> has g"
  shows "\<exists>w'. feed (curl_parse_xml L) cs fr g = (Ret (True, fr\<lparr>f_ctxt := fed (f_ctxt fr) cs\<rparr>), g\<lparr>lib := w'\<rparr>)"
  using assms(2,3)
proof (induction cs arbitrary: fr g)
  case Nil
  then show ?case by (auto intro!: exI [of _ "lib g"])
next
  case (Cons c cs)
  from Cons.prems parse_xml_step [OF assms(1), of c g fr] obtain w1 where
    "curl_parse_xml L c (of_nat (length c)) fr g =
      (Ret (of_nat (length c), fr\<lparr>f_ctxt := fed (f_ctxt fr) [c]\<rparr>), g\<lparr>lib := w1\<rparr>)" by (auto simp: chunks_ok_def)
  moreover from Cons.IH [of "g\<lparr>lib := w1\<rparr>" "fr\<lparr>f_ctxt := fed (f_ctxt fr) [c]\<rparr>"] Cons.prems obtain w2 where
    "feed (curl_parse_xml L) cs (fr\<lparr>f_ctxt := fed (f_ctxt fr) [c]\<rparr>) (g\<lparr>lib := w1\<rparr>) =
      (Ret (True, fr\<lparr>f_ctxt := fed (fed (f_ctxt fr) [c]) cs\<rparr>), g\<lparr>lib := w2\<rparr>)" by (auto simp: chunks_ok_def)
  moreover have "fed (fed x [c]) cs = fed x (c # cs)" for x by (cases x) simp_all
  ultimately show ?case by auto
qed

abbreviation propfind_buf :: Buffer where
  "propfind_buf \<equiv> Buffer_init_exist propfind_body (of_nat (length propfind_body)) False"

definition propfind_headers :: "int \<Rightarrow> string list" where
  "propfind_headers depth = [snprintf 32 (''Depth: '' @ sshow depth), PREFER_MINIMAL, CONTENT_TYPE_XML]"

definition propfind_opts :: "easy_opts \<Rightarrow> int \<Rightarrow> easy_opts" where
  "propfind_opts m depth = m(CURLOPT_HTTPHEADER \<mapsto> VList (propfind_headers depth), CURLOPT_UPLOAD \<mapsto> VLong 1,
     CURLOPT_READDATA \<mapsto> VBuf propfind_buf, CURLOPT_READFUNCTION \<mapsto> VFun CB_Buffer_fetch,
     CURLOPT_INFILESIZE \<mapsto> VLong (sint (bsize propfind_buf)), CURLOPT_WRITEDATA \<mapsto> VPtr,
     CURLOPT_WRITEFUNCTION \<mapsto> VFun CB_curl_parse_xml, CURLOPT_CUSTOMREQUEST \<mapsto> VStr (Some ''PROPFIND''))"

definition propfind_send :: "'w libs \<Rightarrow> int \<Rightarrow> addr \<Rightarrow> ('w, 'a, int \<times> (string \<times> stat option) list) davs" where
  "propfind_send L depth curl = throwable (scope_slist L (Some (snprintf 32 (''Depth: '' @ sshow depth))) (block [
     assign_list (\<lambda>l. curl_slist_append_weak L l PREFER_MINIMAL),
     assign_list (\<lambda>l. curl_slist_append_weak L l CONTENT_TYPE_XML),
     setopt_list L curl,
     setopt L curl CURLOPT_UPLOAD (VLong 1),
     setopt_upload L curl propfind_buf,
     setopt L curl CURLOPT_INFILESIZE (VLong (sint (bsize propfind_buf))),
     setopt L curl CURLOPT_WRITEDATA VPtr,
     setopt L curl CURLOPT_WRITEFUNCTION (VFun CB_curl_parse_xml),
     curl_easy_setopt_or_die L curl CURLOPT_CUSTOMREQUEST (VStr (Some ''PROPFIND'')),
     curl_easy_perform_or_die L curl no_callback (curl_parse_xml L)]))"

definition propfind_fill :: "'w libs \<Rightarrow> addr \<Rightarrow> ('w, 'a, int \<times> (string \<times> stat option) list) davs" where
  "propfind_fill L curl = reads (\<lambda>s. (last_transfer (snd s) curl, f_ctxt (fst s))) (\<lambda>(t, ctxt). block [
     whenc (\<lambda>_. t_response_code t \<noteq> 207) brk,
     (case ctxt of
        None \<Rightarrow> halt Segv
      | Some cs \<Rightarrow> (case lib_xml_doc L cs of
          None \<Rightarrow> throw (unspecified ''Failed to parse'')
        | Some root \<Rightarrow> foreach (one_response L (t_effective_url t)) (x_children root)))])"

lemma dav_propfind_body:
  "dav_propfind L path depth = fn (dframe0 L) (block [
     with_seperated skip skip (with_seperated (setl (\<lambda>f. f\<lparr>f_ctxt := None\<rparr>)) skip
       (throwable (with_server L (Some path) (\<lambda>curl. block [propfind_send L depth curl, propfind_fill L curl])))),
     reads (\<lambda>s. (TEST_SUCCESS (snd s), f_fill (fst s))) ret])"
  by (simp add: dav_propfind_def with_buffer_def propfind_send_def propfind_fill_def)

lemma length_propfind_body: "length propfind_body < 2 ^ 63"
  by (simp add: propfind_body_def xml_head_def quoted_def crlf_def)

text \<open>The state of the libraries when the request goes out, from that in which the handle was had.\<close>

definition propfind_world :: "'w libs \<Rightarrow> int \<Rightarrow> 'w \<Rightarrow> 'w" where
  "propfind_world L depth w = (let hs = propfind_headers depth in
     setopts L [(CURLOPT_HTTPHEADER, VList hs), (CURLOPT_UPLOAD, VLong 1), (CURLOPT_READDATA, VBuf propfind_buf),
       (CURLOPT_READFUNCTION, VFun CB_Buffer_fetch), (CURLOPT_INFILESIZE, VLong (sint (bsize propfind_buf))), (CURLOPT_WRITEDATA, VPtr),
       (CURLOPT_WRITEFUNCTION, VFun CB_curl_parse_xml), (CURLOPT_CUSTOMREQUEST, VStr (Some ''PROPFIND''))]
       (fold (\<lambda>n w. snd (lib_slist_append L (take n hs) (hs ! n) w)) [0, 1, 2] w))"

definition propfind_rq :: "easy_opts \<Rightarrow> int \<Rightarrow> request" where
  "propfind_rq m depth = \<lparr>rq_opts = propfind_opts m depth, rq_body = propfind_body\<rparr>"

lemma propfind_send_run:
  fixes g :: "('w, 'a) davw_scheme"
  assumes L: "setopt_ok L" "slist_ok L" "xml_ok L" "lib_chunk L \<noteq> 0" "unat (lib_chunk L) < 2 ^ 63"
    and I: "pool_inv L U g" and e: "\<not> has g" and m: "easy g h = Some m"
    and t: "lib_perform L (propfind_rq m depth) (propfind_world L depth (lib g)) = (t, w')"
    and ok: "chunks_ok (t_chunks t)" "t_code t = CURLE_OK"
  obtains g' where "propfind_send L depth h (l, g) = (Next, (l\<lparr>f_list := [], f_ctxt := fed (f_ctxt l) (t_chunks t)\<rparr>, g'))"
    "pool_inv L U g'" "world.more g' = world.more g" "ex g' = ex g" "last_transfer g' h = t"
proof -
  let ?m = "propfind_opts m depth" and ?w = "propfind_world L depth (lib g)" and ?l = "l\<lparr>f_list := propfind_headers depth\<rparr>"
  let ?g = "g\<lparr>lib := ?w, easy := (easy g)(h \<mapsto> ?m)\<rparr>"
  let ?g2 = "?g\<lparr>lib := w', last_transfer := (last_transfer g)(h := t)\<rparr>"
  have len: "length propfind_body = unat (of_nat (length propfind_body) :: u64)"
    using length_propfind_body by (simp add: unat_of_nat_u64)
  have big: "unat (of_nat (length propfind_body) :: u64) + unat (lib_chunk L) < 2 ^ 64"
    using L(5) length_propfind_body unfolding len [symmetric] by simp
  have "fetch_ok propfind_buf (lib_chunk L)"
    using len big by (simp add: fetch_ok_def Buffer_init_exist_wf) (simp add: Buffer_init_exist_def)
  then have s: "sendable L ?m" by (simp add: sendable_def propfind_opts_def)
  have i: "pool_inv L U (g\<lparr>easy := (easy g)(h \<mapsto> ?m)\<rparr>)" by (rule pool_inv_setopts [OF I(1) m s])
  have u: "upload_body L ?m ?g = (Ret propfind_body, ?g)"
    using len big L(4) by (intro upload_exact) (simp_all add: propfind_opts_def)
  from feed_xml [OF L(3) ok(1), of ?g2 ?l] e obtain w2 where
    f: "feed (curl_parse_xml L) (t_chunks t) ?l ?g2 = (Ret (True, ?l\<lparr>f_ctxt := fed (f_ctxt l) (t_chunks t)\<rparr>), ?g2\<lparr>lib := w2\<rparr>)" by auto
  have p: "curl_easy_perform L h no_callback (curl_parse_xml L) ?l ?g =
      (Ret (0, ?l\<lparr>f_ctxt := fed (f_ctxt l) (t_chunks t)\<rparr>), ?g2\<lparr>lib := w2\<rparr>)"
    using perform_eq [of ?g h ?m L propfind_body t w' no_callback "curl_parse_xml L" ?l] u t f ok(2)
    by (simp add: deliver_def callback_for_none feed_no_callback callback_for_def propfind_opts_def propfind_rq_def)
  have "propfind_send L depth h (l, g) = (Next, (l\<lparr>f_list := [], f_ctxt := fed (f_ctxt l) (t_chunks t)\<rparr>, ?g2\<lparr>lib := w2\<rparr>))"
    using p e m
    by (simp add: propfind_send_def scope_slist_def assign_list_def slist_eq [OF L(2)] setopt_list_def flow_simps
        curl_easy_setopt_or_die_def setopt_def setopt_upload_def setopt_eq [OF L(1)] curl_easy_perform_or_die_def
        propfind_opts_def propfind_headers_def propfind_world_def)
  then show thesis by (rule that) (use i in simp_all)
qed

subsection \<open>The listing\<close>

text \<open>The transfer is the answer that lists the resources \<open>es\<close>.\<close>

definition answers :: "'w libs \<Rightarrow> networkfs_opts \<Rightarrow> transfer \<Rightarrow> resource list \<Rightarrow> bool" where
  "answers L opt t es \<longleftrightarrow> t_code t = CURLE_OK \<and> t_response_code t = 207 \<and> chunks_ok (t_chunks t) \<and> t_chunks t \<noteq> [] \<and>
     (\<exists>root. lib_xml_doc L (t_chunks t) = Some root \<and> x_children root = map response_node es) \<and>
     (\<forall>res \<in> set es. res_ok L opt res)"

definition listing :: "'w libs \<Rightarrow> (string \<Rightarrow> string) \<Rightarrow> networkfs_opts \<Rightarrow> transfer \<Rightarrow> resource list \<Rightarrow> (string \<times> stat option) list" where
  "listing L un opt t es = concat (map (entries_of L un opt (t_effective_url t)) es)"

definition lib_nice :: "'w libs \<Rightarrow> (string \<Rightarrow> string) \<Rightarrow> bool" where
  "lib_nice L un \<longleftrightarrow> setopt_ok L \<and> slist_ok L \<and> xml_ok L \<and> unescape_ok L un \<and> lib_chunk L \<noteq> 0 \<and> unat (lib_chunk L) < 2 ^ 63"

lemma fill_run:
  fixes g :: "('w, 'a) davw_scheme"
  assumes "answers L (sv_options g) (last_transfer g h) es" "unescape_ok L un" "\<not> has g"
    and "f_ctxt l = Some (t_chunks (last_transfer g h))"
  shows "\<exists>w'. propfind_fill L h (l, g) = (Next, (l\<lparr>f_fill := f_fill l @ listing L un (sv_options g) (last_transfer g h) es\<rparr>, g\<lparr>lib := w'\<rparr>))"
proof -
  let ?loop = "foreach (one_response L (t_effective_url (last_transfer g h))) (map response_node es) ::
    ('w, 'a, int \<times> (string \<times> stat option) list) davs"
  have "\<forall>res \<in> set es. res_ok L (sv_options g) res" using assms(1) by (simp add: answers_def)
  from responses_list [OF this assms(2,3)] obtain w' where "?loop (l, g) = (Next, (l\<lparr>f_fill := f_fill l @
      concat (map (entries_of L un (sv_options g) (t_effective_url (last_transfer g h))) es)\<rparr>, g\<lparr>lib := w'\<rparr>))" by blast
  with assms show ?thesis by (auto simp: propfind_fill_def flow_simps answers_def listing_def)
qed

lemma propfind_run:
  fixes g :: "('w, 'a) davw_scheme"
  assumes L: "lib_nice L un" and I: "pool_inv L U g"
    and h: "curl_easy_init_common L (sv_baseuh g) (Some path) (Some (sv_options g)) g = (Ret (Some h), g1)"
    and m: "easy g1 h = Some m"
    and t: "lib_perform L (propfind_rq m depth) (propfind_world L depth (lib g1)) = (t, w')" and a: "answers L (sv_options g) t es"
  obtains g' where "dav_propfind L path depth g = (Ret (0, listing L un (sv_options g) t es), g')"
       "\<not> has g'" "pool_inv L U g'" "world.more g' = world.more g"
proof -
  let ?l = "(dframe0 L)\<lparr>f_ctxt := None\<rparr>"
  let ?body = "\<lambda>curl. block [propfind_send L depth curl, propfind_fill L curl] :: ('w, 'a, int \<times> (string \<times> stat option) list) davs"
  have nice: "setopt_ok L" "slist_ok L" "xml_ok L" "lib_chunk L \<noteq> 0" "unat (lib_chunk L) < 2 ^ 63" "unescape_ok L un"
    using L by (simp_all add: lib_nice_def)
  note g1 = handle_taken [OF I h]
  let ?l2 = "?l\<lparr>f_list := [], f_ctxt := Some (t_chunks t)\<rparr>"
  have ok: "t_chunks t \<noteq> []" "chunks_ok (t_chunks t)" "t_code t = CURLE_OK" using a by (simp_all add: answers_def)
  obtain g2 where send: "propfind_send L depth h (?l, g1) = (Next, (?l2, g2))"
    and g2: "pool_inv L (insert h U) g2" "world.more g2 = world.more g" "\<not> has g2" "last_transfer g2 h = t"
    by (rule propfind_send_run [OF nice(1-5) g1(2,4) m t ok(2,3), of ?l]) (use g1(3,4) ok(1) in \<open>simp add: fed_None\<close>)
  have op: "sv_options g2 = sv_options g" using g2(2) by (cases g2; cases g) (auto simp: world.defs davw.defs)
  from fill_run [of L g2 h es un ?l2] a op g2(3,4) nice(6) obtain w2 where
    "propfind_fill L h (?l2, g2) = (Next, (?l2\<lparr>f_fill := listing L un (sv_options g) t es\<rparr>, g2\<lparr>lib := w2\<rparr>))"
    by (auto simp: dframe0_def)
  with send have b: "?body h (?l, g1) = (Next, (?l2\<lparr>f_fill := listing L un (sv_options g) t es\<rparr>, g2\<lparr>lib := w2\<rparr>))" by simp
  have "pool_inv L (insert h U) (g2\<lparr>lib := w2\<rparr>)" "world.more (g2\<lparr>lib := w2\<rparr>) = world.more g" using g2 by simp_all
  from handle_back [where body = ?body and l = ?l, OF I h b _ this] obtain g3 where
    g3: "with_server L (Some path) ?body (?l, g) = (Next, (?l2\<lparr>f_fill := listing L un (sv_options g) t es\<rparr>, g3))"
      "pool_inv L U g3" "world.more g3 = world.more g" "ex g3 = ex g2" by auto
  then have "dav_propfind L path depth g = (Ret (0, listing L un (sv_options g) t es), g3)"
    using g2(3) g1(5) by (simp add: dav_propfind_body flow_simps TEST_SUCCESS_def)
  with g3 g2(3) that show thesis by auto
qed

lemma dav_getattr_run:
  fixes g :: "('w, 'a) davw_scheme"
  assumes "lib_nice L un" "pool_inv L U g"
    and "curl_easy_init_common L (sv_baseuh g) (Some path) (Some (sv_options g)) g = (Ret (Some h), g1)" "easy g1 h = Some m"
    and "lib_perform L (propfind_rq m 0) (propfind_world L 0 (lib g1)) = (t, w')" "answers L (sv_options g) t [res]"
    and below: "prefix (t_effective_url t) (fst res)"
  shows "\<exists>props st g'. present_props res = Some props \<and> response_stat L (sv_options g) props = Some st \<and>
    dav_getattr L path stbuf g = (Ret (0, st), g') \<and> \<not> Exception_has (ex g') \<and> pool_inv L U g' \<and> world.more g' = world.more g"
proof -
  from assms(6) obtain props st where p: "present_props res = Some props" "response_stat L (sv_options g) props = Some st"
    by (auto simp: answers_def res_ok_def)
  obtain g' where g': "dav_propfind L path 0 g = (Ret (0, listing L un (sv_options g) t [res]), g')"
    "\<not> has g'" "pool_inv L U g'" "world.more g' = world.more g" by (rule propfind_run [OF assms(1-6)])
  then have "dav_getattr L path stbuf g = (Ret (0, st), g')"
    using p below by (simp add: dav_getattr_def flow_simps dav_exception_check_def listing_def entries_of_def dav_getattr_callback_def)
  with p g' show ?thesis by blast
qed

text \<open>A server with a directory that holds one file.\<close>

definition dir_res :: resource where
  "dir_res = (''http://h/'', [(http_ok, [dav_node ''resourcetype'' [dav_node ''collection'' []]])])"

definition file_res :: resource where
  "file_res = (''http://h/a.txt'', [(''HTTP/1.1 404 Not Found'', [dav_node ''creationdate'' []]),
     (http_ok, [dav_node ''getcontentlength'' [text_node ''5'']])])"

definition reply_list :: "request \<Rightarrow> transfer" where
  "reply_list rq = (reply_ok rq)\<lparr>t_chunks := [''<D:multistatus/>''], t_response_code := 207\<rparr>"

definition list_lib :: "resource list \<Rightarrow> request list libs" where
  "list_lib es = (demo_lib reply_list)\<lparr>lib_xml_doc := (\<lambda>_. Some (dav_node ''multistatus'' (map response_node es)))\<rparr>"

lemma list_lib_init:
  "curl_easy_init_common (list_lib es) u path (Some opts0) (client0 t m n) =
    (Ret (Some n), (client0 t m n)\<lparr>easy := [n \<mapsto> easy0], next_addr := Suc n\<rparr>)"
  by (cases "relative_path path")
    (simp_all add: curl_easy_init_common_def demo_run list_lib_def client0_def common_options_def opts0_def easy0_def)

lemma list_lib_nice: "lib_nice (list_lib es) (\<lambda>s. s)"
  by (simp add: lib_nice_def setopt_ok_def slist_ok_def xml_ok_def unescape_ok_def list_lib_def)

lemma demo_stats:
  "present_props dir_res = Some [dav_node ''resourcetype'' [dav_node ''collection'' []]]"
  "present_props file_res = Some [dav_node ''getcontentlength'' [text_node ''5'']]"
  "response_stat L opt [dav_node ''resourcetype'' [dav_node ''collection'' []]] =
     Some ((stat_default opt)\<lparr>st_mode := (S_IFDIR OR mode_0777) AND NOT (dmask opt), st_nlink := 2\<rparr>)"
  "response_stat L opt [dav_node ''getcontentlength'' [text_node ''5'']] = Some ((stat_default opt)\<lparr>st_size := 5\<rparr>)"
proof -
  show "present_props dir_res = Some [dav_node ''resourcetype'' [dav_node ''collection'' []]]"
    "present_props file_res = Some [dav_node ''getcontentlength'' [text_node ''5'']]"
    by (simp_all add: present_props_def dir_res_def file_res_def http_ok_def)
  show "response_stat L opt [dav_node ''resourcetype'' [dav_node ''collection'' []]] =
     Some ((stat_default opt)\<lparr>st_mode := (S_IFDIR OR mode_0777) AND NOT (dmask opt), st_nlink := 2\<rparr>)"
    by (simp add: response_stat_def node_defs dav_prop_def)
  have "fst (strtol 10 ''5'') = 5" by code_simp
  then show "response_stat L opt [dav_node ''getcontentlength'' [text_node ''5'']] = Some ((stat_default opt)\<lparr>st_size := 5\<rparr>)"
    by (simp add: response_stat_def node_defs dav_prop_def first_content_def)
qed

lemma demo_answers:
  assumes "set es \<subseteq> {dir_res, file_res}" "lib_perform (list_lib es) rq w = (t, w')"
  shows "answers (list_lib es) opt t es" "t_effective_url t = ''http://h/''"
proof -
  have "res_ok L opt dir_res" "res_ok L opt file_res" for L :: "request list libs"
    by (simp_all add: res_ok_def demo_stats)
  then have r: "\<forall>res \<in> set es. res_ok (list_lib es) opt res" using assms(1) by blast
  have t: "t = reply_list rq" using assms(2) by (simp add: list_lib_def)
  show "answers (list_lib es) opt t es"
    using r by (simp add: answers_def t reply_list_def chunks_ok_def reply_ok_def) (simp add: list_lib_def dav_node_def)
  show "t_effective_url t = ''http://h/''" by (simp add: t reply_list_def reply_ok_def)
qed

subsection \<open>Properties\<close>





end
