(* ===== verification/Dav_Session_Laws.thy ===== *)
theory Dav_Session_Laws
  imports Dav_Put_Laws Dav_List_Laws
begin

text \<open>
  A mounted file system as one thread uses it: files are opened, read, written and closed, and
  attributes and directories are looked up, in any order.
\<close>

subsection \<open>Operations that leave the lock table alone\<close>

context dav_frame
begin

lemma gives_buffer_callback: "Segv \<in> S \<Longrightarrow> gives S (framed P L U) (buffer_callback L' c n l)"
  unfolding gives_def
  by (auto simp: buffer_callback_def Buffer_append_def Buffer_resize_def lib_realloc_def flow_simps framed_blind
      split: prod.splits if_splits option.splits)

lemma gives_get:
  "lib_chunk L \<noteq> 0 \<Longrightarrow> Segv \<in> S \<Longrightarrow> gives S (framed P L U) (dav_get L path data sz offset)"
  unfolding dav_get_def by (intro runs_intros gives_buffer_callback | simp)+

lemma runs_fill_response: "Segv \<in> S \<Longrightarrow> runs S True (framed P L U) (fill_response L' base href st)"
  unfolding fill_response_def fill_def
  by (auto split: option.split intro!: runs_intros runs_halt)

lemma runs_one_response: "Segv \<in> S \<Longrightarrow> runs S True (framed P L U) (one_response L' base x)"
  unfolding one_response_def condition_throw_def
  by (auto split: option.split intro!: runs_intros runs_halt runs_fill_response tidy_runs [OF tidy_unspecified])

lemma runs_propfind_tail:
  assumes "Segv \<in> S"
  shows "runs S True (framed P L U) (case ctxt of
      None \<Rightarrow> halt Segv
    | Some cs \<Rightarrow> (case doc cs of
        None \<Rightarrow> throw (unspecified ''Failed to parse'')
      | Some root \<Rightarrow> foreach (one_response L' base) (x_children root)))"
  using assms by (auto split: option.split intro!: runs_intros runs_halt runs_one_response tidy_runs [OF tidy_unspecified])

lemma gives_propfind:
  assumes "lib_sane L" "Segv \<in> S"
  shows "gives S (framed P L U) (dav_propfind L path depth)"
proof -
  have n: "lib_chunk L \<noteq> 0" using assms(1) by (simp add: lib_sane_def)
  note f = fetch_ok_init [OF assms(1) length_propfind_body]
  have tail: "runs S True (framed P L V) (block [whenc (\<lambda>_. t_response_code t \<noteq> 207) brk,
      case ctxt of None \<Rightarrow> halt Segv
      | Some cs \<Rightarrow> (case lib_xml_doc L cs of None \<Rightarrow> throw (unspecified ''Failed to parse'')
         | Some root \<Rightarrow> foreach (one_response L (t_effective_url t)) (x_children root))])" for V t ctxt
    by (intro runs_intros runs_propfind_tail assms(2))
  show ?thesis
    unfolding dav_propfind_def with_buffer_def
    by (intro runs_intros) (simp_all only: f n tail prod.case_eq_if insertI1 opt_ok_simps simp_thms)
qed

end

subsection \<open>Sessions\<close>

text \<open>How a call of an operation ends: with its value, by a crash, or in no other way that is known.\<close>

datatype ending = Crash | Stuck | Put_failed | Unopened

definition outcome :: "'v flow \<times> 'g \<Rightarrow> ending + 'v \<times> 'g" where
  "outcome x = (case x of (Ret v, g) \<Rightarrow> Inr (v, g) | (Stop Segv, g) \<Rightarrow> Inl Crash | _ \<Rightarrow> Inl Stuck)"

lemma outcome_simps [simp]:
  "outcome (Ret v, g) = Inr (v, g)" "outcome (Stop Segv, g) = Inl Crash"
  by (simp_all add: outcome_def)

text \<open>The calls libfuse makes, and the number of times each path is open for writing with a lock. Only
  what was opened is closed. After a PUT that fails the read lock may be left taken, which ends the
  session: the next call that needs the write lock would wait for ever.\<close>

datatype file_op = Open string u32 | Release string u32 | Read string string u64 u64 | Write string string u64 u64
  | Getattr string stat | Readdir string

definition counted_open :: "('w, 'a) davw_scheme \<Rightarrow> u32 \<Rightarrow> bool" where
  "counted_open g flags \<longleftrightarrow> for_writing flags \<and> sv_allow g LOCK"

definition session_step :: "'w libs \<Rightarrow> file_op \<Rightarrow> ('w, 'a) davw_scheme \<times> (string \<Rightarrow> int) \<Rightarrow>
    ending + ('w, 'a) davw_scheme \<times> (string \<Rightarrow> int)" where
  "session_step L op = (\<lambda>(g, n). case op of
     Open p flags \<Rightarrow> map_sum id (\<lambda>(r, g'). (g', if r = 0 \<and> counted_open g flags then n(p := n p + 1) else n))
       (outcome (dav_open L p flags g))
   | Release p flags \<Rightarrow> if counted_open g flags \<and> n p \<le> 0 then Inl Unopened
       else map_sum id (\<lambda>(_, g'). (g', if counted_open g flags then n(p := n p - 1) else n)) (outcome (dav_release L p flags g))
   | Read p buf sz offset \<Rightarrow> map_sum id (\<lambda>(_, g'). (g', n)) (outcome (dav_read L p buf sz offset g))
   | Write p buf sz offset \<Rightarrow> (case outcome (dav_write L p buf sz offset g) of
       Inl e \<Rightarrow> Inl e | Inr (_, g') \<Rightarrow> if rw g' = rw g then Inr (g', n) else Inl Put_failed)
   | Getattr p st \<Rightarrow> map_sum id (\<lambda>(_, g'). (g', n)) (outcome (dav_getattr L p st g))
   | Readdir p \<Rightarrow> map_sum id (\<lambda>(_, g'). (g', n)) (outcome (dav_readdir L p g)))"

fun session :: "'w libs \<Rightarrow> file_op list \<Rightarrow> ('w, 'a) davw_scheme \<times> (string \<Rightarrow> int) \<Rightarrow>
    ending + ('w, 'a) davw_scheme \<times> (string \<Rightarrow> int)" where
  "session L [] s = Inr s"
| "session L (op # ops) s = (case session_step L op s of Inl e \<Rightarrow> Inl e | Inr s' \<Rightarrow> session L ops s')"

text \<open>libfuse takes \<open>O_TRUNC\<close> out of the flags and calls \<open>truncate\<close> itself; a buffer is as long as it says.\<close>

fun op_ok :: "'w libs \<Rightarrow> file_op \<Rightarrow> bool" where
  "op_ok L (Open p flags) \<longleftrightarrow> flags AND O_TRUNC = 0"
| "op_ok L (Write p buf sz offset) \<longleftrightarrow> length buf = unat sz \<and> unat sz < 2 ^ 31 \<and> unat offset + unat (lib_chunk L) < 2 ^ 64"
| "op_ok L _ \<longleftrightarrow> True"

definition counted :: "'w libs \<Rightarrow> addr set \<Rightarrow> ('w, 'a) davw_scheme \<times> (string \<Rightarrow> int) \<Rightarrow> bool" where
  "counted L U = (\<lambda>(g, n). lock_inv L U g \<and> lock_count g = n)"

text \<open>A step that ends as it should.\<close>

fun fine :: "('s \<Rightarrow> bool) \<Rightarrow> ending + 's \<Rightarrow> bool" where
  "fine Q (Inl e) \<longleftrightarrow> e \<noteq> Stuck"
| "fine Q (Inr s) \<longleftrightarrow> Q s"

subsection \<open>Steps\<close>

lemma counted_same:
  assumes "counted L U (g, n)" "pool_inv L U g'" "server_is g g'"
  shows "counted L U (g', n)"
  using lock_inv_same [of 1 L U g g' "locks g"] assms by (simp add: counted_def)

text \<open>An operation without effect on the lock table.\<close>

lemma fine_snapshot:
  assumes I: "counted L U (g, n)" and f: "gives {Segv} (framed (server_is g) L U) f"
    and e: "\<And>v g'. f g = (Ret v, g') \<Longrightarrow> \<exists>w e. h g = (Ret w, g'\<lparr>ex := e\<rparr>)" "\<And>g'. f g = (Stop Segv, g') \<Longrightarrow> \<exists>g''. h g = (Stop Segv, g'')"
  shows "fine (counted L U) (map_sum id (\<lambda>(_, g'). (g', n)) (outcome (h g)))"
proof -
  have "framed (server_is g) L U g" using I by (simp add: framed_server_is counted_def lock_inv_def)
  from f this show ?thesis
  proof (cases rule: givesE)
    case (stop x g')
    with e(2) show ?thesis by auto
  next
    case (ok v g')
    from e(1) [OF ok(1)] obtain w x where "h g = (Ret w, g'\<lparr>ex := x\<rparr>)" by blast
    moreover have "counted L U (g'\<lparr>ex := x\<rparr>, n)"
      using ok(2) by (intro counted_same [OF I]) (simp_all add: framed_def server_is_def)
    ultimately show ?thesis by simp
  qed
qed

lemma same_ex: "\<exists>e. g = g\<lparr>ex := e\<rparr>" for g :: "'a exw_scheme"
  by (rule exI [of _ "ex g"]) simp

lemma check_ends: "\<exists>r e. dav_exception_check r0 g = (Ret r, g\<lparr>ex := e\<rparr>)"
  using same_ex [of g] by (auto simp: dav_exception_check_def dav_exception_map_def flow_simps ret_call_def)

lemma fine_read:
  assumes "lib_sane L" "counted L U (g, n)"
  shows "fine (counted L U) (session_step L (Read p buf sz offset) (g, n))"
proof (cases "sz = 0")
  case True
  then have "dav_read L p buf sz offset g = (Ret (0, buf), g)" by (simp add: dav_read_def flow_simps)
  with assms(2) show ?thesis by (simp add: session_step_def)
next
  case False
  let ?f = "dav_get L p buf sz offset" and ?h = "dav_read L p buf sz offset"
  have "gives {Segv} (framed (server_is g) L U) ?f"
    using assms(1) by (intro snapshot.gives_get) (simp_all add: lib_sane_def)
  with assms(2) have "fine (counted L U) (map_sum id (\<lambda>(_, g'). (g', n)) (outcome (?h g)))"
  proof (rule fine_snapshot)
    fix v g' assume v: "?f g = (Ret v, g')"
    show "\<exists>w e. ?h g = (Ret w, g'\<lparr>ex := e\<rparr>)"
      using v False same_ex [of g'] by (cases v) (auto simp: dav_read_def flow_simps dav_exception_map_def)
  qed (use False in \<open>simp add: dav_read_def flow_simps\<close>)
  then show ?thesis by (simp add: session_step_def)
qed

lemma fine_propfind:
  assumes "lib_sane L" "counted L U (g, n)"
    and h: "h = fn () (call (dav_propfind L p depth) (\<lambda>(_, entries). call (dav_exception_check 0) (\<lambda>res. ret (k res entries))))"
  shows "fine (counted L U) (map_sum id (\<lambda>(_, g'). (g', n)) (outcome (h g)))"
  using assms(2)
proof (rule fine_snapshot)
  show "gives {Segv} (framed (server_is g) L U) (dav_propfind L p depth)"
    using assms(1) by (intro snapshot.gives_propfind) simp_all
  fix v g' assume v: "dav_propfind L p depth g = (Ret v, g')"
  from check_ends [of 0 g'] v show "\<exists>w e. h g = (Ret w, g'\<lparr>ex := e\<rparr>)"
    by (cases v) (auto simp: h flow_simps)
qed (simp add: h flow_simps)

lemma fine_write:
  assumes L: "setopt_ok L" "lib_sane L" "unat (lib_chunk L) < 2 ^ 31" and I: "counted L U (g, n)"
    and ok: "op_ok L (Write p buf sz offset)"
  shows "fine (counted L U) (session_step L (Write p buf sz offset) (g, n))"
proof -
  have i: "write_inv L U g g"
    using I unfolding write_inv_def by (auto simp: counted_def lock_inv_def rw_def server_is_def intro: exI [of _ 0])
  have n: "lib_chunk L \<noteq> 0" "unat sz + unat (lib_chunk L) < 2 ^ 64" using L(2,3) ok by (simp_all add: lib_sane_def)
  from dav_write_end [OF L(1) n(1) i, where path = p and offset = offset and buf = buf and sz = sz] n(2) ok obtain r g' where
    w: "dav_write L p buf sz offset g = (Ret r, g')" "write_inv L U g g'" by (auto simp: write_end_def)
  have "counted L U (g', n)" if "rw g' = rw g"
  proof (rule counted_same [OF I])
    show "pool_inv L U g'" using w(2) by (simp add: write_inv_def)
    show "server_is g g'" using w(2) that by (auto simp: write_inv_def server_is_def rw_def)
  qed
  with w(1) show ?thesis by (simp add: session_step_def)
qed

text \<open>\<open>__dav_open\<close>, with and without LOCK.\<close>

lemma open_lock_cases:
  fixes g :: "('w, 'a) davw_scheme"
  assumes L: "lib_sane L" and I: "lock_inv L U g"
  obtains (crash) g' where "dav_open_lock L p g = (Stop Segv, g')"
  | (opened) g' where "dav_open_lock L p g = (Ret 0, g')" "lock_inv L U g'"
      "lock_count g' = (if sv_allow g LOCK then (lock_count g)(p := lock_count g p + 1) else lock_count g)"
  | (failed) r g' where "dav_open_lock L p g = (Ret r, g')" "r < 0" "lock_inv L U g'" "lock_count g' = lock_count g"
proof (cases "sv_allow g LOCK")
  case False
  then have "dav_open_lock L p g = (Ret 0, g)" by (simp add: dav_open_lock_def flow_simps)
  with False I show thesis by (intro opened [of g]) simp_all
next
  case True
  note run = dav_open_lock_def flow_simps dav_exception_test_def dav_exception_map_def ret_call_def True
  from I L show thesis
  proof (cases rule: dav_lock_cases [where path = p])
    case (crash g')
    then show thesis by (intro that(1)) (simp add: run)
  next
    case (locked g')
    then show thesis using True by (intro opened [of g']) (simp_all add: run)
  next
    case (failed g')
    let ?g = "g'\<lparr>ex := Exception_destory (ex g')\<rparr>"
    have "counted L U (?g, lock_count g)"
      using failed(3,4) by (intro counted_same [of L U g' "lock_count g" ?g]) (simp_all add: counted_def server_is_def lock_inv_def)
    then show thesis using failed(1) exception_errno_neg [of "ex g'"]
      by (intro that(3) [of "exception_errno (ex g')" ?g]) (simp_all add: run counted_def)
  qed
qed

lemma fine_open:
  assumes L: "lib_sane L" and I: "counted L U (g, n)" and ok: "op_ok L (Open p flags)"
  shows "fine (counted L U) (session_step L (Open p flags) (g, n))"
proof (cases "for_writing flags")
  case False
  then have "dav_open L p flags g = (Ret 0, g)" by (simp add: dav_open_def flow_simps)
  with I False show ?thesis by (simp add: session_step_def counted_open_def)
next
  case True
  from I have i: "lock_inv L U g" and n: "n = lock_count g" by (simp_all add: counted_def)
  have run: "dav_open L p flags g = dav_open_lock L p g" if "dav_open_lock L p g = (Ret r, g') \<or> dav_open_lock L p g = (Stop x, g')" for r g' x
    using that True ok by (auto simp: dav_open_def flow_simps)
  from L i show ?thesis
    by (cases rule: open_lock_cases [where p = p])
      (use run True n in \<open>auto simp: session_step_def counted_def counted_open_def\<close>)
qed

lemma fine_release:
  assumes L: "lib_sane L" and I: "counted L U (g, n)"
  shows "fine (counted L U) (session_step L (Release p flags) (g, n))"
proof (cases "counted_open g flags")
  case False
  then have "dav_release L p flags g = (Ret 0, g)"
    by (auto simp: dav_release_def counted_open_def flow_simps)
  with I False show ?thesis by (simp add: session_step_def)
next
  case True
  from I have i: "lock_inv L U g" and n: "n = lock_count g" by (simp_all add: counted_def)
  have c: "for_writing flags" "sv_allow g LOCK" using True by (simp_all add: counted_open_def)
  have run: "dav_release L p flags g = (Ret 0, g')" if "dav_unlock L p g = (Ret r, g')" for r g'
    using that c by (simp add: dav_release_def flow_simps)
  have "lib_chunk L \<noteq> 0" using L by (simp add: lib_sane_def)
  with i show ?thesis
    by (cases rule: dav_unlock_cases [where path = p])
      (use True n run in \<open>auto simp: session_step_def counted_def\<close>)
qed

lemma fine_step:
  assumes L: "setopt_ok L" "lib_sane L" "unat (lib_chunk L) < 2 ^ 31" and ok: "op_ok L op" and I: "counted L U (g, n)"
  shows "fine (counted L U) (session_step L op (g, n))"
proof (cases op)
  case (Write p buf sz offset)
  with fine_write [OF L I] ok show ?thesis by blast
next
  case (Getattr p st)
  then show ?thesis using fine_propfind [OF L(2) I dav_getattr_def] by (simp add: session_step_def)
next
  case (Readdir p)
  then show ?thesis using fine_propfind [OF L(2) I dav_readdir_def] by (simp add: session_step_def)
qed (use fine_open [OF L(2) I] fine_release [OF L(2) I] fine_read [OF L(2) I] ok in auto)

lemma fine_session:
  assumes L: "setopt_ok L" "lib_sane L" "unat (lib_chunk L) < 2 ^ 31"
  shows "list_all (op_ok L) ops \<Longrightarrow> counted L U s \<Longrightarrow> fine (counted L U) (session L ops s)"
proof (induction ops arbitrary: s)
  case (Cons op ops)
  from fine_step [OF L, of op U "fst s" "snd s"] Cons show ?case by (cases "session_step L op s") auto
qed simp

subsection \<open>Properties\<close>



end
