(* ===== verification/Dav_Delete_Laws.thy ===== *)
theory Dav_Delete_Laws
  imports Dav_Table_Laws Dav_Method_Laws
begin

text \<open>
  The methods without a body under the read-write lock: which request goes out, and what becomes of
  the lock of the path when it is deleted.
\<close>

subsection \<open>The lock table\<close>

text \<open>The lock table as it was, and as it is after the If header was made under a lock of this type.\<close>

definition kept :: "('w, 'a) davw_scheme \<Rightarrow> ('w, 'a) davw_scheme \<Rightarrow> bool" where
  "kept g g' \<longleftrightarrow> sv_tree g' = sv_tree g \<and> locks g' = locks g \<and> sv_options g' = sv_options g \<and> sv_allow g' = sv_allow g \<and> lock_wf g'"

definition after :: "LockType \<Rightarrow> string \<Rightarrow> ('w, 'a) davw_scheme \<Rightarrow> ('w, 'a) davw_scheme \<Rightarrow> bool" where
  "after lt path g g' = (if lt = RW_LOCK_WRITE then forgets path g g' else kept g g')"

lemma kept_server_is: "server_is g g' \<Longrightarrow> lock_wf g \<Longrightarrow> kept g g'"
  using lock_wf_server_is [of g g'] by (simp add: kept_def) (simp add: server_is_def)

lemma kept_step: "kept s g \<Longrightarrow> server_is g g' \<Longrightarrow> kept s g'"
  using lock_wf_server_is [of g g'] by (simp add: kept_def) (simp add: server_is_def)

lemma after_server_is:
  "server_is s g \<Longrightarrow> after lt path g g' \<Longrightarrow> after lt path s g'" "server_is s g \<Longrightarrow> kept g g' \<Longrightarrow> kept s g'"
  "after lt path s g \<Longrightarrow> server_is g g' \<Longrightarrow> after lt path s g'"
proof -
  show k: "server_is s g \<Longrightarrow> kept g g' \<Longrightarrow> kept s g'" for s g g' by (simp add: kept_def server_is_def)
  show "server_is s g \<Longrightarrow> after lt path g g' \<Longrightarrow> after lt path s g'" using forgets_server_is(1) k by (auto simp: after_def split: if_splits)
  show "after lt path s g \<Longrightarrow> server_is g g' \<Longrightarrow> after lt path s g'" using forgets_server_is(2) kept_step by (auto simp: after_def split: if_splits)
qed

lemma after_set_rw [simp]:
  "after lt path (set_rw x g) g' = after lt path g g'" "after lt path g (set_rw x g') = after lt path g g'"
  "kept (set_rw x g) g' = kept g g'" "kept g (set_rw x g') = kept g g'"
  by (simp_all add: after_def kept_def forgets_def) (simp_all add: set_rw_def)

lemma set_rw_more [simp]:
  "easy (set_rw x g) = easy g" "if_of (set_rw x g) p = if_of g p" "answered L rq (set_rw x g) = answered L rq g"
  by (simp_all add: set_rw_def if_of_def answered_def split: option.split)

lemma add_if_after:
  fixes g :: "('w, 'a) davw_scheme"
  assumes "\<not> has g" "lock_wf g" "pool_inv L U g"
  obtains (added) g' where "(add_if L path lt :: ('w, 'a, 'r) davs) (l, g) = (Next, (l\<lparr>f_list := f_list l @ if_of g path\<rparr>, g'))"
      "after lt path g g'" "\<not> has g'" "easy g' = easy g" "rw g' = rw g" "pool_inv L U g'"
  | (failed) l' g' where "(add_if L path lt :: ('w, 'a, 'r) davs) (l, g) = (Brk, (l', g'))" "has g'" "kept g g'" "rw g' = rw g" "pool_inv L U g'"
      "\<not> slist_ok L"
proof (cases "lt = RW_LOCK_WRITE")
  case True
  have e: "kept g (g\<lparr>lib := w, ex := e\<rparr>)" "rw (g\<lparr>lib := w, ex := e\<rparr>) = rw g" "pool_inv L U (g\<lparr>lib := w, ex := e\<rparr>)" for w e
    using assms by (simp_all add: kept_def lock_wf_def lock_entry_def rw_def pool_inv_def)
  from assms show thesis
    by (cases rule: add_if_write [where 'r = 'r and path = path and l = l]) (use True that e in \<open>auto simp: after_def\<close>)
next
  case False
  show thesis
  proof (cases "tfind path (sv_tree g)")
    case None
    from add_if_absent [OF this assms(1), where 'r = 'r and L = L and lt = lt and l = l] show thesis
      by (intro added [of g]) (use assms False None in \<open>simp_all add: after_def kept_def if_of_def\<close>)
  next
    case (Some a)
    from assms(1,2) Some show thesis
      by (cases rule: add_if_run [where 'r = 'r and lt = lt and L = L and l = l])
        (use False assms that in \<open>auto simp: after_def kept_def lock_wf_def lock_entry_def rw_def pool_inv_def\<close>)
  qed
qed

subsection \<open>The request\<close>

lemma method_request_locked:
  fixes g :: "('w, 'a) davw_scheme"
  assumes "use_lock (sv_options g)" "lt \<noteq> RW_LOCK_NONE" "\<not> has g"
    and "(block (add_if L path lt # bare_send L mth h) :: ('w, 'a, int) davs) (l\<lparr>f_list := []\<rparr>, g) = (f, (l', g'))" "f = Next \<or> f = Brk"
  shows "method_request L path mth lt h (l, g) = (if has g' then Brk else Next, (l'\<lparr>f_list := []\<rparr>, g'))"
proof -
  let ?b = "block (whenc (\<lambda>s. locking s \<and> lt \<noteq> RW_LOCK_NONE) (block [add_if L path lt, setopt_list L h]) # plain_send L mth h) :: ('w, 'a, int) davs"
  have "(add_if L path lt :: ('w, 'a, int) davs) # bare_send L mth h = [add_if L path lt, setopt_list L h] @ plain_send L mth h" by (simp add: bare_send_def)
  then have "(case block [add_if L path lt, setopt_list L h] (l\<lparr>f_list := []\<rparr>, g) of (f, s') \<Rightarrow>
      if f = Next then block (plain_send L mth h) s' else (f, s')) = (f, (l', g'))"
    using assms(4) by (simp only: block_append)
  then have "?b (l\<lparr>f_list := []\<rparr>, g) = (f, (l', g'))" using assms(1,2) by (simp add: whenc_simp locking_def)
  from scoped_run [where b = ?b and L = L, OF this assms(5,3)] show ?thesis by (simp add: method_request_def plain_send_def)
qed

lemma method_request_cases:
  fixes g :: "('w, 'a) davw_scheme"
  assumes L: "setopt_ok L" and I: "pool_inv L U g" "h \<in> U" "lock_wf g" and e: "\<not> has g" and lk: "use_lock (sv_options g)" "lt \<noteq> RW_LOCK_NONE"
    and m: "easy g h = Some m" "m CURLOPT_READDATA = None"
  obtains (sent) l' g' where "method_request L path mth lt h (l, g) = (Next, (l', g'))" "\<not> has g'" "pool_inv L U g'" "after lt path g g'"
      "rw g' = rw g" "answered L (bare_rq mth m (if_of g path)) g'"
  | (failed) l' g' where "method_request L path mth lt h (l, g) = (Brk, (l', g'))" "has g'" "pool_inv L U g'"
      "kept g g' \<and> \<not> slist_ok L \<or> after lt path g g'" "rw g' = rw g"
proof -
  let ?l = "l\<lparr>f_list := []\<rparr>"
  note run = method_request_locked [OF lk e, of L path mth h l]
  from e I(3,1) show thesis
  proof (cases rule: add_if_after [where 'r = int and path = path and lt = lt and l = ?l])
    case (added g1)
    have e1: "easy g1 h = Some m" using added(4) m(1) by simp
    obtain f g2 where b: "(block (bare_send L mth h) :: ('w, 'a, int) davs) (l\<lparr>f_list := if_of g path\<rparr>, g1) = (f, (l\<lparr>f_list := if_of g path\<rparr>, g2))"
      "pool_inv L U g2" "server_is g1 g2"
      "f = Next \<and> \<not> has g2 \<and> answered L (bare_rq mth m (if_of g path)) g2 \<or> f = Brk \<and> has g2"
      using bare_send_run [where 'r = int, OF L added(6) I(2) added(3) e1 m(2), of mth "l\<lparr>f_list := if_of g path\<rparr>"] by auto
    have "(block (add_if L path lt # bare_send L mth h) :: ('w, 'a, int) davs) (?l, g) = (f, (l\<lparr>f_list := if_of g path\<rparr>, g2))"
      using added(1) b(1) by simp
    from run [OF this] b(4) have "method_request L path mth lt h (l, g) = (if has g2 then Brk else Next, (?l, g2))" by auto
    then show thesis
      using b after_server_is(3) [OF added(2) b(3)] rw_server_is [OF b(3)] added(5) sent [of ?l g2] failed [of ?l g2] by auto
  next
    case (failed l' g1)
    have "(block (add_if L path lt # bare_send L mth h) :: ('w, 'a, int) davs) (?l, g) = (Brk, (l', g1))" using failed(1) by simp
    from run [OF this] failed(2) have "method_request L path mth lt h (l, g) = (Brk, (l'\<lparr>f_list := []\<rparr>, g1))" by simp
    then show thesis by (rule that(2)) (use failed in auto)
  qed
qed

lemma method_body_sent:
  fixes g :: "('w, 'a) davw_scheme"
  assumes L: "setopt_ok L" and I: "pool_inv L U g" "h \<in> U" "lock_wf g" and e: "\<not> has g"
    and lk: "use_lock (sv_options g)" "lt \<noteq> RW_LOCK_NONE" "rw_free lt g"
    and m: "easy g h = Some m" "m CURLOPT_READDATA = None"
  obtains (sent) l' g' where "method_body L path mth lt h (l, g) = (Next, (l', g'))" "\<not> has g'" "pool_inv L U g'" "after lt path g g'"
      "rw g' = rw g" "answered L (bare_rq mth m (if_of g path)) g'"
  | (failed) l' g' where "method_body L path mth lt h (l, g) = (Brk, (l', g'))" "has g'" "pool_inv L U g'"
      "kept g g' \<and> \<not> slist_ok L \<or> after lt path g g'" "rw g' = rw_taken lt (rw g)"
proof -
  let ?g = "set_rw (rw_taken lt (rw g)) g"
  have take: "(take_rwlock lt :: ('w, 'a, int) davs) (l, g) = (Next, (l, ?g))" by (rule take_rwlock_free [OF lk(3)])
  have lkg: "locking (l, g)" using lk by (simp add: locking_def)
  have pre: "pool_inv L U ?g" "lock_wf ?g" "\<not> has ?g" "use_lock (sv_options ?g)" "easy ?g h = Some m" using I e lk m by simp_all
  from L pre(1) I(2) pre(2-4) lk(2) pre(5) m(2) show thesis
  proof (cases rule: method_request_cases [where path = path and mth = mth and l = l])
    case (sent l' g')
    have op: "sv_options g' = sv_options g" using sent(4) by (auto simp: after_def kept_def forgets_def split: if_splits)
    have "(rw_unlock :: ('w, 'a, int) davs) (l', g') = (Next, (l', set_rw (rw g) g'))"
      by (rule rw_unlock_taken [OF lk(3,2)]) (use sent(5) in simp)
    then have "method_body L path mth lt h (l, g) = (Next, (l', set_rw (rw g) g'))"
      using take lkg lk sent(1) op by (simp add: method_body_def whenc_simp locking_def)
    then show thesis by (rule that(1)) (use sent in simp_all)
  next
    case (failed l' g')
    have "method_body L path mth lt h (l, g) = (Brk, (l', g'))"
      using take lkg lk failed(1) by (simp add: method_body_def whenc_simp)
    then show thesis by (rule that(2)) (use failed in auto)
  qed
qed

text \<open>The method as a whole.\<close>

definition method_done :: "'w libs \<Rightarrow> string \<Rightarrow> string \<Rightarrow> ('w, 'a) davw_scheme \<Rightarrow> ('w, 'a) davw_scheme \<Rightarrow> bool" where
  "method_done L path mth g g' \<longleftrightarrow> (\<exists>m. taken L g path m \<and> last_sent L (bare_rq mth m (if_of g path)) g')"

lemma method_sent_cases:
  fixes g :: "('w, 'a) davw_scheme"
  assumes L: "setopt_ok L" and I: "pool_inv L U g" "lock_wf g" and lk: "use_lock (sv_options g)" "lt \<noteq> RW_LOCK_NONE" "rw_free lt g"
  obtains (sent) g' where "dav_method L path mth lt g = (Ret 0, g')" "\<not> has g'" "pool_inv L U g'" "after lt path g g'"
      "rw g' = rw g" "method_done L path mth g g'"
  | (failed) g' where "dav_method L path mth lt g = (Ret 1, g')" "has g'" "pool_inv L U g'"
      "kept g g' \<and> (no_handle L g path \<or> \<not> slist_ok L) \<or> after lt path g g' \<and> \<not> no_handle L g path"
      "rw g' = (if no_handle L g path then rw g else rw_taken lt (rw g))"
proof -
  let ?b = "method_body L path mth lt"
  let ?Q = "\<lambda>m g3. after lt path g g3 \<and> rw g3 = rw g \<and> answered L (bare_rq mth m (if_of g path)) g3"
  let ?R = "\<lambda>g3. (kept g g3 \<and> (no_handle L g path \<or> \<not> slist_ok L) \<or> after lt path g g3 \<and> \<not> no_handle L g path) \<and>
    rw g3 = (if no_handle L g path then rw g else rw_taken lt (rw g))"
  have eq: "dav_method L path mth lt g = (Ret (if has g4 then 1 else 0), g4)"
    if "with_server L (Some path) ?b (dframe0 L, g) = (Next, (l4, g4))" for l4 g4
    using that by (simp add: dav_method_body method_body_def [abs_def] flow_simps ret_status_def TEST_SUCCESS_def)
  have "server_ends L U g path (dframe0 L) ?b ?Q ?R"
    unfolding server_ends_def
  proof (intro allI impI, elim conjE)
    fix h g1 m assume 1: "pool_inv L (insert h U) g1" "server_is g g1" "\<not> has g1" "easy g1 h = Some m" "m CURLOPT_READDATA = None"
        "\<not> no_handle L g path"
    have s1: "lock_wf g1" "use_lock (sv_options g1)" "rw_free lt g1" "rw g1 = rw g" "if_of g1 path = if_of g path"
      using lock_wf_server_is [OF 1(2) I(2)] lk 1(2) by (simp_all add: server_is_def rw_free_def rw_def if_of_def split: option.split)
    from L 1(1) insertI1 s1(1) 1(3) s1(2) lk(2) s1(3) 1(4,5)
    show "\<exists>f l3 g3. ?b h (dframe0 L, g1) = (f, (l3, g3)) \<and> pool_inv L (insert h U) g3 \<and> (f = Next \<and> \<not> has g3 \<and> ?Q m g3 \<or> f = Brk \<and> has g3 \<and> ?R g3)"
      by (cases rule: method_body_sent [where path = path and mth = mth and l = "dframe0 L"])
        (use after_server_is(1,2) [OF 1(2)] s1(4,5) 1(6) in auto)
  qed
  moreover have "\<forall>g1. server_is g g1 \<and> no_handle L g path \<longrightarrow> ?R g1" using kept_server_is I(2) rw_server_is by auto
  ultimately show thesis
  proof (cases rule: server_cases [OF I(1), consumes 2, case_names sent failed])
    case (sent m l' g3 g4)
    then have "method_done L path mth g g4" by (auto simp: method_done_def)
    with sent eq [OF sent(1)] after_server_is(3) [OF _ sent(6)] rw_server_is [OF sent(6)] show thesis by (intro that(1) [of g4]) auto
  next
    case (failed l' g3 g4)
    have "kept g g4 \<and> (no_handle L g path \<or> \<not> slist_ok L) \<or> after lt path g g4 \<and> \<not> no_handle L g path" using failed(5) after_server_is(3) [OF _ failed(4)] kept_step [OF _ failed(4)] by blast
    with failed eq [OF failed(1)] rw_server_is [OF failed(4)] show thesis by (intro that(2) [of g4]) auto
  qed
qed

text \<open>\<open>dav_unlink\<close> on a state in which the read-write lock is free.\<close>

lemma unlink_cases:
  fixes g :: "('w, 'a) davw_scheme"
  assumes "setopt_ok L" "pool_inv L U g" "lock_wf g" "use_lock (sv_options g)" "rw g = (0, False)"
  obtains (deleted) g' where "dav_unlink L path g = (Ret 0, g')" "\<not> has g'" "pool_inv L U g'" "forgets path g g'" "rw g' = (0, False)"
      "method_done L path ''DELETE'' g g'"
  | (failed) g' where "dav_unlink L path g = (Ret (exception_errno (ex g')), g'\<lparr>ex := Exception_destory (ex g')\<rparr>)" "pool_inv L U g'"
      "kept g g' \<or> forgets path g g'"
proof -
  have f: "RW_LOCK_WRITE \<noteq> RW_LOCK_NONE" "rw_free RW_LOCK_WRITE g" using assms(5) by (simp_all add: rw_free_def rw_def)
  note run = dav_unlink_def dav_delete_def flow_simps ret_call_def dav_exception_check_def dav_exception_map_def
  from assms(1-4) f show thesis
  proof (cases rule: method_sent_cases [where path = path and mth = "''DELETE''"])
    case (sent g')
    then show thesis using assms(5) by (intro deleted [of g']) (simp_all add: run after_def)
  next
    case (failed g')
    then show thesis by (intro that(2) [of g']) (auto simp: run after_def)
  qed
qed

subsection \<open>Properties\<close>

text \<open>C12: deleting a file with locks, from a state in which the read-write lock is free. \<open>dav_unlink\<close> ends
  without an exception left. It returns 0 only when the last request, made with a handle opened for the
  path and answered with success, was a DELETE with the token of the client's lock as its only header;
  then the entry of the path is gone from the lock table and its lock freed, every other entry is as
  before and the read-write lock is free again. Otherwise it returns one of the seven error numbers of
  \<open>dav_exception_map\<close>; only the entry of the path may be gone.\<close>

theorem dav_unlink_outcome:
  assumes "setopt_ok L" "pool_inv L U g" "lock_wf g" "use_lock (sv_options g)" "rw g = (0, False)"
  shows "\<exists>r g'. dav_unlink L path g = (Ret r, g') \<and> \<not> Exception_has (ex g') \<and> pool_inv L U g' \<and> lock_wf g' \<and>
    (r = 0 \<and> method_done L path ''DELETE'' g g' \<and> forgets path g g' \<and> rw g' = (0, False) \<or>
     r \<in> {- ENOENT, - EEXIST, - EBUSY, - EOPNOTSUPP, - ENOSPC, - ENOMEM, - EIO} \<and> (kept g g' \<or> forgets path g g'))"
  using assms
proof (cases rule: unlink_cases [where path = path])
  case (deleted g')
  then show ?thesis by (auto simp: forgets_def)
next
  case (failed g')
  then have "kept g (g'\<lparr>ex := Exception_destory (ex g')\<rparr>) \<or> forgets path g (g'\<lparr>ex := Exception_destory (ex g')\<rparr>)"
    by (auto simp: kept_def forgets_def lock_wf_def)
  moreover from this have "lock_wf (g'\<lparr>ex := Exception_destory (ex g')\<rparr>)" by (auto simp: kept_def forgets_def)
  ultimately show ?thesis using failed exception_errno_values [of "ex g'"] by auto
qed

theorem dav_unlink_outcome_witness:
  "\<exists>g'. dav_unlink (demo_lib reply_ok) ''/a'' held0 = (Ret 0, g') \<and> method_done (demo_lib reply_ok) ''/a'' ''DELETE'' held0 g' \<and>
     tfind ''/a'' (sv_tree g') = None"
proof -
  let ?L = "demo_lib reply_ok"
  have "fst (dav_unlink ?L ''/a'' held0) = Ret 0"
    unfolding held0_def
    by (simp add: dav_unlink_def dav_delete_def ret_call_def dav_exception_check_def curl_slist_append_e_def tdelete_def demo_steps)
  then show ?thesis
    using dav_unlink_outcome [of ?L "{}" held0 "''/a''"] lock_wf_client0(2) demo_setopt_ok lock_tree.find_del [of "''/a''" "''/a''" "sv_tree held0"]
    by (auto simp: held0_def pool_inv_client0 forgets_def)
qed

text \<open>C30: a DELETE that fails at the server loses the lock. When a handle and the memory for the header could
  be had and the call still fails, the entry of the path is gone and its lock freed, although the file
  and its lock are still on the server: the client no longer knows the token, so that its next PUT
  carries no If header. The write lock is never given back.\<close>

theorem failed_delete_forgets:
  assumes "setopt_ok L" "slist_ok L" "pool_inv L U g" "lock_wf g" "use_lock (sv_options g)" "rw g = (0, False)"
    and "\<not> no_handle L g path" "dav_delete L path g = (Ret 1, g')"
  shows "Exception_has (ex g') \<and> forgets path g g' \<and> if_of g' path = [] \<and> rw g' = (0, True)"
proof -
  have f: "RW_LOCK_WRITE \<noteq> RW_LOCK_NONE" "rw_free RW_LOCK_WRITE g" using assms(6) by (simp_all add: rw_free_def rw_def)
  from assms(1,3-5) f show ?thesis
    by (cases rule: method_sent_cases [where path = path and mth = "''DELETE''"])
      (use assms(2,6-8) if_of_forgets [of path g g' path] in \<open>auto simp: dav_delete_def after_def\<close>)
qed

theorem failed_delete_forgets_witness:
  "\<exists>g'. dav_delete (demo_lib (reply_error 423)) ''/a'' held0 = (Ret 1, g') \<and> if_of held0 ''/a'' = [''If: (<t>)''] \<and>
     if_of g' ''/a'' = [] \<and> rw g' = (0, True)"
proof -
  let ?L = "demo_lib (reply_error 423)"
  have "fst (dav_delete ?L ''/a'' held0) = Ret 1"
    unfolding held0_def by (simp add: dav_delete_def curl_slist_append_e_def tdelete_def demo_steps)
  then obtain g' where g': "dav_delete ?L ''/a'' held0 = (Ret 1, g')" by (cases "dav_delete ?L ''/a'' held0") simp
  have "slist_ok ?L" by (simp add: slist_ok_def)
  moreover have "\<not> no_handle ?L held0 ''/a''" by (simp add: no_handle_def held0_def demo_init_client)
  moreover have "if_of held0 ''/a'' = [''If: (<t>)'']" by (simp add: if_of_def held0_def client0_def tfind_def if_header_def)
  ultimately show ?thesis
    using failed_delete_forgets [of ?L "{}" held0 "''/a''" g'] g' lock_wf_client0(2) demo_setopt_ok
    by (auto simp: held0_def pool_inv_client0)
qed

text \<open>C28: another race of \<open>dav_unlock\<close>. The last user of a path has counted down to zero; before it enters the
  second critical section another thread deletes the file, which removes the entry and frees the lock.
  The first thread finds no entry, but its pointer is still set: it reads the freed lock.\<close>

theorem unlock_delete_race:
  assumes I: "lock_inv L U g" and L: "setopt_ok L" and one: "lock_count g path = 1"
  shows "\<exists>u g1. (unlock_count path (uframe0, g) :: int flow \<times> _) = (Next, (u, g1)) \<and>
    (\<forall>g2. dav_delete L path g1 = (Ret 0, g2) \<longrightarrow> fst (block [unlock_remove path, unlock_send L] (u, g2)) = Stop Segv)"
proof -
  obtain a where a: "tfind path (sv_tree g) = Some a"
    using one by (cases "tfind path (sv_tree g)") (simp_all add: lock_count_def)
  from I a obtain fl where fl: "locks g a = Some fl" "fl_cnt fl = 1" using one by (auto elim: lock_inv_find)
  have pre: "use_lock (sv_options g)" "\<not> sv_writer g" "sv_readers g = 0" "pool_inv L U g" "lock_wf g"
    using I by (auto simp: lock_inv_def rw_def)
  let ?g1 = "g\<lparr>locks := (locks g)(a \<mapsto> fl\<lparr>fl_cnt := 0\<rparr>)\<rparr>" and ?u = "uframe0\<lparr>u_filelock := Some a\<rparr>"
  have 1: "(unlock_count path (uframe0, g) :: int flow \<times> _) = (Next, (?u, ?g1))"
    using unlock_count_found [OF pre(2) a fl(1)] fl(2) by simp
  have pre1: "pool_inv L U ?g1" "lock_wf ?g1" "use_lock (sv_options ?g1)" "RW_LOCK_WRITE \<noteq> RW_LOCK_NONE" "rw_free RW_LOCK_WRITE ?g1"
    using pre fl by (auto simp: pool_inv_def rw_free_def lock_wf_def lock_entry_def)
  have "fst (block [unlock_remove path, unlock_send L] (?u, g2)) = Stop Segv" if d: "dav_delete L path ?g1 = (Ret 0, g2)" for g2
  proof -
    from L pre1 have "forgets path ?g1 g2 \<and> rw g2 = (0, False)"
      by (cases rule: method_sent_cases [where path = path and mth = "''DELETE''"])
        (use d pre in \<open>auto simp: dav_delete_def after_def rw_def\<close>)
    then have "tfind path (sv_tree g2) = None" "locks g2 a = None" "\<not> sv_writer g2" "sv_readers g2 = 0"
      using a lock_tree.find_del [of path path "sv_tree g"] by (auto simp: forgets_def rw_def)
    then show ?thesis
      by (simp add: unlock_remove_def synchronized_wrlock_def unlock_send_def with_filelock_def flow_simps)
  qed
  with 1 show ?thesis by blast
qed

theorem unlock_delete_race_witness:
  "\<exists>u g1 g2. (unlock_count ''/a'' (uframe0, held0) :: int flow \<times> _) = (Next, (u, g1)) \<and> dav_delete (demo_lib reply_ok) ''/a'' g1 = (Ret 0, g2) \<and>
    fst (block [unlock_remove ''/a'', unlock_send (demo_lib reply_ok)] (u, g2)) = Stop Segv"
proof -
  let ?L = "demo_lib reply_ok" and ?g1 = "client0 [(''/a'', 0)] [0 \<mapsto> \<lparr>fl_path = Some ''/a'', fl_token = Some ''t'', fl_cnt = 0\<rparr>] 1"
  obtain u g1 where u: "(unlock_count ''/a'' (uframe0, held0) :: int flow \<times> _) = (Next, (u, g1))" and
    r: "\<And>g2. dav_delete ?L ''/a'' g1 = (Ret 0, g2) \<Longrightarrow> fst (block [unlock_remove ''/a'', unlock_send ?L] (u, g2)) = Stop Segv"
    using unlock_delete_race [OF lock_inv_demo(2) demo_setopt_ok, of "''/a''" reply_ok] by (auto simp: held0_simps)
  have "g1 = ?g1"
    using u by (simp add: unlock_count_def held0_def client0_def synchronized_rdlock_def with_filelock_def set_filelock_def tfind_def flow_simps)
  moreover have "fst (dav_delete ?L ''/a'' ?g1) = Ret 0"
    by (simp add: dav_delete_def curl_slist_append_e_def tdelete_def demo_steps)
  ultimately obtain g2 where "dav_delete ?L ''/a'' g1 = (Ret 0, g2)" by (cases "dav_delete ?L ''/a'' ?g1") simp
  with u r show ?thesis by blast
qed

end
