(* ===== verification/Dav_Copy_Laws.thy ===== *)
theory Dav_Copy_Laws
  imports Dav_Delete_Laws Dav_List_Laws
begin

text \<open>
  Copying on the server, and the two operations that are built from whole requests: copying a range
  and changing the length of a file.
\<close>

subsection \<open>COPY\<close>

definition copy_lock :: "'w libs \<Rightarrow> string \<Rightarrow> ('w, 'a, int) davs" where
  "copy_lock L dst = whenc locking (block [rw_rdlock, add_if L dst RW_LOCK_READ])"

definition copy_block :: "'w libs \<Rightarrow> string \<Rightarrow> addr \<Rightarrow> ('w, 'a, int) davs" where
  "copy_block L dst curl = block (throwable (assign_list (\<lambda>l. dav_header_destination L l dst)) # copy_lock L dst #
     bare_send L ''COPY'' curl @ [whenc locking rw_unlock])"

lemma dav_copy_body: "dav_copy L src dst = scoped_method L src (copy_block L dst)"
  by (simp add: dav_copy_def scoped_method_def copy_block_def copy_lock_def bare_send_def plain_send_def)

text \<open>The headers: the address of the new file and, with locks, the token of the client's lock on it.\<close>

definition copy_ifs :: "('w, 'a) davw_scheme \<Rightarrow> string \<Rightarrow> string list" where
  "copy_ifs g dst = (if use_lock (sv_options g) then if_of g dst else [])"

definition copy_rq :: "'w libs \<Rightarrow> string \<Rightarrow> ('w, 'a) davw_scheme \<Rightarrow> easy_opts \<Rightarrow> request \<Rightarrow> bool" where
  "copy_rq L dst g m rq \<longleftrightarrow> (\<exists>url. destination_url L (sv_baseuh g) dst url \<and>
     rq = bare_rq ''COPY'' m ((''Destination: '' @ url) # copy_ifs g dst))"

definition copy_done :: "'w libs \<Rightarrow> string \<Rightarrow> string \<Rightarrow> ('w, 'a) davw_scheme \<Rightarrow> ('w, 'a) davw_scheme \<Rightarrow> bool" where
  "copy_done L src dst g g' \<longleftrightarrow> (\<exists>m rq. taken L g src m \<and> copy_rq L dst g m rq \<and> last_sent L rq g')"

lemma copy_rq_server_is: "server_is s g \<Longrightarrow> copy_rq L dst g = copy_rq L dst s"
  by (intro ext) (simp add: copy_rq_def copy_ifs_def if_of_def server_is_def split: option.split)

lemma destination_cases:
  fixes g :: "('w, 'a) davw_scheme"
  assumes "pool_inv L U g" "\<not> has g"
  obtains (added) url w where "(throwable (assign_list (\<lambda>l. dav_header_destination L l dst)) :: ('w, 'a, int) davs) (l, g) =
      (Next, (l\<lparr>f_list := f_list l @ [''Destination: '' @ url]\<rparr>, g\<lparr>lib := w\<rparr>))" "destination_url L (sv_baseuh g) dst url"
  | (failed) l' g' where "(throwable (assign_list (\<lambda>l. dav_header_destination L l dst)) :: ('w, 'a, int) davs) (l, g) = (Brk, (l', g'))"
      "has g'" "pool_inv L U g'" "server_is g g'"
proof -
  obtain f1 g1 where 1: "dav_header_destination L (f_list l) dst g = (f1, g1)" by fastforce
  have "framed (server_is g) L U g" using assms by (simp add: framed_def)
  from snapshot.gives_header_destination [unfolded gives_def, rule_format, OF this 1] obtain v where
    v: "f1 = Ret v" "pool_inv L U g1" "server_is g g1" by (auto simp: framed_def)
  note run = assign_list_def flow_simps 1 v(1)
  show thesis
  proof (cases "has g1")
    case True
    with v show thesis by (intro failed [of "l\<lparr>f_list := v\<rparr>" g1]) (simp_all add: run)
  next
    case False
    with header_destination_list [of L "f_list l" dst g v g1] 1 v(1) assms(2) obtain url w where
      "destination_url L (sv_baseuh g) dst url" "v = f_list l @ [''Destination: '' @ url]" "g1 = g\<lparr>lib := w\<rparr>" by auto
    with False show thesis by (intro added [of url w]) (simp_all add: run)
  qed
qed

lemma copy_lock_cases:
  fixes g :: "('w, 'a) davw_scheme"
  assumes e: "\<not> has g" and I: "lock_wf g" "\<not> sv_writer g" "pool_inv L U g"
  obtains (ready) l' g' where "copy_lock L dst (l, g) = (Next, (l', g'))" "f_list l' = f_list l @ copy_ifs g dst" "\<not> has g'"
      "pool_inv L U g'" "server_is (reading g) g'" "easy g' = easy g"
  | (failed) l' g' where "copy_lock L dst (l, g) = (Brk, (l', g'))" "has g'" "pool_inv L U g'" "server_is (reading g) g'"
proof (cases "use_lock (sv_options g)")
  case False
  then show thesis using e I by (intro ready [of l g]) (simp_all add: copy_lock_def whenc_simp locking_def copy_ifs_def reading_def)
next
  case True
  note lk = True copy_lock_def whenc_simp locking_def reading_def copy_ifs_def
  from e I show thesis
  proof (cases rule: read_if_cases [where 'r = int and path = dst and l = l])
    case (added g')
    then show thesis by (intro ready [of "l\<lparr>f_list := f_list l @ if_of g dst\<rparr>" g']) (simp_all add: lk del: block.simps)
  next
    case (failed l' g')
    then show thesis by (intro that(2) [of l' g']) (simp_all add: lk del: block.simps)
  qed
qed

lemma copy_block_cases:
  fixes g :: "('w, 'a) davw_scheme"
  assumes L: "setopt_ok L" and I: "pool_inv L U g" "h \<in> U" "lock_wf g" "\<not> sv_writer g" and e: "\<not> has g"
    and m: "easy g h = Some m" "m CURLOPT_READDATA = None" and l: "f_list l = []"
  obtains (sent) rq l' g' where "copy_block L dst h (l, g) = (Next, (l', g'))" "\<not> has g'" "pool_inv L U g'" "server_is g g'"
      "copy_rq L dst g m rq" "answered L rq g'"
  | (failed) l' g' where "copy_block L dst h (l, g) = (Brk, (l', g'))" "has g'" "pool_inv L U g'" "read_left g g'"
  using I(1) e
proof (cases rule: destination_cases [where dst = dst and l = l])
  case (added url w)
  let ?g1 = "g\<lparr>lib := w\<rparr>" and ?l1 = "l\<lparr>f_list := [''Destination: '' @ url]\<rparr>"
  have pre: "\<not> has ?g1" "lock_wf ?g1" "\<not> sv_writer ?g1" "pool_inv L U ?g1" using e I by (simp_all add: lock_wf_def lock_entry_def)
  have eq: "reading ?g1 = (reading g)\<lparr>lib := w\<rparr>" "copy_ifs ?g1 dst = copy_ifs g dst"
    by (simp_all add: reading_def copy_ifs_def if_of_def split: option.split)
  from pre show thesis
  proof (cases rule: copy_lock_cases [where dst = dst and l = ?l1])
    case (ready l2 g2)
    have e2: "easy g2 h = Some m" using ready(6) m by simp
    obtain f g3 where b: "(block (bare_send L ''COPY'' h) :: ('w, 'a, int) davs) (l2, g2) = (f, (l2, g3))" "pool_inv L U g3" "server_is g2 g3"
      "f = Next \<and> \<not> has g3 \<and> answered L (bare_rq ''COPY'' m (f_list l2)) g3 \<or> f = Brk \<and> has g3"
      by (rule bare_send_run [where 'r = int, OF L ready(4) I(2) ready(3) e2 m(2)])
    have s: "server_is (reading g) g3"
      using server_is_trans [OF ready(5) b(3)] unfolding eq(1) by (simp add: server_is_def)
    then have lk: "locking (l2, g3) = use_lock (sv_options g)" by (simp add: locking_def server_is_def reading_def)
    have rq: "copy_rq L dst g m (bare_rq ''COPY'' m (f_list l2))"
      using added(2) ready(2) eq(2) by (auto simp: copy_rq_def)
    have run: "copy_block L dst h (l, g) = (if f = Next then if use_lock (sv_options g) then (Next, (l2, given_back g3)) else (Next, (l2, g3))
        else (f, (l2, g3)))"
      using added(1) ready(1) b(1) lk l by (simp add: copy_block_def block_append whenc_simp rw_unlock_given_back)
    show thesis
    proof (cases "f = Next")
      case True
      then show thesis using run b rq s given_back_reading [OF s I(4)]
        by (intro sent [of l2 "if use_lock (sv_options g) then given_back g3 else g3"]) (auto simp: reading_def)
    next
      case False
      then show thesis using run b s by (intro failed [of l2 g3]) (auto simp: read_left_def)
    qed
  next
    case (failed l2 g2)
    have "copy_block L dst h (l, g) = (Brk, (l2, g2))" using added(1) failed(1) l by (simp add: copy_block_def)
    moreover have "server_is (reading g) g2" using failed(4) unfolding eq(1) by (simp add: server_is_def)
    ultimately show thesis by (intro that(2) [of l2 g2]) (use failed(2,3) in \<open>simp_all add: read_left_def\<close>)
  qed
next
  case (failed l1 g1)
  then show thesis by (intro that(2) [of l1 g1]) (simp_all add: copy_block_def read_left_def)
qed

lemma dav_copy_cases:
  fixes g :: "('w, 'a) davw_scheme"
  assumes L: "setopt_ok L" and I: "pool_inv L U g" "lock_wf g" "\<not> sv_writer g"
  obtains (copied) g' where "dav_copy L src dst g = (Ret 0, g')" "\<not> has g'" "pool_inv L U g'" "server_is g g'" "copy_done L src dst g g'"
  | (failed) g' where "dav_copy L src dst g = (Ret 1, g')" "has g'" "pool_inv L U g'" "read_left g g'"
proof -
  let ?b = "copy_block L dst" and ?l = "(dframe0 L)\<lparr>f_list := []\<rparr>"
  let ?Q = "\<lambda>m g3. server_is g g3 \<and> (\<exists>rq. copy_rq L dst g m rq \<and> answered L rq g3)"
  have "block_ends L U g src (dframe0 L) ?b ?Q (read_left g)"
    unfolding block_ends_def server_ends_def
  proof (intro allI impI, elim conjE)
    fix h g1 m assume 1: "pool_inv L (insert h U) g1" "server_is g g1" "\<not> has g1" "easy g1 h = Some m" "m CURLOPT_READDATA = None"
    have s1: "lock_wf g1" "\<not> sv_writer g1" "f_list ?l = []" using lock_wf_server_is [OF 1(2) I(2)] I(3) 1(2) by (simp_all add: server_is_def)
    note t = reading_server_is [OF 1(2)] server_is_trans [OF 1(2)]
    from L 1(1) insertI1 s1(1,2) 1(3,4,5) s1(3)
    show "\<exists>f l3 g3. ?b h (?l, g1) = (f, (l3, g3)) \<and> pool_inv L (insert h U) g3 \<and> (f = Next \<and> \<not> has g3 \<and> ?Q m g3 \<or> f = Brk \<and> has g3 \<and> read_left g g3)"
      by (cases rule: copy_block_cases [where dst = dst])
        (use t copy_rq_server_is [OF 1(2)] in \<open>auto 4 4 simp: read_left_def\<close>)
  qed
  moreover have "\<forall>g1. server_is g g1 \<and> no_handle L g src \<longrightarrow> read_left g g1" by (simp add: read_left_def)
  ultimately show thesis
  proof (cases rule: scoped_cases [OF I(1), consumes 2, case_names sent failed])
    case (sent m l' g3 g4)
    then have "copy_done L src dst g g4" by (auto simp: copy_done_def)
    with sent scoped_method_end [OF sent(1)] server_is_trans show thesis by (intro copied [of g4]) (auto simp: dav_copy_body)
  next
    case (failed l' g3 g4)
    then have "read_left g g4" unfolding read_left_def using server_is_trans by blast
    with failed scoped_method_end [OF failed(1)] show thesis by (intro that(2) [of g4]) (auto simp: dav_copy_body)
  qed
qed

end
