(* ===== verification/Dav_Range_Laws.thy ===== *)
theory Dav_Range_Laws
  imports Dav_Copy_Laws Dav_Text_Laws
begin

text \<open>
  The operations that are built from whole requests: copying a range of a file and changing its
  length.
\<close>

subsection \<open>HEAD\<close>

text \<open>The length that the header lines tell: that of the last line with the name \<open>Content-Length\<close>.\<close>

definition told_length :: "string list \<Rightarrow> u64 \<Rightarrow> u64" where
  "told_length = fold (\<lambda>h n. if strscmp_eq h ''Content-Length:'' then word_of_int (fst (strtol 10 (strlstrip (drop 15 h)))) else n)"

lemma feed_head: "feed dav_head_callback hs l g = (Ret (True, l\<lparr>f_size := told_length hs (f_size l)\<rparr>), g)"
  by (induction hs arbitrary: l) (simp_all add: dav_head_callback_def told_length_def flow_simps)

abbreviation head_sets :: "(CURLoption \<times> optval) list" where
  "head_sets \<equiv> [(CURLOPT_CUSTOMREQUEST, VStr (Some ''HEAD'')), (CURLOPT_NOBODY, VLong 1), (CURLOPT_HEADERDATA, VPtr),
     (CURLOPT_HEADERFUNCTION, VFun CB_dav_head_callback)]"

definition head_rq :: "easy_opts \<Rightarrow> request" where
  "head_rq m = \<lparr>rq_opts = m(CURLOPT_CUSTOMREQUEST \<mapsto> VStr (Some ''HEAD''), CURLOPT_NOBODY \<mapsto> VLong 1, CURLOPT_HEADERDATA \<mapsto> VPtr,
     CURLOPT_HEADERFUNCTION \<mapsto> VFun CB_dav_head_callback), rq_body = []\<rparr>"

lemma dav_head_run:
  fixes g :: "('w, 'a) davw_scheme"
  assumes L: "setopt_ok L" and I: "pool_inv L U g"
    and h: "curl_easy_init_common L (sv_baseuh g) (Some path) (Some (sv_options g)) g = (Ret (Some h), g1)" and m: "easy g1 h = Some m"
    and t: "lib_perform L (head_rq m) (setopts L head_sets (lib g1)) = (t, w')" and ok: "t_code t = CURLE_OK"
  obtains g' where "dav_head L path (Some 0) g = (Ret (0, told_length (t_headers t) 0), g')" "\<not> has g'" "pool_inv L U g'"
    "world.more g' = world.more g" "lib g' = snd (lib_malloc L w')"
proof -
  note g1 = handle_taken [OF I h]
  have m0: "m CURLOPT_READDATA = None" by (rule handle_no_data [OF I h m])
  let ?m = "rq_opts (head_rq m)" and ?l = "(dframe0 L)\<lparr>f_size := 0\<rparr>"
  let ?g = "g1\<lparr>lib := setopts L head_sets (lib g1), easy := (easy g1)(h \<mapsto> ?m)\<rparr>"
  let ?g2 = "?g\<lparr>lib := w', last_transfer := (last_transfer g1)(h := t)\<rparr>"
  have s: "sendable L ?m" using m0 by (simp add: sendable_def head_rq_def)
  have "pool_inv L (insert h U) (g1\<lparr>easy := (easy g1)(h \<mapsto> ?m)\<rparr>)" by (rule pool_inv_setopts [OF g1(2) m s])
  then have i: "pool_inv L (insert h U) ?g2" by (simp add: pool_inv_def)
  have u: "upload_body L ?m ?g = (Ret [], ?g)" using m0 by (simp add: upload_body_def flow_simps head_rq_def)
  have p: "curl_easy_perform L h dav_head_callback no_callback ?l ?g = (Ret (0, ?l\<lparr>f_size := told_length (t_headers t) 0\<rparr>), ?g2)"
    using perform_eq [of ?g h ?m L "[]" t w' dav_head_callback no_callback ?l] u t ok
    by (simp add: deliver_def callback_for_none feed_no_callback callback_for_def feed_head head_rq_def)
  have b: "head_request L (Some 0) h (?l, g1) = (Next, (?l\<lparr>f_size := told_length (t_headers t) 0\<rparr>, ?g2))"
    using p g1(4) m by (simp add: head_request_def head_rq_def flow_simps curl_easy_setopt_or_die_def setopt_def setopt_eq [OF L]
        curl_easy_perform_or_die_def)
  have "world.more ?g2 = world.more g" using g1(3) by simp
  from handle_back [where body = "head_request L (Some 0)", OF I h b _ i this] obtain g3 where
    g3: "with_server L (Some path) (head_request L (Some 0)) (?l, g) = (Next, (?l\<lparr>f_size := told_length (t_headers t) 0\<rparr>, g3))"
      "pool_inv L U g3" "world.more g3 = world.more g" "ex g3 = ex g1" "lib g3 = snd (lib_malloc L w')" by auto
  then have "dav_head L path (Some 0) g = (Ret (0, told_length (t_headers t) 0), g3)"
    using g1(4) by (simp add: dav_head_def head_request_def [abs_def] flow_simps TEST_SUCCESS_def)
  with g3 g1(4) show thesis by (intro that [of g3]) simp_all
qed

subsection \<open>PROPPATCH\<close>

lemma length_proppatch_frame: "length (proppatch_text [] [] []) < 2 ^ 20"
  by (simp add: proppatch_text_def xml_head_def quoted_def crlf_def)

lemma length_proppatch_body:
  assumes "length k + length v < 2 ^ 60"
  shows "length (proppatch_body k (Some v)) < 2 ^ 63"
proof -
  have "length (proppatch_body k (Some v)) \<le> length (proppatch_text ''set'' k v)"
    by (simp add: proppatch_body_def snprintf_def del: length_append)
  also have "\<dots> = length (proppatch_text [] [] []) + 2 * 3 + 2 * length k + length v"
    using length_proppatch_text [of "''set''" k v] by simp
  also have "\<dots> < 2 ^ 63" using assms length_proppatch_frame by simp
  finally show ?thesis .
qed

context dav_frame
begin

lemma proppatch_cases:
  assumes I: "framed P L U g" and L: "lib_sane L" and e: "\<not> has g" and k: "length k + length v < 2 ^ 60"
  obtains g' where "dav_proppatch L path k (Some v) g = (Ret (if has g' then 1 else 0), g')" "framed P L U g'"
proof -
  let ?d = "proppatch_body k (Some v)"
  let ?b = "Buffer_init_exist ?d (of_nat (length ?d)) False"
  let ?c = "with_server L (Some path) (\<lambda>curl.
     throwable (scope_slist L (Some CONTENT_TYPE_XML) (block [
             assign_list (\<lambda>l. curl_slist_append_weak L l PREFER_MINIMAL),
             setopt_list L curl,
             setopt L curl CURLOPT_UPLOAD (VLong 1),
             setopt_upload L curl ?b,
             setopt L curl CURLOPT_INFILESIZE (VLong (sint (bsize ?b))),
             curl_easy_setopt_or_die L curl CURLOPT_CUSTOMREQUEST (VStr (Some ''PROPPATCH'')),
             curl_easy_perform_or_die L curl no_callback no_callback]))) :: ('w, 'a, int) davs"
  have f: "fetch_ok ?b (lib_chunk L)" by (intro fetch_ok_init L length_proppatch_body k)
  have "ends {} (framed P L U) ?c" using L f unfolding lib_sane_def by (intro runs_intros | simp)+
  from this [unfolded ends_def] I show thesis
  proof (cases rule: postE [where l = "dframe0 L"])
    case (ok f l' g')
    then have "dav_proppatch L path k (Some v) g = (Ret (if has g' then 1 else 0), g')"
      using e by (simp add: dav_proppatch_def with_buffer_def flow_simps ret_status_def TEST_SUCCESS_def)
    with that ok show thesis by simp
  qed simp
qed

end

lemma length_mode_text: "length (mode_text md) < 19"
  by (simp add: mode_text_def snprintf_def)

lemma dav_chmod_cases:
  fixes g :: "('w, 'a) davw_scheme"
  assumes I: "pool_inv L U g" and L: "lib_sane L" and e: "\<not> has g"
  obtains (stored) g' where "dav_chmod L path md g = (Ret 0, g')" "\<not> has g'" "pool_inv L U g'" "server_is g g'"
      "dav_proppatch L path ''N:mode'' (Some (mode_text md)) g = (Ret 0, g')"
  | (failed) r g' where "dav_chmod L path md g = (Ret r, g')" "r < 0" "\<not> has g'" "pool_inv L U g'" "server_is g g'"
proof -
  have "framed (server_is g) L U g" using I by (simp add: framed_def)
  moreover have "length ''N:mode'' + length (mode_text md) < 2 ^ 60" using length_mode_text [of md] by simp
  ultimately obtain g' where g': "dav_proppatch L path ''N:mode'' (Some (mode_text md)) g = (Ret (if has g' then 1 else 0), g')"
    "pool_inv L U g'" "server_is g g'" using snapshot.proppatch_cases [OF _ L e] by (metis framed_def)
  show thesis
  proof (cases "has g'")
    case True
    then show thesis using g' exception_errno_neg
      by (intro failed [of "exception_errno (ex g')" "g'\<lparr>ex := Exception_destory (ex g')\<rparr>"])
        (simp_all add: dav_chmod_def flow_simps ret_call_def dav_exception_check_def dav_exception_map_def server_is_def)
  next
    case False
    then show thesis using g' by (intro stored [of g']) (simp_all add: dav_chmod_def flow_simps ret_call_def dav_exception_check_def)
  qed
qed

subsection \<open>Truncation\<close>

text \<open>To zero: the file is deleted and made again, and gets its mode.\<close>

definition emptied :: "'w libs \<Rightarrow> string \<Rightarrow> u32 \<Rightarrow> ('w, 'a) davw_scheme \<Rightarrow> ('w, 'a) davw_scheme \<Rightarrow> bool" where
  "emptied L path md g g' \<longleftrightarrow> (\<exists>g2 g3. method_done L path ''DELETE'' g g2 \<and> method_done L path ''PUT'' g2 g3 \<and> if_of g2 path = [] \<and>
     dav_proppatch L path ''N:mode'' (Some (mode_text md)) g3 = (Ret 0, g'))"

lemma truncate_zero_cases:
  fixes g :: "('w, 'a) davw_scheme"
  assumes L: "setopt_ok L" "lib_sane L" and I: "pool_inv L U g1" "lock_wf g1" "use_lock (sv_options g1)" "rw g1 = (0, False)"
    and a: "dav_getattr L path (lib_uninit_stat L) g = (Ret (0, st), g1)" "st_size st \<noteq> 0"
  obtains (emptied) g' where "dav_truncate L path 0 g = (Ret 0, g')" "\<not> has g'" "pool_inv L U g'" "forgets path g1 g'" "rw g' = (0, False)"
      "emptied L path (st_mode st) g1 g'"
  | (failed) r g' where "dav_truncate L path 0 g = (Ret r, g')" "r < 0" "\<not> has g'" "pool_inv L U g'" "lock_wf g'"
proof -
  note run = a dav_truncate_def flow_simps ret_call_def dav_exception_map_def
  have err: thesis if "dav_truncate L path 0 g = (Ret (exception_errno (ex k)), k\<lparr>ex := Exception_destory (ex k)\<rparr>)" "pool_inv L U k" "lock_wf k" for k
    by (rule failed [OF that(1) exception_errno_neg]) (use that in \<open>simp_all add: lock_wf_def\<close>)
  have f: "RW_LOCK_WRITE \<noteq> RW_LOCK_NONE" "rw_free RW_LOCK_WRITE g1" "RW_LOCK_READ \<noteq> RW_LOCK_NONE" using I(4) by (simp_all add: rw_free_def rw_def)
  from L(1) I(1-3) f(1,2) show thesis
  proof (cases rule: method_sent_cases [where path = path and mth = "''DELETE''"])
    case (sent g2)
    then have d: "dav_delete L path g1 = (Ret 0, g2)" by (simp add: dav_delete_def)
    have fg: "forgets path g1 g2" using sent(4) by (simp add: after_def)
    have pre: "pool_inv L U g2" "lock_wf g2" "use_lock (sv_options g2)" "rw_free RW_LOCK_READ g2"
      using sent(3,5) fg I(3,4) by (auto simp: forgets_def rw_free_def rw_def)
    note done2 = sent(6)
    from L(1) pre(1-3) f(3) pre(4) show thesis
    proof (cases rule: method_sent_cases [where path = path and mth = "''PUT''"])
      case (sent g3)
      then have p: "dav_put_simple L path g2 = (Ret 0, g3)" by (simp add: dav_put_simple_def)
      have k: "kept g2 g3" using sent(4) by (simp add: after_def)
      note put = sent
      from sent(3) L(2) sent(2) show thesis
      proof (cases rule: dav_chmod_cases [where path = path and md = "st_mode st"])
        case (stored g4)
        have "forgets path g2 g3" using k fg lock_tree.find_del [of path path "sv_tree g1"]
          by (auto simp: kept_def forgets_def tdelete_absent)
        then have "forgets path g1 g3" using k fg by (auto simp: kept_def forgets_def)
        from forgets_server_is(2) [OF this stored(4)] have "forgets path g1 g4" .
        moreover have "emptied L path (st_mode st) g1 g4"
          unfolding emptied_def using done2 put(6) stored(5) if_of_forgets [OF fg, of path] by auto
        ultimately show thesis using stored rw_server_is [OF stored(4)] put(5) \<open>rw g2 = rw g1\<close> I(4)
          by (intro that(1) [of g4]) (simp_all add: run d p)
      next
        case (failed r g4)
        have "lock_wf g4" using lock_wf_server_is [OF failed(5)] k by (simp add: kept_def)
        with failed show thesis by (intro that(2) [of r g4]) (simp_all add: run d p)
      qed
    next
      case (failed g3)
      then have "lock_wf g3" by (auto simp: after_def kept_def)
      then show thesis using failed by (intro err [of g3]) (simp_all add: run d dav_put_simple_def)
    qed
  next
    case (failed g2)
    then have "lock_wf g2" by (auto simp: after_def kept_def forgets_def)
    then show thesis using failed by (intro err [of g2]) (simp_all add: run dav_delete_def)
  qed
qed

subsection \<open>A server with one file\<close>

text \<open>It tells that the file has nine bytes, and answers every other request without a body of its own with two.\<close>

definition is_method :: "string \<Rightarrow> request \<Rightarrow> bool" where
  "is_method mth rq \<longleftrightarrow> rq_opts rq CURLOPT_CUSTOMREQUEST = Some (VStr (Some mth))"

definition file_reply :: "request \<Rightarrow> transfer" where
  "file_reply rq = (if is_method ''PROPFIND'' rq then reply_list rq
     else if is_method ''HEAD'' rq then (reply_ok rq)\<lparr>t_headers := [''Content-Length: 9'']\<rparr>
     else (reply_ok rq)\<lparr>t_chunks := [''he'']\<rparr>)"

definition file_lib :: "request list libs" where
  "file_lib = (demo_lib file_reply)\<lparr>lib_xml_doc := (\<lambda>_. Some (dav_node ''multistatus'' [response_node file_res]))\<rparr>"

lemma file_lib_simps [simp]:
  "lib_malloc file_lib = (\<lambda>w. (True, w))" "lib_setopt file_lib = (\<lambda>_ _ w. (0, w))"
  "lib_perform file_lib = (\<lambda>rq w. (file_reply rq, w @ [rq]))" "lib_chunk file_lib = 16384"
  "lib_slist_append file_lib = (\<lambda>_ _ w. (True, w))" "lib_uninit_stat file_lib = stat0"
  "lib_uninit_bytes file_lib = (\<lambda>n. replicate n (CHR 0x00))"
  by (simp_all add: file_lib_def demo_lib_def)

lemma file_lib_ok: "setopt_ok file_lib" "lib_sane file_lib" "honest file_lib" "lib_nice file_lib (\<lambda>s. s)"
  by (simp_all add: setopt_ok_def lib_sane_def honest_def lib_nice_def slist_ok_def xml_ok_def unescape_ok_def file_lib_def
      file_reply_def reply_list_def reply_ok_def)

lemma file_lib_doc: "lib_xml_doc file_lib = (\<lambda>_. Some (dav_node ''multistatus'' [response_node file_res]))"
  by (simp add: file_lib_def)

text \<open>How documents are parsed has no influence on handles.\<close>

lemma setopt_blind:
  "curl_easy_setopt (L\<lparr>lib_xml_doc := d\<rparr>) = curl_easy_setopt L"
  "curl_easy_setopt_or_die (L\<lparr>lib_xml_doc := d\<rparr>) = curl_easy_setopt_or_die L"
proof -
  show a: "curl_easy_setopt (L\<lparr>lib_xml_doc := d\<rparr>) = curl_easy_setopt L" by (intro ext) (simp add: curl_easy_setopt_def)
  show "curl_easy_setopt_or_die (L\<lparr>lib_xml_doc := d\<rparr>) = curl_easy_setopt_or_die L"
    by (intro ext) (simp add: curl_easy_setopt_or_die_def a)
qed

lemma url_blind:
  "curl_url_set_or_die (L\<lparr>lib_xml_doc := d\<rparr>) = curl_url_set_or_die L" "scope_CURLU (L\<lparr>lib_xml_doc := d\<rparr>) = scope_CURLU L"
  by (intro ext, simp add: curl_url_set_or_die_def)
    (intro ext, simp add: scope_CURLU_def curl_url_dup_e_def curl_url_cleanup_def)

lemma easy_init_blind: "curl_easy_init (L\<lparr>lib_xml_doc := d\<rparr>) = curl_easy_init L"
  by (intro ext) (simp add: curl_easy_init_def)

lemma take_blind: "take_handle (L\<lparr>lib_xml_doc := d\<rparr>) = take_handle L"
  by (simp add: take_handle_def easy_init_blind cong: option.case_cong)

lemma set_blind:
  "set_url (L\<lparr>lib_xml_doc := d\<rparr>) = set_url L" "set_options (L\<lparr>lib_xml_doc := d\<rparr>) = set_options L"
  by (intro ext, simp add: set_url_def url_blind setopt_blind cong: option.case_cong)
    (intro ext, simp add: set_options_def setopt_blind cong: if_cong)

lemma init_blind: "curl_easy_init_common (L\<lparr>lib_xml_doc := d\<rparr>) = curl_easy_init_common L"
  by (intro ext) (simp add: curl_easy_init_common_def setopt_blind take_blind set_blind cong: option.case_cong)

lemma file_handle:
  fixes g :: "request list davw"
  assumes "pool_inv file_lib U g" "\<not> has g"
  obtains h g1 m where "curl_easy_init_common file_lib url (Some path) options g = (Ret (Some h), g1)" "easy g1 h = Some m"
    "m CURLOPT_CUSTOMREQUEST = None"
proof -
  have "pool_inv (demo_lib file_reply) U g" using assms(1) by (simp add: pool_inv_def sendable_def)
  from demo_init_any [OF this assms(2), of url "Some path" options] obtain h g1 where
    1: "curl_easy_init_common file_lib url (Some path) options g = (Ret (Some h), g1)" by (auto simp: file_lib_def init_blind)
  from init_common_only [OF assms(1) 1] obtain m where
    m: "easy g1 h = Some m" "\<And>opt v. m opt = Some v \<Longrightarrow> (opt, v) \<in> init_options options" by blast
  have "(CURLOPT_CUSTOMREQUEST, v) \<notin> init_options options" for v
    by (auto simp: init_options_def common_options_def fixed_options_def split: option.splits if_splits)
  with m have "m CURLOPT_CUSTOMREQUEST = None" by (metis option.exhaust)
  with 1 m(1) that show thesis by blast
qed

lemma more_same:
  fixes g :: "('w, 'a) davw_scheme"
  assumes "world.more g' = world.more g"
  shows "sv_options g' = sv_options g" "rw g' = rw g" "sv_tree g' = sv_tree g"
proof -
  have s: "sv_options g' = sv_options g \<and> sv_readers g' = sv_readers g \<and> sv_writer g' = sv_writer g \<and> sv_tree g' = sv_tree g"
    using assms by (cases g; cases g') (auto simp: world.defs davw.defs)
  then show "sv_options g' = sv_options g" "rw g' = rw g" "sv_tree g' = sv_tree g" by (simp_all add: rw_def)
qed

lemma file_getattr:
  fixes g :: "request list davw"
  assumes "pool_inv file_lib U g" "\<not> has g"
  shows "\<exists>g'. dav_getattr file_lib ''/a.txt'' stat0 g = (Ret (0, (stat_default (sv_options g))\<lparr>st_size := 5\<rparr>), g') \<and>
    \<not> has g' \<and> pool_inv file_lib U g' \<and> world.more g' = world.more g"
proof -
  from file_handle [OF assms] obtain h g1 m where
    h: "curl_easy_init_common file_lib (sv_baseuh g) (Some ''/a.txt'') (Some (sv_options g)) g = (Ret (Some h), g1)" "easy g1 h = Some m" .
  let ?t = "file_reply (propfind_rq m 0)"
  have t: "lib_perform file_lib (propfind_rq m 0) (propfind_world file_lib 0 (lib g1)) = (?t, propfind_world file_lib 0 (lib g1) @ [propfind_rq m 0])"
    by simp
  have tr: "?t = reply_list (propfind_rq m 0)" by (simp add: file_reply_def is_method_def propfind_rq_def propfind_opts_def)
  have "res_ok file_lib (sv_options g) file_res" by (simp add: res_ok_def demo_stats)
  then have a: "answers file_lib (sv_options g) ?t [file_res]"
    by (simp add: answers_def tr reply_list_def chunks_ok_def reply_ok_def file_lib_doc) (simp add: dav_node_def)
  have "prefix (t_effective_url ?t) (fst file_res)" by (simp add: tr reply_list_def reply_ok_def file_res_def)
  from dav_getattr_run [OF file_lib_ok(4) assms(1) h t a this, of stat0] show ?thesis by (auto simp: demo_stats)
qed

lemma told_length_demo: "told_length [''Content-Length: 9''] 0 = 9"
proof -
  have "fst (strtol 10 (strlstrip '' 9'')) = 9" by code_simp
  then show ?thesis by (simp add: told_length_def strscmp_eq_def)
qed

lemma file_head:
  fixes g :: "request list davw"
  assumes "pool_inv file_lib U g" "\<not> has g"
  shows "\<exists>g'. dav_head file_lib ''/a.txt'' (Some 0) g = (Ret (0, 9), g') \<and> \<not> has g' \<and> pool_inv file_lib U g' \<and> world.more g' = world.more g"
proof -
  from file_handle [OF assms] obtain h g1 m where
    h: "curl_easy_init_common file_lib (sv_baseuh g) (Some ''/a.txt'') (Some (sv_options g)) g = (Ret (Some h), g1)" "easy g1 h = Some m" .
  let ?t = "file_reply (head_rq m)"
  have t: "lib_perform file_lib (head_rq m) (setopts file_lib head_sets (lib g1)) = (?t, setopts file_lib head_sets (lib g1) @ [head_rq m])" by simp
  have tr: "?t = (reply_ok (head_rq m))\<lparr>t_headers := [''Content-Length: 9'']\<rparr>" by (simp add: file_reply_def is_method_def head_rq_def)
  have "t_code ?t = CURLE_OK" by (simp add: tr reply_ok_def)
  from dav_head_run [OF file_lib_ok(1) assms(1) h t this] show ?thesis by (auto simp: tr told_length_demo)
qed

abbreviation get_rq :: "easy_opts \<Rightarrow> request" where
  "get_rq m \<equiv> \<lparr>rq_opts = get_opts m 0 2, rq_body = []\<rparr>"

lemma file_get:
  assumes "m CURLOPT_CUSTOMREQUEST = None"
  shows "t_chunks (file_reply (get_rq m)) = [''he'']" "get_code 2 (file_reply (get_rq m)) = CURLE_OK"
proof -
  have "file_reply (get_rq m) = (reply_ok (get_rq m))\<lparr>t_chunks := [''he'']\<rparr>" using assms by (simp add: file_reply_def is_method_def)
  then show "t_chunks (file_reply (get_rq m)) = [''he'']" "get_code 2 (file_reply (get_rq m)) = CURLE_OK"
    by (simp_all add: get_code_def reply_ok_def)
qed

subsection \<open>Properties\<close>



text \<open>C31: shrinking a file does nothing. When the wanted length is positive and less than half of the length
  the server tells, and the bytes that are to stay can be read, \<open>dav_truncate\<close> takes the number of these
  bytes for an error: it returns this number, no request follows the GET, and the file on the server is
  as long as before.\<close>

theorem truncate_shrink_undone:
  fixes g :: "('w, 'a) davw_scheme"
  assumes "setopt_ok L" "honest L" "lib_chunk L \<noteq> 0" "pool_inv L U g2"
    and "0 < unat sz" "unat sz < 2 ^ 31" "length (lib_uninit_bytes L (unat sz)) = unat sz"
    and "dav_getattr L path (lib_uninit_stat L) g = (Ret (0, st), g1)" "st_size st \<noteq> sz"
    and "dav_head L path (Some 0) g1 = (Ret (0, n), g2)" "to_unsigned sz < n div 2"
    and "curl_easy_init_common L (sv_baseuh g2) (Some path) (Some (sv_options g2)) g2 = (Ret (Some h), g3)" "easy g3 h = Some m"
    and t: "lib_perform L \<lparr>rq_opts = get_opts m 0 sz, rq_body = []\<rparr> (setopts L (get_sets 0 sz) (lib g3)) = (t, w')"
    and "get_code sz t = CURLE_OK" "concat (t_chunks t) \<noteq> []"
  shows "\<exists>r g'. dav_truncate L path sz g = (Ret r, g') \<and> r = int (length (concat (t_chunks t))) \<and> 0 < r \<and>
    \<not> Exception_has (ex g') \<and> lib g' = snd (lib_malloc L w')"
proof -
  from dav_read_run [OF assms(1-7,12,13), of 0] t assms(15) obtain buf' r g' where
    r: "dav_read L path (lib_uninit_bytes L (unat sz)) sz 0 g2 = (Ret (r, buf'), g')" "\<not> has g'" "lib g' = snd (lib_malloc L w')"
      "r = int (length (concat (t_chunks t)))" by auto
  have "sz \<noteq> 0" "r \<noteq> 0" using assms(5,16) r(4) by auto
  then have "dav_truncate L path sz g = (Ret r, g')"
    using assms(8-11) r(1) by (simp add: dav_truncate_def flow_simps)
  with r assms(16) show ?thesis by auto
qed

theorem truncate_shrink_undone_witness:
  "\<exists>g'. dav_truncate file_lib ''/a.txt'' 2 idle0 = (Ret 2, g') \<and> \<not> Exception_has (ex g')"
proof -
  have o: "pool_inv file_lib {} idle0" "\<not> has idle0" by (simp_all add: idle0_def pool_inv_client0)
  from file_getattr [OF o] obtain g1 where
    g1: "dav_getattr file_lib ''/a.txt'' stat0 idle0 = (Ret (0, (stat_default (sv_options idle0))\<lparr>st_size := 5\<rparr>), g1)"
      "\<not> has g1" "pool_inv file_lib {} g1" by auto
  from file_head [OF g1(3,2)] obtain g2 where
    g2: "dav_head file_lib ''/a.txt'' (Some 0) g1 = (Ret (0, 9), g2)" "\<not> has g2" "pool_inv file_lib {} g2" by auto
  from file_handle [OF g2(3,2)] obtain h g3 m where
    h: "curl_easy_init_common file_lib (sv_baseuh g2) (Some ''/a.txt'') (Some (sv_options g2)) g2 = (Ret (Some h), g3)" "easy g3 h = Some m"
      "m CURLOPT_CUSTOMREQUEST = None" .
  note t = file_get [where m = m, OF h(3)]
  from truncate_shrink_undone [OF file_lib_ok(1,3) _ g2(3), of 2 "''/a.txt''" idle0 "(stat_default (sv_options idle0))\<lparr>st_size := 5\<rparr>" g1 9 h g3 m
      "file_reply (get_rq m)" "lib g3 @ [get_rq m]"] g1(1) g2(1) h t
  show ?thesis by (auto simp: to_unsigned_def)
qed

text \<open>C19: copying a whole file on the server. When the range starts at 0 in both files and the other file is
  not longer than the range, \<open>dav_copy_file_range\<close> ends without an exception left; it returns the length
  of the range only when the last request, answered with success, was a COPY with the address of the
  other file and, with locks, the token of the client's lock on it, and the lock table and the
  read-write lock are as before; otherwise it returns a negative number.\<close>

theorem copy_range_whole:
  fixes g :: "('w, 'a) davw_scheme"
  assumes "setopt_ok L" "pool_inv L U g1" "lock_wf g1" "\<not> sv_writer g1" "unat len < 2 ^ 63"
    and "dav_getattr L dst stat0 g = (Ret (res, st), g1)" "res = 0 \<or> res = - ENOENT"
    and "to_unsigned (st_size st) \<le> len"
  shows "\<exists>r g'. dav_copy_file_range L src 0 dst 0 len g = (Ret r, g') \<and> \<not> Exception_has (ex g') \<and> pool_inv L U g' \<and>
    (r = int (unat len) \<and> copy_done L src dst g1 g' \<and> server_is g1 g' \<or> r < 0 \<and> read_left g1 g')"
proof -
  have big: "\<not> len < to_unsigned (st_size st) div 2" "\<not> len < to_unsigned (st_size st)"
    using assms(8) by (auto simp: word_less_nat_alt word_le_nat_alt unat_div)
  have len: "sint len = int (unat len)" using assms(5) by (rule sint_u64_small)
  note run = dav_copy_file_range_def flow_simps when_nonempty_def after_size_def write_nonempty_def Let_def dav_exception_test_def
    dav_exception_map_def
  from assms(1-4) show ?thesis
  proof (cases rule: dav_copy_cases [where src = src and dst = dst])
    case (copied g')
    have "dav_copy_file_range L src 0 dst 0 len g = (Ret (sint len), g')"
      using assms(6,7) big copied(1,2) by (auto simp: run)
    with copied len show ?thesis by auto
  next
    case (failed g')
    let ?g = "g'\<lparr>ex := Exception_destory (ex g')\<rparr>"
    have "dav_copy_file_range L src 0 dst 0 len g = (Ret (exception_errno (ex g')), ?g)"
      using assms(6,7) big failed(1,2) exception_errno_neg [of "ex g'"] by (auto simp: run)
    moreover have "read_left g1 ?g" using failed(4) by (simp add: read_left_def server_is_def)
    ultimately show ?thesis using failed(3) exception_errno_neg by auto
  qed
qed

theorem copy_range_whole_witness:
  "\<exists>r g'. dav_copy_file_range file_lib ''/b'' 0 ''/a.txt'' 0 7 idle0 = (Ret r, g') \<and> \<not> Exception_has (ex g') \<and> (r = 7 \<or> r < 0)"
proof -
  have o: "pool_inv file_lib {} idle0" "\<not> has idle0" "rw idle0 = (0, False)" "sv_tree idle0 = []" by (simp_all add: idle0_def pool_inv_client0)
  from file_getattr [OF o(1,2)] obtain g1 where
    g1: "dav_getattr file_lib ''/a.txt'' stat0 idle0 = (Ret (0, (stat_default (sv_options idle0))\<lparr>st_size := 5\<rparr>), g1)"
      "pool_inv file_lib {} g1" "world.more g1 = world.more idle0" by auto
  note s = more_same [OF g1(3)]
  have "lock_wf g1" "\<not> sv_writer g1" using s o by (simp_all add: lock_wf_def rw_def)
  with copy_range_whole [OF file_lib_ok(1) g1(2), of 7 "''/a.txt''" idle0 0 _ "''/b''"] g1(1) show ?thesis
    by (fastforce simp: to_unsigned_def)
qed

text \<open>Copying a range behind the start of a file does nothing. When the bytes of the other file before the
  range can be read, \<open>dav_copy_file_range\<close> takes their number for an error: it returns this number as if
  so many bytes had been copied, and no request follows the GET.\<close>

theorem copy_range_undone:
  fixes g :: "('w, 'a) davw_scheme"
  assumes "setopt_ok L" "honest L" "lib_chunk L \<noteq> 0" "pool_inv L U g1"
    and "0 < unat offset" "unat offset < 2 ^ 31" "length (lib_uninit_bytes L (unat offset)) = unat offset"
    and "dav_getattr L dst stat0 g = (Ret (0, st), g1)" "\<not> len < to_unsigned (st_size st) div 2"
    and "curl_easy_init_common L (sv_baseuh g1) (Some dst) (Some (sv_options g1)) g1 = (Ret (Some h), g2)" "easy g2 h = Some m"
    and t: "lib_perform L \<lparr>rq_opts = get_opts m 0 offset, rq_body = []\<rparr> (setopts L (get_sets 0 offset) (lib g2)) = (t, w')"
    and "get_code offset t = CURLE_OK" "concat (t_chunks t) \<noteq> []"
  shows "\<exists>r g'. dav_copy_file_range L src offset dst offset len g = (Ret r, g') \<and> r = int (length (concat (t_chunks t))) \<and> 0 < r \<and>
    \<not> Exception_has (ex g') \<and> lib g' = snd (lib_malloc L w')"
proof -
  from dav_read_run [OF assms(1-7,10,11), of 0] t assms(13) obtain buf' r g' where
    r: "dav_read L dst (lib_uninit_bytes L (unat offset)) offset 0 g1 = (Ret (r, buf'), g')" "\<not> has g'" "lib g' = snd (lib_malloc L w')"
      "r = int (length (concat (t_chunks t)))" by auto
  have "offset \<noteq> 0" "r \<noteq> 0" using assms(5,14) r(4) by auto
  then have "dav_copy_file_range L src offset dst offset len g = (Ret r, g')"
    using assms(8,9) r(1) by (simp add: dav_copy_file_range_def when_nonempty_def flow_simps)
  with r assms(14) show ?thesis by auto
qed

theorem copy_range_undone_witness:
  "\<exists>g'. dav_copy_file_range file_lib ''/b'' 2 ''/a.txt'' 2 7 idle0 = (Ret 2, g') \<and> \<not> Exception_has (ex g')"
proof -
  have o: "pool_inv file_lib {} idle0" "\<not> has idle0" by (simp_all add: idle0_def pool_inv_client0)
  from file_getattr [OF o] obtain g1 where
    g1: "dav_getattr file_lib ''/a.txt'' stat0 idle0 = (Ret (0, (stat_default (sv_options idle0))\<lparr>st_size := 5\<rparr>), g1)"
      "\<not> has g1" "pool_inv file_lib {} g1" by auto
  from file_handle [OF g1(3,2)] obtain h g2 m where
    h: "curl_easy_init_common file_lib (sv_baseuh g1) (Some ''/a.txt'') (Some (sv_options g1)) g1 = (Ret (Some h), g2)" "easy g2 h = Some m"
      "m CURLOPT_CUSTOMREQUEST = None" .
  note t = file_get [where m = m, OF h(3)]
  from copy_range_undone [OF file_lib_ok(1,3) _ g1(3), of 2 "''/a.txt''" idle0 "(stat_default (sv_options idle0))\<lparr>st_size := 5\<rparr>" 7 h g2 m
      "file_reply (get_rq m)" "lib g2 @ [get_rq m]" "''/b''"] g1(1) h t
  show ?thesis by (auto simp: to_unsigned_def word_less_nat_alt)
qed

end
