(* ===== verification/Dav_Error_Laws.thy ===== *)
theory Dav_Error_Laws
  imports Dav_Lock_Laws Dav_Io_Laws
begin

text \<open>
  Errors of the file operations, what is left behind by them, and the negotiation with the server at
  the start.
\<close>

subsection \<open>Errors that are left behind\<close>

text \<open>C33: closing a file whose lock is gone (it was deleted or renamed while it was open) reports success
  but leaves an exception; the next directory that is made in this thread fails for it with an error
  number, whatever the server would answer.\<close>

theorem release_poisons:
  assumes "lock_inv L U g" "sv_allow g LOCK" "for_writing flags" "lock_count g path = 0" "sv_allow g MKCOL"
  shows "\<exists>g1 e g2. dav_release L path flags g = (Ret 0, g1) \<and> Exception_has (ex g1) \<and>
    dav_mkdir L q g1 = (Ret e, g2) \<and> e < 0"
proof -
  let ?g = "g\<lparr>ex := UnspecifiedException_init (ex g) ''release cannot find file lock''\<rparr>"
  from assms(1) have pre: "use_lock (sv_options g)" "\<not> sv_writer g" "pool_inv L U ?g" by (auto simp: lock_inv_def rw_def)
  have none: "tfind path (sv_tree g) = None"
  proof (cases "tfind path (sv_tree g)")
    case (Some a)
    with assms(1) obtain fl :: FileLock where "1 \<le> fl_cnt fl" "lock_count g path = fl_cnt fl" by (rule lock_inv_find) blast
    with assms(4) show ?thesis by simp
  qed
  have h: "has ?g" by (simp add: UnspecifiedException_init_def Exception_init_what_def Exception_init_def Exception_has_def Let_def)
  from dav_method_stale [OF pre(3) h, of q "''MKCOL''" RW_LOCK_NONE] obtain g2 where
    m: "dav_mkcol L q ?g = (Ret 1, g2)" "has g2" by (auto simp: dav_mkcol_def)
  have "dav_release L path flags g = (Ret 0, ?g)"
    using assms(2,3) dav_unlock_missing [OF pre(1,2) none, of L] by (simp add: dav_release_def flow_simps)
  moreover have "dav_mkdir L q ?g = (Ret (exception_errno (ex g2)), g2\<lparr>ex := Exception_destory (ex g2)\<rparr>)"
    using m assms(5) by (simp add: dav_mkdir_def flow_simps ret_call_def dav_exception_check_def dav_exception_map_def)
  ultimately show ?thesis using h exception_errno_neg by blast
qed

theorem release_poisons_witness:
  "\<exists>g1 e g2. dav_release (demo_lib reply_ok) ''/a'' 1 idle0 = (Ret 0, g1) \<and>
     dav_mkdir (demo_lib reply_ok) ''/d'' g1 = (Ret e, g2) \<and> e < 0"
  using release_poisons [OF lock_inv_demo(1) [of "demo_lib reply_ok"], of 1 "''/a''" "''/d''"]
  by (auto simp: idle0_def client0_def for_writing_def lock_count_def tfind_def)

subsection \<open>The negotiation\<close>

definition options_url :: "'w libs \<Rightarrow> addr \<Rightarrow> ('w, 'a, int) davs" where
  "options_url L curl = throwable (reads (\<lambda>s. sv_baseuh (snd s)) (\<lambda>baseuh.
       call (lib_call (lib_url_get L baseuh CURLUPART_URL)) (\<lambda>(code, s_url).
         with_seperated
           (ife (\<lambda>_. code = CURLUE_OK) skip
             (throw (set_ex (\<lambda>e. CurlUrlException_init e code CURLU_GET CURLUPART_URL))))
           skip
           (curl_easy_setopt_or_die L curl CURLOPT_URL (VStr (Some s_url))))))"

definition options_request :: "'w libs \<Rightarrow> addr \<Rightarrow> ('w, 'a, int) davs" where
  "options_request L curl = block [
     reads (\<lambda>s. initial_timeout (sv_options (snd s))) (\<lambda>t.
       whenc (\<lambda>_. t \<noteq> 0) (curl_easy_setopt_or_die L curl CURLOPT_TIMEOUT (VLong t))),
     setopt L curl CURLOPT_NOBODY (VLong 1),
     setopt L curl CURLOPT_FOLLOWLOCATION (VLong 0),
     curl_easy_perform_or_die L curl no_callback no_callback,
     follow_redirect L curl,
     setopt L curl CURLOPT_FOLLOWLOCATION (VLong 1),
     options_url L curl,
     curl_easy_setopt_or_die L curl CURLOPT_CUSTOMREQUEST (VStr (Some ''OPTIONS'')),
     setopt L curl CURLOPT_HEADERDATA VPtr,
     setopt L curl CURLOPT_HEADERFUNCTION (VFun CB_dav_options_callback),
     curl_easy_perform_or_die L curl (dav_options_callback L) no_callback]"

lemma dav_inv_blind:
  "framed (dav_inv opts r w) L U (g\<lparr>sv_allow := a\<rparr>) = framed (dav_inv opts r w) L U g"
  "framed (dav_inv opts r w) L U (g\<lparr>sv_server := s\<rparr>) = framed (dav_inv opts r w) L U g"
  "framed (dav_inv opts r w) L U (g\<lparr>sv_version := s\<rparr>) = framed (dav_inv opts r w) L U g"
  by (simp_all add: framed_def dav_inv_def pool_inv_def lock_wf_def lock_entry_def)

lemma options_callback_cases:
  obtains "dav_options_callback L buffer n fr g = (Stop Segv, g)"
  | a where "dav_options_callback L buffer n fr g = (Ret (n, fr), g\<lparr>sv_allow := a\<rparr>)"
  | s v w where "dav_options_callback L buffer n fr g = (Ret (n, fr), g\<lparr>sv_server := s, lib := w, sv_version := v\<rparr>)"
  | "dav_options_callback L buffer n fr g = (Ret (n, fr), g)"
proof -
  note run = dav_options_callback_def flow_simps lib_call_def
  consider "strscmp_eq buffer ''Allow:''" | "\<not> strscmp_eq buffer ''Allow:''" "\<not> strscmp_eq buffer ''Server:''"
    | "\<not> strscmp_eq buffer ''Allow:''" "strscmp_eq buffer ''Server:''" "strchr (header_value 7 buffer n) CHR ''/'' = None"
    | s v where "\<not> strscmp_eq buffer ''Allow:''" "strscmp_eq buffer ''Server:''" "strchr (header_value 7 buffer n) CHR ''/'' = Some (s, v)"
    by (metis not_None_eq prod.exhaust)
  then show thesis
  proof cases
    case 1 then show thesis using that(2) by (simp add: run)
  next
    case 2 then show thesis using that(4) by (simp add: run)
  next
    case 3 then show thesis using that(1) by (simp add: run)
  next
    case (4 s v)
    obtain ok w where 1: "lib_malloc L (lib g) = (ok, w)" by fastforce
    obtain ok2 w2 where 2: "lib_malloc L w = (ok2, w2)" by fastforce
    have "dav_options_callback L buffer n fr g = (Ret (n, fr), g\<lparr>sv_server := (if ok then Some s else None), lib := w2,
        sv_version := (if ok2 then Some v else None)\<rparr>)" using 4 1 2 by (simp add: run)
    then show thesis by (rule that(3))
  qed
qed

lemma gives_options_callback [runs_intros]: "gives {Segv} (framed (dav_inv opts r w) L U) (dav_options_callback L' c n fr)"
  unfolding gives_def
proof (intro allI impI)
  fix g f g' assume "framed (dav_inv opts r w) L U g" "dav_options_callback L' c n fr g = (f, g')"
  then show "(\<exists>x\<in>{Segv}. f = Stop x) \<or> framed (dav_inv opts r w) L U g' \<and> (\<exists>v. f = Ret v) \<and> (has g \<longrightarrow> has g')"
    by (cases rule: options_callback_cases [of L' c n fr g]) (auto simp: dav_inv_blind server.framed_blind)
qed

lemma runs_case_option [runs_intros]:
  "runs S k I a \<Longrightarrow> (\<And>u. runs S k I (b u)) \<Longrightarrow> runs S k I (case x of None \<Rightarrow> a | Some u \<Rightarrow> b u)"
  by (cases x) simp_all

lemma runs_follow_redirect [runs_intros]: "runs S k (framed (dav_inv opts r w) L U) (follow_redirect L' h)"
  unfolding follow_redirect_def split_beta
  by (rule runs_reads, rule runs_whenc, rule runs_case_option) (intro runs_intros)+

lemma runs_options_url [runs_intros]: "runs S k (framed (dav_inv opts r w) L U) (options_url L h)"
  unfolding options_url_def split_beta
  by (rule runs_throwable, rule runs_reads) (intro runs_intros | simp)+

lemma runs_options_timeout: "runs S k (framed (dav_inv opts r w) L U) (reads f (\<lambda>t.
    whenc (\<lambda>_. t \<noteq> (0::int)) (curl_easy_setopt_or_die L h CURLOPT_TIMEOUT (VLong t))))"
  by (intro runs_intros) simp

lemma ends_options:
  assumes "lib_chunk L \<noteq> 0"
  shows "ends {Segv} (framed (dav_inv opts r w) L U) (with_server L None (options_request L) :: ('w, 'a, int) davs)"
  using assms unfolding options_request_def
  by (intro server_dav.ends_with_server runs_block_Cons runs_block_Nil runs_options_timeout runs_follow_redirect runs_options_url
      server_dav.runs_setopt | (intro runs_intros; simp; fail) | simp)+

lemma dav_options_body:
  "dav_options L = fn (dframe0 L) (block [
     try_catch (block [
       throwable (with_server L None (options_request L)),
       whenc (\<lambda>s. sv_allow (snd s) LOCK \<noteq> sv_allow (snd s) UNLOCK)
         (setg (\<lambda>g. g\<lparr>sv_allow := (sv_allow g)(LOCK := False, UNLOCK := False)\<rparr>)),
       whenc locking (setg (\<lambda>g. g\<lparr>sv_tree := [], sv_readers := 0, sv_writer := False\<rparr>))])
       [onerror skip],
     ret_status])"
  by (simp add: dav_options_def options_request_def [abs_def] options_url_def)


text \<open>A server without UNLOCK.\<close>

definition reply_options :: "request \<Rightarrow> transfer" where
  "reply_options rq = (reply_ok rq)\<lparr>t_headers := [''Allow: GET, LOCK'' @ crlf]\<rparr>"


end
