(* ===== verification/Dav_Create_Laws.thy ===== *)
theory Dav_Create_Laws
  imports Dav_Range_Laws Dav_Session_Laws
begin

text \<open>
  Making files and symbolic links: \<open>dav_mknod\<close>, \<open>dav_create\<close> and \<open>dav_symlink\<close> from the call to the
  requests and back, and what they do when an exception from an earlier request is still set.
\<close>

subsection \<open>The probe\<close>

text \<open>The server says that there is nothing at the path, or that the client may not see it.\<close>

definition says_absent :: "exception \<Rightarrow> bool" where
  "says_absent e \<longleftrightarrow> issubtype e CurlException_vt \<and> absent e"

definition caught :: "('w, 'a) davw_scheme \<Rightarrow> ('w, 'a) davw_scheme" where
  "caught g = g\<lparr>ex := Exception_destory ((ex g)\<lparr>ex_set := EXCEPTION_CATCHED\<rparr>)\<rparr>"

lemma caught_simps [simp]:
  "\<not> has (caught g)" "pool_inv L U (caught g) = pool_inv L U g" "server_is s (caught g) = server_is s g"
  by (simp_all add: caught_def server_is_def Exception_has_def Exception_destory_def)

lemma absent_set [simp]: "absent (e\<lparr>ex_set := n\<rparr>) = absent e"
  by (simp add: absent_def)

lemma probe_run:
  assumes "dav_head L path None g = (Ret (r, n), g1)"
  shows "probe_absent L path ((), g) =
    (if \<not> has g1 then (Ret (- EEXIST), ((), g1)) else if says_absent (ex g1) then (Next, ((), caught g1)) else (Next, ((), g1)))"
proof -
  have e: "has g1 \<Longrightarrow> g1\<lparr>ex := (ex g1)\<lparr>ex_set := Suc 0\<rparr>\<rparr> = g1" by (simp add: Exception_has_def)
  show ?thesis using assms
    by (cases "has g1"; cases "issubtype (ex g1) CurlException_vt"; cases "absent (ex g1)")
      (auto simp: probe_absent_def try_ignoring_def catch_type_def onerror_def flow_simps says_absent_def caught_def e Exception_has_def)
qed

subsection \<open>Making a file\<close>

text \<open>What has happened when \<open>dav_mknod\<close> returns 0: a HEAD was answered with 404 or 403, an empty PUT was
  accepted, and the mode was stored.\<close>

definition created :: "'w libs \<Rightarrow> string \<Rightarrow> u32 \<Rightarrow> ('w, 'a) davw_scheme \<Rightarrow> ('w, 'a) davw_scheme \<Rightarrow> bool" where
  "created L path md g g' \<longleftrightarrow> (\<exists>n g1 g2. dav_head L path None g = (Ret (1, n), g1) \<and> says_absent (ex g1) \<and>
     method_done L path ''PUT'' (caught g1) g2 \<and> dav_proppatch L path ''N:mode'' (Some (mode_text md)) g2 = (Ret 0, g'))"

lemma dav_mknod_cases:
  fixes g :: "('w, 'a) davw_scheme"
  assumes L: "setopt_ok L" "lib_sane L" and I: "pool_inv L U g" "lock_wf g" "use_lock (sv_options g)" "rw g = (0, False)"
  obtains (made) g' where "dav_mknod L path md g = (Ret 0, g')" "\<not> has g'" "pool_inv L U g'" "kept g g'" "rw g' = (0, False)"
      "created L path md g g'"
  | (failed) r g' where "dav_mknod L path md g = (Ret r, g')" "r < 0" "S_ISDIR md \<and> g' = g \<or> \<not> has g'" "pool_inv L U g'" "kept g g'"
proof (cases "S_ISDIR md")
  case True
  then have "dav_mknod L path md g = (Ret (- EINVAL), g)" by (simp add: dav_mknod_def flow_simps)
  with True I show thesis by (intro failed [of "- EINVAL" g]) (simp_all add: kept_def)
next
  case False
  note run = dav_mknod_def flow_simps False onerror_def ret_call_def dav_exception_map_def
  have "lib_chunk L \<noteq> 0" using L(2) by (simp add: lib_sane_def)
  from head_cases [OF this I(1), of path None] obtain n g1 where
    h: "dav_head L path None g = (Ret (if has g1 then 1 else 0, n), g1)" "pool_inv L U g1" "server_is g g1" .
  have k1: "kept g g1" using kept_server_is [OF h(3) I(2)] .
  have err: thesis if "dav_mknod L path md g = (Ret (exception_errno (ex k)), k\<lparr>ex := Exception_destory (ex k)\<rparr>)" "pool_inv L U k" "kept g k" for k
    by (rule failed [OF that(1) exception_errno_neg]) (use that in \<open>auto simp: kept_def lock_wf_def\<close>)
  consider "\<not> has g1" | "has g1" "\<not> says_absent (ex g1)" | "has g1" "says_absent (ex g1)" by blast
  then show thesis
  proof cases
    case 1
    then have "dav_mknod L path md g = (Ret (- EEXIST), g1)" by (simp add: run probe_run [OF h(1)])
    with 1 h k1 show thesis by (intro failed [of "- EEXIST" g1]) simp_all
  next
    case 2
    then have "dav_mknod L path md g = (Ret (exception_errno (ex g1)), g1\<lparr>ex := Exception_destory (ex g1)\<rparr>)"
      by (simp add: run probe_run [OF h(1)])
    with h k1 show thesis by (intro err)
  next
    case 3
    let ?g = "caught g1"
    have s: "server_is g ?g" using h(3) by simp
    have pre: "pool_inv L U ?g" "lock_wf ?g" "use_lock (sv_options ?g)" "RW_LOCK_READ \<noteq> RW_LOCK_NONE" "rw_free RW_LOCK_READ ?g" "rw ?g = (0, False)" "kept g ?g"
      using h(2) lock_wf_server_is [OF s I(2)] s I(3,4) rw_server_is [OF s] kept_server_is [OF s I(2)]
      by (simp_all add: server_is_def rw_free_def rw_def)
    from L(1) pre(1-5) show thesis
    proof (cases rule: method_sent_cases [where path = path and mth = "''PUT''"])
      case (sent g2)
      have p: "dav_put_simple L path ?g = (Ret 0, g2)" using sent(1) by (simp add: dav_put_simple_def)
      have k2: "kept g g2" using sent(4) pre(7) by (simp add: after_def kept_def)
      have m: "dav_mknod L path md g = (Ret r, k)" if "dav_chmod L path md g2 = (Ret r, k)" for r k
        using 3 sent(2) that by (simp add: run probe_run [OF h(1)] p)
      from sent(3) L(2) sent(2) show thesis
      proof (cases rule: dav_chmod_cases [where path = path and md = md])
        case (stored g3)
        have "kept g2 g3" using kept_server_is [OF stored(4)] k2 by (simp add: kept_def)
        then have "kept g g3" using k2 by (simp add: kept_def)
        moreover have "created L path md g g3" unfolding created_def using h(1) 3 sent(6) stored(5) by auto
        moreover have "rw g3 = (0, False)" using rw_server_is [OF stored(4)] sent(5) pre(6) by simp
        ultimately show thesis using stored m by (intro made [of g3]) simp_all
      next
        case (failed r g3)
        have "kept g2 g3" using kept_server_is [OF failed(5)] k2 by (simp add: kept_def)
        then have "kept g g3" using k2 by (simp add: kept_def)
        with failed m show thesis by (intro that(2) [of r g3]) simp_all
      qed
    next
      case (failed g2)
      have "dav_mknod L path md g = (Ret (exception_errno (ex g2)), g2\<lparr>ex := Exception_destory (ex g2)\<rparr>)"
        using 3 failed(1,2) by (simp add: run probe_run [OF h(1)] dav_put_simple_def)
      moreover have "kept g g2" using failed(4) pre(7) by (auto simp: after_def kept_def)
      ultimately show thesis using failed(3) by (intro err)
    qed
  qed
qed

lemma lock_inv_kept:
  assumes "lock_inv L U g" "kept g g'" "pool_inv L U g'" "rw g' = (0, False)"
  shows "lock_inv L U g'" and "lock_count g' = lock_count g"
proof -
  show "lock_inv L U g'" using assms by (auto simp: lock_inv_def kept_def)
  have t: "sv_tree g' = sv_tree g" "locks g' = locks g" using assms(2) by (simp_all add: kept_def)
  show "lock_count g' = lock_count g" unfolding lock_count_def [abs_def] t ..
qed

subsection \<open>With an exception from before\<close>

text \<open>An exception that does not say that the file is absent is set.\<close>

definition stale :: "'a exw_scheme \<Rightarrow> bool" where
  "stale g \<longleftrightarrow> has g \<and> \<not> says_absent (ex g)"

lemma says_absent_init [simp]:
  "\<not> says_absent ((CurlException_init e 0 action opt code)\<lparr>ex_set := n\<rparr>)"
  "\<not> says_absent ((CurlUrlException_init e ucode uaction part)\<lparr>ex_set := n\<rparr>)"
  "\<not> says_absent (CurlUrlException_init e ucode uaction part)"
  "ex_set (CurlUrlException_init e ucode uaction part) = 1"
  by (simp_all add: says_absent_def absent_def issubtype_def CurlException_init_def CurlUrlException_init_def Let_def Exception_init_def
      split: CURLaction.split)

text \<open>A handle cannot be had, and what was wrong stays known, unless not even a handle or an address can be made.\<close>

lemma set_url_stale:
  fixes g :: "('w, 'a) world_scheme"
  assumes "stale g"
  shows "\<exists>g'. (set_url L h url path (l, g) :: 'r flow \<times> _) = (Brk, (l, g')) \<and> stale g'"
  using assms
  by (auto simp: set_url_def scope_CURLU_def curl_url_dup_e_def lib_call_def flow_simps stale_def
      Exception_has_def curl_url_cleanup_def split: prod.split option.split)

lemma take_handle_stale:
  fixes g :: "('w, 'a) world_scheme"
  assumes "pool_inv L U g" "stale g"
  obtains h g1 where "(take_handle L (l, g) :: addr option flow \<times> _) = (Next, (Some h, g1))" "stale g1"
  | l1 g1 where "(take_handle L (l, g) :: addr option flow \<times> _) = (Brk, (l1, g1))" "stale g1"
proof -
  obtain as where as: "Stack_abs (pool g) as" using assms(1) unfolding pool_inv_def by blast
  show thesis
  proof (cases as)
    case Nil
    obtain ok w where n: "lib_easy_init L (lib g) = (ok, w)" by fastforce
    have pop: "on_pool Stack_pop g = (Ret None, g)"
      using handle_stack.pop_nil [OF as [unfolded Nil]] by (simp add: on_pool_def)
    show thesis
    proof (cases ok)
      case True
      let ?g = "g\<lparr>lib := w, easy := (easy g)(next_addr g \<mapsto> Map.empty), next_addr := Suc (next_addr g)\<rparr>"
      show thesis using pop n True assms(2)
        by (intro that(1) [of "next_addr g" ?g]) (simp_all add: take_handle_def flow_simps curl_easy_init_def stale_def)
    next
      case False
      let ?e = "(CurlException_init (ex g) 0 CURL_INIT CURLOPT_URL 0)\<lparr>ex_set := 1\<rparr>"
      show thesis using pop n False
        by (intro that(2) [of None "g\<lparr>lib := w, ex := ?e\<rparr>"]) (simp_all add: take_handle_def flow_simps curl_easy_init_def stale_def Exception_has_def)
    qed
  next
    case (Cons a bs)
    from handle_stack.pop_cons [OF as [unfolded Cons]] obtain q where q: "Stack_pop (pool g) = (Ret (Some a), q)"
      by blast
    from pool_inv_pop [OF assms(1) q] obtain n where n: "nodes q a = Some n" by blast
    let ?g = "g\<lparr>pool := q\<lparr>nodes := (nodes q)(a := None)\<rparr>, easy := (easy g)(nd_value n \<mapsto> Map.empty)\<rparr>"
    show thesis using q n assms(2) by (intro that(1) [of "nd_value n" ?g]) (simp_all add: take_handle_def flow_simps on_pool_def stale_def)
  qed
qed

lemma init_common_stale:
  fixes g :: "('w, 'a) world_scheme"
  assumes "pool_inv L U g" "stale g"
  shows "\<exists>g'. curl_easy_init_common L url path options g = (Ret None, g') \<and> stale g'"
  using assms
proof (cases rule: take_handle_stale [where l = None])
  case (1 h g1)
  obtain r g2 where o: "curl_easy_setopt L h CURLOPT_ERRORBUFFER VPtr g1 = (Ret r, g2)" "ex g2 = ex g1"
    by (cases "lib_setopt L CURLOPT_ERRORBUFFER VPtr (lib g1)") (auto simp: curl_easy_setopt_def)
  then have "stale g2" using 1(2) by (simp add: stale_def)
  from set_url_stale [OF this, of L h url path "Some h"] obtain g3 where
    "(set_url L h url path (Some h, g2) :: addr option flow \<times> _) = (Brk, (Some h, g3))" "stale g3" by blast
  with 1(1) o(1) show ?thesis
    by (simp add: curl_easy_init_common_def flow_simps onerror_def curl_easy_cleanup_def stale_def)
next
  case (2 l1 g1)
  then show ?thesis
    by (cases l1) (simp_all add: curl_easy_init_common_def flow_simps onerror_def curl_easy_cleanup_def stale_def)
qed

lemma head_stale:
  fixes g :: "('w, 'a) davw_scheme"
  assumes "pool_inv L U g" "stale g"
  shows "\<exists>n g'. dav_head L path sz g = (Ret (1, n), g') \<and> stale g'"
  using init_common_stale [OF assms, of "sv_baseuh g" "Some path" "Some (sv_options g)"]
  by (auto simp: dav_head_def with_server_def with_curl_def flow_simps curl_easy_cleanup_common_def stale_def TEST_SUCCESS_def)

text \<open>Then \<open>dav_mknod\<close> fails at its own probe, before anything is sent.\<close>

lemma mknod_stale:
  fixes g :: "('w, 'a) davw_scheme"
  assumes "pool_inv L U g" "lock_wf g" "lib_chunk L \<noteq> 0" "stale g" "\<not> S_ISDIR md"
  obtains r g' where "dav_mknod L path md g = (Ret r, g')" "r < 0" "\<not> has g'" "pool_inv L U g'" "server_is g g'"
proof -
  from head_stale [OF assms(1,4), of path None] obtain n g1 where g1: "dav_head L path None g = (Ret (1, n), g1)" "stale g1" by blast
  with head_cases [OF assms(3,1), of path None] have i: "pool_inv L U g1" "server_is g g1" by auto
  let ?g = "g1\<lparr>ex := Exception_destory (ex g1)\<rparr>"
  have "dav_mknod L path md g = (Ret (exception_errno (ex g1)), ?g)"
    using assms(5) g1(2) by (simp add: dav_mknod_def flow_simps onerror_def ret_call_def dav_exception_map_def probe_run [OF g1(1)] stale_def)
  with i show thesis by (intro that [of "exception_errno (ex g1)" ?g]) (simp_all add: server_is_def exception_errno_neg)
qed

subsection \<open>A server on which they are run\<close>

text \<open>A client like \<open>held0\<close> whose one handle \<open>h\<close> is in the pool.\<close>

definition one_handle :: "addr \<Rightarrow> request list davw \<Rightarrow> bool" where
  "one_handle h g \<longleftrightarrow> (\<exists>a. pool g = \<lparr>nodes = [a \<mapsto> \<lparr>nd_next = None, nd_value = h\<rparr>], stack = \<lparr>st_next = Some a, st_size = 1, st_lock = False\<rparr>\<rparr>) \<and>
     \<not> has g \<and> sv_options g = opts0 \<and> sv_tree g = sv_tree held0 \<and> locks g = locks held0 \<and> rw g = (0, False)"

definition empty_pool :: "addr stackw" where
  "empty_pool = \<lparr>nodes = Map.empty, stack = \<lparr>st_next = None, st_size = 0, st_lock = False\<rparr>\<rparr>"

lemma demo_reinit:
  assumes "one_handle h g"
  shows "curl_easy_init_common (demo_lib r) u path (Some opts0) g = (Ret (Some h), g\<lparr>pool := empty_pool, easy := (easy g)(h \<mapsto> easy0)\<rparr>)"
  using assms
  by (cases "relative_path path")
   (auto simp: one_handle_def curl_easy_init_common_def demo_run common_options_def opts0_def easy0_def empty_pool_def)

text \<open>Nothing exists, and everything else is allowed.\<close>

definition make_reply :: "request \<Rightarrow> transfer" where
  "make_reply rq = (if is_method ''HEAD'' rq then reply_error 404 rq else reply_ok rq)"

lemma demo_put:
  assumes "one_handle h g"
  shows "\<exists>g'. dav_put_simple (demo_lib make_reply) ''/a'' g = (Ret 0, g') \<and> one_handle h g'"
  using assms
  by (auto simp: dav_put_simple_def demo_steps demo_reinit [OF assms] make_reply_def is_method_def one_handle_def rw_def held0_def
      curl_slist_append_e_def empty_pool_def split: option.splits)

lemma demo_chmod:
  assumes "one_handle h g"
  shows "\<exists>g'. dav_chmod (demo_lib make_reply) ''/a'' md g = (Ret 0, g') \<and> one_handle h g'"
proof -
  let ?b = "proppatch_body ''N:mode'' (Some (mode_text md))"
  have "length ?b < 2 ^ 63" using length_mode_text [of md] by (intro length_proppatch_body) simp
  then have u: "m CURLOPT_READDATA = Some (VBuf (Buffer_init_exist ?b (of_nat (length ?b)) False)) \<Longrightarrow> upload_body (demo_lib make_reply) m k = (Ret ?b, k)"
    for m and k :: "request list davw"
    by (intro upload_exact) (simp_all add: unat_of_nat_u64)
  have "\<exists>g'. dav_proppatch (demo_lib make_reply) ''/a'' ''N:mode'' (Some (mode_text md)) g = (Ret 0, g') \<and> one_handle h g'"
    using assms
    by (auto simp: dav_proppatch_def with_buffer_def curl_slist_append_weak_def curl_slist_append_e_def setopt_upload_def demo_steps
        demo_reinit [OF assms] u make_reply_def is_method_def one_handle_def rw_def empty_pool_def simp del: upload_body_def)
  then show ?thesis
    by (auto simp: dav_chmod_def flow_simps dav_exception_check_def ret_call_def one_handle_def)
qed

lemma demo_head:
  "\<exists>g. dav_head (demo_lib make_reply) ''/a'' None held0 = (Ret (1, 0), g) \<and> has g \<and> says_absent (ex g) \<and> one_handle 1 (caught g)"
  unfolding held0_def
  by (simp add: dav_head_def demo_steps make_reply_def is_method_def numeral_2_eq_2 one_handle_def held0_def rw_def says_absent_def absent_def caught_def
   Exception_has_def issubtype_def Exception_destory_def CurlException_init_def Exception_init_def ex_initial_def)

text \<open>A server that answers every HEAD with 500 and the states of a client that makes a link on it: after the
  first HEAD, and after \<open>dav_mknod\<close>.\<close>

definition link_reply :: "request \<Rightarrow> transfer" where
  "link_reply rq = (if is_method ''HEAD'' rq then reply_error 500 rq else reply_ok rq)"

abbreviation rq_method :: "request \<Rightarrow> optval option" where
  "rq_method rq \<equiv> rq_opts rq CURLOPT_CUSTOMREQUEST"

definition link_rq :: request where
  "link_rq = \<lparr>rq_opts = easy0(CURLOPT_CUSTOMREQUEST \<mapsto> VStr (Some ''HEAD''), CURLOPT_NOBODY \<mapsto> VLong 1), rq_body = []\<rparr>"

definition link_ex :: exception where
  "link_ex = (CurlException_init ex_initial 22 CURL_PERFORM CURLOPT_URL 500)\<lparr>ex_set := Suc 0\<rparr>"

definition link1 :: "request list davw" where
  "link1 = (client0 [] Map.empty 0)\<lparr>easy := [0 \<mapsto> rq_opts link_rq], last_transfer := (last_transfer (client0 [] Map.empty 0))(0 := reply_error 500 link_rq),
     ex := link_ex, lib := [link_rq], next_addr := 2,
     pool := \<lparr>nodes = [1 \<mapsto> \<lparr>nd_next = None, nd_value = 0\<rparr>], stack = \<lparr>st_next = Some 1, st_size = 1, st_lock = False\<rparr>\<rparr>\<rparr>"

lemma link_head:
  "dav_head (demo_lib link_reply) ''/a'' None idle0 = (Ret (1, 0), link1)"
  unfolding idle0_def link1_def link_ex_def link_rq_def
  by (simp add: dav_head_def demo_steps link_reply_def is_method_def numeral_2_eq_2)

lemma link_ex: "ex_set link_ex = Suc 0" "\<not> says_absent link_ex" "exception_errno link_ex = - EIO"
  by (simp_all add: link_ex_def says_absent_def absent_def CurlException_init_def ex_initial_def Exception_init_def exception_errno_def mapped_status_def issubtype_def)

lemma link_init: "curl_easy_init_common (demo_lib link_reply) u p (Some opts0) link1 = (Ret None, link1\<lparr>easy := Map.empty, pool := empty_pool\<rparr>)"
  unfolding link1_def
  by (simp add: curl_easy_init_common_def demo_run onerror_def curl_easy_cleanup_def link_ex client0_def empty_pool_def)

definition link2 :: "request list davw" where
  "link2 = link1\<lparr>easy := Map.empty, ex := Exception_destory link_ex,
     pool := empty_pool\<rparr>"

lemma link_simps [simp]: "sv_options link1 = opts0" "ex link1 = link_ex" "sv_options link2 = opts0" "sv_tree link2 = []" "\<not> has link2"
    "sv_readers link2 = 0" "\<not> sv_writer link2" "lib link2 = [link_rq]"
    "pool link2 = empty_pool"
  by (simp_all add: link1_def link2_def Exception_destory_def Exception_has_def)

lemma link_mknod: "dav_mknod (demo_lib link_reply) ''/a'' (S_IFLNK OR mode_0777) link1 = (Ret (- EIO), link2)"
proof -
  have m: "\<not> S_ISDIR 41471" by code_simp
  have h: "dav_head (demo_lib link_reply) ''/a'' None link1 = (Ret (1, 0), link2\<lparr>ex := link_ex\<rparr>)"
    by (simp add: dav_head_def demo_steps link_init) (simp add: link2_def Exception_has_def link_ex dframe0_def)
  show ?thesis
    by (simp add: dav_mknod_def m flow_simps onerror_def ret_call_def dav_exception_map_def probe_run [OF h] link_ex Exception_has_def)
      (simp add: link2_def)
qed

lemma link_unlink: "\<exists>g'. dav_unlink (demo_lib link_reply) ''/a'' link2 = (Ret 0, g') \<and>
    map rq_method (lib g') = [Some (VStr (Some ''HEAD'')), Some (VStr (Some ''DELETE''))]"
proof -
  let ?L = "demo_lib link_reply"
  have "curl_easy_init_common ?L (sv_baseuh link2) (Some ''/a'') (Some opts0) link2 = (Ret (Some 2), link2\<lparr>easy := [2 \<mapsto> easy0], next_addr := 3\<rparr>)"
    unfolding link2_def link1_def
    by (simp add: curl_easy_init_common_def demo_run common_options_def opts0_def easy0_def client0_def empty_pool_def Exception_destory_def
        relative_path_def)
  then show ?thesis
    by (simp add: dav_unlink_def dav_delete_def demo_steps link_reply_def is_method_def link_rq_def empty_pool_def
        dav_exception_check_def ret_call_def)
qed

subsection \<open>Properties\<close>



text \<open>C32: a symbolic link whose name cannot be looked at. When the first HEAD of \<open>dav_symlink\<close> fails in another
  way than with 404 or 403, say because the server is overloaded, the exception stays set, so that
  \<open>dav_mknod\<close> fails at once; the error path then deletes whatever has that name. \<open>dav_symlink\<close> returns the
  error of \<open>dav_mknod\<close> in the state after \<open>dav_unlink\<close>, which returns 0 only after a DELETE for the name was
  answered with success.\<close>

theorem symlink_deletes:
  fixes g :: "('w, 'a) davw_scheme"
  assumes "setopt_ok L" "lib_sane L" "lock_inv L U g"
    and head: "dav_head L to None g = (Ret (res, n), g1)" "res \<noteq> 0" "\<not> says_absent (ex g1)"
  shows "\<exists>r g2 u g'. dav_mknod L to (S_IFLNK OR mode_0777) g1 = (Ret r, g2) \<and> r < 0 \<and> dav_unlink L to g2 = (Ret u, g') \<and>
    dav_symlink L from to g = (Ret r, g') \<and> \<not> Exception_has (ex g') \<and>
    (u = 0 \<and> method_done L to ''DELETE'' g2 g' \<and> forgets to g2 g' \<or> u < 0)"
proof -
  have i: "pool_inv L U g" "lock_wf g" "use_lock (sv_options g)" "rw g = (0, False)" using assms(3) by (simp_all add: lock_inv_def)
  have c: "lib_chunk L \<noteq> 0" using assms(2) by (simp add: lib_sane_def)
  from head_cases [OF c i(1), of to None] obtain k g0 where "dav_head L to None g = (Ret (if has g0 then 1 else 0, k), g0)" "pool_inv L U g0" "server_is g g0" .
  with head have h: "has g1" "pool_inv L U g1" "server_is g g1" by (simp_all split: if_splits)
  have m: "\<not> S_ISDIR (S_IFLNK OR mode_0777)" by code_simp
  have "stale g1" using h(1) head(3) by (simp add: stale_def)
  from mknod_stale [OF h(2) lock_wf_server_is [OF h(3) i(2)] c this m, of to] obtain r g2 where
    g2: "dav_mknod L to (S_IFLNK OR mode_0777) g1 = (Ret r, g2)" "r < 0" "\<not> has g2" "pool_inv L U g2" "server_is g1 g2" .
  have s: "server_is g g2" using h(3) g2(5) by (auto simp: server_is_def)
  have pre: "lock_wf g2" "use_lock (sv_options g2)" "rw g2 = (0, False)"
    using lock_wf_server_is [OF s i(2)] s i(3,4) rw_server_is [OF s] by (simp_all add: server_is_def rw_free_def rw_def)
  obtain u g' where u: "dav_unlink L to g2 = (Ret u, g')" "\<not> has g'" "u = 0 \<and> method_done L to ''DELETE'' g2 g' \<and> forgets to g2 g' \<or> u < 0"
    using assms(1) g2(4) pre by (cases rule: unlink_cases [where path = to]) (auto simp: exception_errno_neg intro: that)
  have "dav_symlink L from to g = (Ret r, g')"
    using g2(1,2) u(1,2) h(1) head(3) by (simp add: dav_symlink_def flow_simps probe_run [OF head(1)] catch_default_def)
  with g2 u show ?thesis by blast
qed

theorem symlink_deletes_witness:
  "\<exists>g'. dav_symlink (demo_lib link_reply) ''x'' ''/a'' idle0 = (Ret (- EIO), g') \<and>
    map rq_method (lib g') = [Some (VStr (Some ''HEAD'')), Some (VStr (Some ''DELETE''))]"
proof -
  have "lock_inv (demo_lib link_reply) {} idle0" using lock_wf_client0(1) by (simp add: lock_inv_def idle0_def pool_inv_client0)
  from symlink_deletes [OF _ _ this link_head, of "''x''"] demo_setopt_ok link_ex(2) link_mknod link_unlink show ?thesis
    by (auto simp: lib_sane_def)
qed

end
