(* ===== verification/Spec2Isabelle.thy ===== *)
theory Spec2Isabelle
  imports Macros VTables Expansion Main_Laws Option_Spec Messages Curl_Ssl Dav_Lock_Threads Dav_Move_Laws Dav_Session_Laws Dav_Range_Laws Dav_Error_Laws Dav_Create_Laws
begin

text \<open>
  \<^bold>\<open>networkfs\<close>: a FUSE file system that shows a WebDAV server as a directory.

  \<^bold>\<open>The program.\<close> \<open>src/networkfs.c\<close> reads the command line, takes the URL apart, chooses a protocol
  (\<open>src/proto/proto.c\<close>) and hands its table of operations to libfuse (\<open>src/emulator\<close>). The protocol \<open>dav\<close>
  has a layer of file operations (\<open>src/proto/dav/dav.c\<close>), each a few WebDAV methods
  (\<open>src/proto/dav/method.c\<close>) whose exceptions become error numbers. A method takes an easy handle of
  libcurl from a pool (\<open>src/common/wrapper/curl.c\<close>, a spin-locked stack, \<open>src/common/template/stack.c\<close>),
  sends one request, with bodies going through buffers (\<open>src/common/template/buffer.c\<close>), and gives the
  handle back. Locks on files that are open for writing are kept in a table with counts of their
  users, guarded by a read-write lock. All of it is written with macros for blocks that hold a
  resource and for exceptions (\<open>src/common/grammar\<close>).

  \<^bold>\<open>The model.\<close> A statement of C is a function from a state to the way it is left and the new state
  (\<open>Control\<close>): falling through, \<open>break\<close>, \<open>continue\<close>, \<open>return\<close>, or stopping the program (a wild access, a
  thread that waits for ever, \<open>exit\<close>). The macros \<open>with\<close>, \<open>synchronized\<close>, \<open>try\<close>, \<open>throwable\<close> and their kin are
  combinators with the meaning of their expansion, so that the functions read like the sources; that the
  expansions, written out with their labels and jumps, have this meaning is shown in \<open>Expansion\<close>. A
  state is a pair of the function's variables and the program's state. The records of the program's
  state grow with the components: \<open>exw\<close> (the thread's exception), \<open>world\<close> (libcurl, the pool, the handles),
  \<open>davw\<close> (the server record and the lock table), \<open>protow\<close> and \<open>mainw\<close>. libcurl, libxml, \<open>strptime\<close>, the
  allocator and values of uninitialised memory are the parameter \<open>libs\<close>, libfuse is \<open>fuse_lib\<close>; what a
  theorem needs of them is among its assumptions (\<open>lib_sane\<close>, \<open>setopt_ok\<close>, \<open>honest\<close>, \<open>lib_nice\<close>, \<open>stores_int\<close>).

  \<^bold>\<open>The theories.\<close>
  \<^item> \<open>NFS_Prelude\<close>: collections of rules, lemmas about lists and words.
  \<^item> \<open>Crc32\<close> (crc32.c): the table-driven checksum is the bit-serial one and can be computed in parts.
  \<^item> \<open>Macros\<close> (grammar/macro.h and the macros that count their arguments): expansion on lists of tokens;
    the variant that is chosen, and the comparison that tells \<open>VTABLE(Class)\<close> from a declaration.
  \<^item> \<open>VTables\<close> (grammar/vtable.h, .c): a table of functions is accepted after its initialisation; after a
    change of up to 32 bits in a row \<open>virtual_method\<close> ends the process.
  \<^item> \<open>Control\<close>, \<open>Exceptions\<close> (grammar/with.h, foreach.h, try.h, exception.c, malloc.h): statements and
    exceptions; \<open>Flow_Laws\<close>: a small program logic for them, judgements that a statement ends, keeps an
    invariant and breaks exactly on an exception, with rules for every combinator.
  \<^item> \<open>Expansion\<close> (grammar/with.h, try.h, _class.h, synchronized.h): the text of the macros in a small C with
    labels and \<open>goto\<close>, its compilation to a machine with a program counter (every statement with distinct labels can
    be laid out), and that the compiled expansions of \<open>with\<close>, \<open>throwable\<close>, \<open>throw\<close>, \<open>try\<close>, \<open>scope\<close> and
    \<open>ensure_synchronized\<close> do what the combinators say.
  \<^item> \<open>Messages\<close> (exception.c, malloc.c, curl.c): what is printed of an exception.
  \<^item> \<open>CStrings\<close>, \<open>Posix\<close>, \<open>Xml_Types\<close>, \<open>Curl_Types\<close> (utils.h and what is used of libc, libxml and libcurl).
  \<^item> \<open>Buffers\<close> (template/buffer.c): interfaces \<open>byte_sink\<close>, \<open>bounded_sink\<close> and \<open>byte_source\<close>, and that the
    buffer implements them: transfers arrive and leave byte by byte as they are.
  \<^item> \<open>Stacks\<close> (template/stack.c): the stack step by step, alone (it implements a \<open>lifo\<close>) and with many
    threads (a step relation, its invariant and its progress).
  \<^item> \<open>Curl\<close>, \<open>Curl_Ssl\<close>, \<open>Curl_Laws\<close> (wrapper/curl.h, curl.c): requests, and the pool of handles; the locale
    \<open>curl_frame\<close> has the rules for every client, whatever else is in the state.
  \<^item> \<open>Dav_State\<close>, \<open>Dav_Parser\<close>, \<open>Dav_Methods\<close>, \<open>Dav_Propfind\<close>, \<open>Dav_Locks\<close> (dav/method.h, parser.c, method.c)
    and \<open>Dav_Oper\<close> (dav/dav.c): the client. \<open>Dav_Locks\<close> has the parts between which other threads can run
    as definitions of their own.
  \<^item> \<open>Dav_Laws\<close>, \<open>Dav_Method_Laws\<close>, \<open>Dav_Error_Laws\<close>: methods end, keep the pool and the table well formed,
    and what they do to the read-write lock; error numbers; the negotiation with the server.
  \<^item> \<open>Dav_Lock_Laws\<close>: the lock table counts users (the locale \<open>ref_counted\<close>), and a race.
    \<open>Dav_Lock_Threads\<close>: the table with many threads, a step relation over the parts of \<open>dav_lock\<close> and
    \<open>dav_unlock\<close>, its invariant and its progress, as long as that race does not happen.
  \<^item> \<open>Dav_Table_Laws\<close>: what the methods with locks share, from the handle and the If header to the
    table and the read-write lock afterwards. On it rest \<open>Dav_Move_Laws\<close> (rename), \<open>Dav_Put_Laws\<close>
    (write), \<open>Dav_Delete_Laws\<close> (unlink, what a failed DELETE leaves, and its race with \<open>dav_unlock\<close>),
    \<open>Dav_Copy_Laws\<close> and \<open>Dav_Range_Laws\<close> (\<open>dav_truncate\<close> and \<open>dav_copy_file_range\<close>) and
    \<open>Dav_Create_Laws\<close> (\<open>dav_create\<close>, and what \<open>dav_symlink\<close> does when its first look fails): from the call
    to the headers of the request and back.
  \<^item> \<open>Dav_Session_Laws\<close>: whole sessions of opening, reading, writing and closing files: the lock table
    has as many users of a path as it is open for writing, and no call waits for ever.
  \<^item> \<open>Dav_Io_Laws\<close>, \<open>Dav_List_Laws\<close>: reads, directories and attributes from the call to the request and
    back. \<open>Dav_Text_Laws\<close>: the texts in requests and answers.
  \<^item> \<open>Dav_Demo\<close>: a small server and client on which the theorems are tried.
  \<^item> \<open>Proto\<close> (proto/proto.c, proto/dummy, emulator), \<open>Options\<close>, \<open>Main_Laws\<close> and \<open>Option_Spec\<close> (networkfs.c):
    the choice of the protocol, the URL, hidden passwords, the mount; the table of options, which fits the
    layout and types of the record it fills in, but for the width of the flags.

  \<^bold>\<open>Numbers and loops.\<close> \<open>size_t\<close> and \<open>off_t\<close> are words of 64 bits, \<open>mode_t\<close>, \<open>uid_t\<close> and \<open>gid_t\<close> of 32, with C's
  conversions written out. Loops run over lists of the data; only the upload, which calls back until
  nothing is left, has fuel: one round more than the buffer has bytes, which \<open>Buffer_send\<close> and
  \<open>upload_exact\<close> show to be enough. Waiting for a lock that nobody will give back is the value
  \<open>Stop Blocked\<close>.

  \<^bold>\<open>Sequential and concurrent parts.\<close> The stack of handles and the lock table are modelled under
  interleaving. A step of the lock table is a critical section, with the work before it that no other
  thread's part can see (memory, and the request to the server, which does not read the table). Each
  thread has its own exception. The file operations are modelled as one thread runs them;
  \<open>unlock_race\<close> and \<open>unlock_delete_race\<close> run another thread between two critical sections of \<open>dav_unlock\<close>.

  \<^bold>\<open>Not modelled.\<close> The macros that only declare types and functions (grammar/class.h, the first part of
  _class.h and those of vtable.h) and compiler hints, whose uses appear expanded; macros and generated
  constructors that nothing uses (\<open>hideE\<close>, \<open>wait_synchronized\<close>, \<open>try_synchronized\<close>, \<open>until_synchronized\<close>,
  \<open>Buffer_new\<close>, \<open>Stack_new\<close>); the wrappers of the log and of libfuse's header; \<open>dav_load\<close>, which ends the program
  when libxml was built without threads; file and line of an exception, which are only printed;
  \<open>dir_timeout\<close>, which nothing reads; memory that is leaked; libcurl, libxml and libfuse themselves. File
  operations of several threads at a time are modelled only as far as they meet in the stack of handles and
  in the lock table.
\<close>

end
